(* ===== verification/Prelude.thy ===== *)
theory Prelude
  imports Main "HOL-Library.Word" "HOL-Library.Monad_Syntax"
begin

text \<open>
  Shared vocabulary of the development: the machine types of the client (fixed width
  unsigned integers, bytes, millisecond and nanosecond time stamps), the error value that
  the components pass to each other (\<open>VpnError\<close> of
  \<^verbatim>\<open>common/include/vpn/utils.h\<close>), the collections of rewrite rules that the
  component theories extend, and generic facts on lists and options that several
  components use.
\<close>

named_theorems fsm_defs \<open>definitions of transition tables, conditions and actions\<close>
named_theorems loop_defs \<open>definitions of event loop operations\<close>
named_theorems wire_simps \<open>reader and writer equations of the wire formats\<close>
named_theorems buf_defs \<open>definitions of byte buffers\<close>
named_theorems mux_defs \<open>definitions of the multiplexers\<close>

section \<open>Machine types\<close>

type_synonym u8 = "8 word"
type_synonym u16 = "16 word"
type_synonym u32 = "32 word"
type_synonym u64 = "64 word"
type_synonym byte = "8 word"
type_synonym bytes = "byte list"

text \<open>Durations in milliseconds and time points in nanoseconds, both signed 64-bit in the source.\<close>

type_synonym millis = int
type_synonym nanos = int

section \<open>Errors\<close>

text \<open>
  \<open>struct VpnError { int code; const char *text; }\<close>: a null text is \<open>None\<close>.
\<close>

record VpnError =
  code :: int
  err_text :: "string option"

definition mk_error :: "int \<Rightarrow> string \<Rightarrow> VpnError" where
  "mk_error c t = \<lparr>code = c, err_text = Some t\<rparr>"

definition no_error :: VpnError where
  "no_error = \<lparr>code = 0, err_text = None\<rparr>"

lemma code_mk_error [simp]: "code (mk_error c t) = c"
  by (simp add: mk_error_def)

lemma code_no_error [simp]: "code no_error = 0"
  by (simp add: no_error_def)

section \<open>Generic facts\<close>

lemma concat_eq_Nil_iff: "concat xss = [] \<longleftrightarrow> (\<forall>xs \<in> set xss. xs = [])"
  by (induction xss) auto

lemma take_min_length [simp]: "take (min n (length xs)) xs = take n xs"
  by (cases "n \<le> length xs") auto

lemma drop_min_length [simp]: "drop (min n (length xs)) xs = drop n xs"
  by (cases "n \<le> length xs") auto

lemma map_option_eq_None [simp]: "map_option f x = None \<longleftrightarrow> x = None"
  by (cases x) auto

lemma find_Some_split:
  "List.find P xs = Some x \<longleftrightarrow>
     (\<exists>ys zs. xs = ys @ x # zs \<and> P x \<and> (\<forall>y \<in> set ys. \<not> P y))" (is "?l \<longleftrightarrow> ?r")
proof
  assume ?l
  then obtain i where i: "i < length xs" "P (xs ! i)" "x = xs ! i" "\<forall>j<i. \<not> P (xs ! j)"
    by (auto simp: find_Some_iff)
  have "xs = take i xs @ x # drop (Suc i) xs" using i by (simp add: id_take_nth_drop)
  moreover have "\<forall>y \<in> set (take i xs). \<not> P y" using i by (auto simp: in_set_conv_nth)
  ultimately show ?r using i by blast
next
  assume ?r
  then obtain ys zs where "xs = ys @ x # zs" "P x" "\<forall>y \<in> set ys. \<not> P y" by blast
  then show ?l by (induction ys arbitrary: xs) auto
qed

end
