(* ===== verification/Fsm.thy ===== *)
theory Fsm
  imports Prelude
begin

text \<open>
  The table driven state machine engine that runs the VPN session and the endpoint client
  (\<^verbatim>\<open>common/include/vpn/fsm.h\<close>, \<^verbatim>\<open>common/src/fsm.cpp\<close>,
  \<^verbatim>\<open>common/src/fsm_validation.cpp\<close>).

  In the source the machine is a member of the object that its actions work on, and the
  actions reach it through the user context pointer. The model keeps that shape: the
  context \<open>'c\<close> contains the machine, and the engine reads and writes it through an
  accessor \<open>get\<close> and an update \<open>upd\<close>. The event data (a \<open>void *\<close>) is a value of
  the type \<open>'d\<close>. Log lines are left out.
\<close>

section \<open>Types\<close>

type_synonym FsmState = u32
type_synonym FsmEvent = int

text \<open>
  A null condition (\<open>ANYWAY\<close>, \<open>OTHERWISE\<close>) and a null action (\<open>DO_NOTHING\<close>) are
  \<open>None\<close>.
\<close>

record ('c, 'd) FsmTransitionEntry =
  src_state :: FsmState
  event :: FsmEvent
  condition :: "('c \<Rightarrow> 'd \<Rightarrow> bool) option"
  before_transition :: "('c \<Rightarrow> 'd \<Rightarrow> 'c) option"
  target_state :: FsmState
  after_transition :: "('c \<Rightarrow> 'd \<Rightarrow> 'c) option"

type_synonym ('c, 'd) FsmTransitionTable = "('c, 'd) FsmTransitionEntry list"

definition entry ::
  "FsmState \<Rightarrow> FsmEvent \<Rightarrow> ('c \<Rightarrow> 'd \<Rightarrow> bool) option \<Rightarrow> ('c \<Rightarrow> 'd \<Rightarrow> 'c) option \<Rightarrow>
   FsmState \<Rightarrow> ('c \<Rightarrow> 'd \<Rightarrow> 'c) option \<Rightarrow> ('c, 'd) FsmTransitionEntry" where
  "entry s e c b t a =
     \<lparr>src_state = s, event = e, condition = c, before_transition = b, target_state = t,
      after_transition = a\<rparr>"

definition ANY_SOURCE_STATE :: FsmState where
  "ANY_SOURCE_STATE = 0xFFFFFFFF"

definition SAME_TARGET_STATE :: FsmState where
  "SAME_TARGET_STATE = 0xFFFFFFFE"

record Fsm =
  m_current_state :: FsmState
  m_recursive :: bool

section \<open>Table validation\<close>

text \<open>
  The loop of \<open>validate_transition_table\<close>; the map is \<open>validation_table\<close>, keyed by the
  pair that the source's \<open>operator==\<close> compares, and holds the \<open>closed\<close> flag.
\<close>

fun validate_from ::
  "(FsmState \<times> FsmEvent \<rightharpoonup> bool) \<Rightarrow> ('c, 'd) FsmTransitionTable \<Rightarrow> bool" where
  "validate_from vt [] = True"
| "validate_from vt (e # es) =
     (if src_state e = SAME_TARGET_STATE then False
      else if target_state e = ANY_SOURCE_STATE then False
      else if (case vt (src_state e, event e) of None \<Rightarrow> False | Some closed \<Rightarrow> closed) then False
      else validate_from (vt((src_state e, event e) \<mapsto> Option.is_none (condition e))) es)"

definition validate_transition_table :: "('c, 'd) FsmTransitionTable \<Rightarrow> bool" where
  "validate_transition_table table = validate_from Map.empty table"

text \<open>The constructor: \<open>None\<close> is the call of \<open>abort()\<close>.\<close>

definition Fsm_new :: "FsmState \<Rightarrow> ('c, 'd) FsmTransitionTable \<Rightarrow> Fsm option" where
  "Fsm_new initial_state table =
     (if validate_transition_table table
      then Some \<lparr>m_current_state = initial_state, m_recursive = False\<rparr>
      else None)"

section \<open>Running the machine\<close>

definition entry_matches ::
  "FsmState \<Rightarrow> FsmEvent \<Rightarrow> 'c \<Rightarrow> 'd \<Rightarrow> ('c, 'd) FsmTransitionEntry \<Rightarrow> bool" where
  "entry_matches cur ev ctx data e \<longleftrightarrow>
     \<not> (cur \<noteq> src_state e \<and> src_state e \<noteq> ANY_SOURCE_STATE) \<and> ev = event e \<and>
     (case condition e of None \<Rightarrow> True | Some cond \<Rightarrow> cond ctx data)"

definition run_action :: "('c \<Rightarrow> 'd \<Rightarrow> 'c) option \<Rightarrow> 'd \<Rightarrow> 'c \<Rightarrow> 'c" where
  "run_action act data ctx = (case act of None \<Rightarrow> ctx | Some f \<Rightarrow> f ctx data)"

definition fire ::
  "((Fsm \<Rightarrow> Fsm) \<Rightarrow> 'c \<Rightarrow> 'c) \<Rightarrow> ('c, 'd) FsmTransitionEntry \<Rightarrow> 'd \<Rightarrow> 'c \<Rightarrow> 'c" where
  "fire upd e data ctx =
     (let ctx = run_action (before_transition e) data ctx;
          ctx = (if target_state e \<noteq> SAME_TARGET_STATE
                 then upd (m_current_state_update (\<lambda>_. target_state e)) ctx else ctx);
          ctx = upd (m_recursive_update (\<lambda>_. False)) ctx
      in run_action (after_transition e) data ctx)"

text \<open>
  \<open>Fsm::perform_transition\<close>. A recursive call (from a condition or a before action) hits
  \<open>assert(0)\<close> and, with assertions compiled out, returns at once.
\<close>

definition perform_transition ::
  "('c \<Rightarrow> Fsm) \<Rightarrow> ((Fsm \<Rightarrow> Fsm) \<Rightarrow> 'c \<Rightarrow> 'c) \<Rightarrow> ('c, 'd) FsmTransitionTable \<Rightarrow>
   FsmEvent \<Rightarrow> 'd \<Rightarrow> 'c \<Rightarrow> 'c" where
  "perform_transition get upd table ev data ctx =
     (if m_recursive (get ctx) then ctx
      else
        let ctx = upd (m_recursive_update (\<lambda>_. True)) ctx;
            ctx = (case List.find (entry_matches (m_current_state (get ctx)) ev ctx data) table of
                     None \<Rightarrow> ctx
                   | Some e \<Rightarrow> fire upd e data ctx)
        in upd (m_recursive_update (\<lambda>_. False)) ctx)"

definition get_state :: "('c \<Rightarrow> Fsm) \<Rightarrow> 'c \<Rightarrow> FsmState" where
  "get_state get ctx = m_current_state (get ctx)"

definition fsm_reset :: "FsmState \<Rightarrow> Fsm \<Rightarrow> Fsm" where
  "fsm_reset initial_state f = f\<lparr>m_current_state := initial_state, m_recursive := False\<rparr>"

section \<open>What validation guarantees\<close>

text \<open>
  Row \<open>i\<close> is dead when an earlier row with the same source state and event has no
  condition: the engine then never reaches row \<open>i\<close>.
\<close>

definition no_dead_rows :: "('c, 'd) FsmTransitionTable \<Rightarrow> bool" where
  "no_dead_rows t \<longleftrightarrow>
     (\<forall>pre e post. t = pre @ e # post \<longrightarrow>
        (\<forall>e' \<in> set pre. src_state e' = src_state e \<and> event e' = event e \<longrightarrow> condition e' \<noteq> None))"

definition well_formed_rows :: "('c, 'd) FsmTransitionTable \<Rightarrow> bool" where
  "well_formed_rows t \<longleftrightarrow>
     (\<forall>e \<in> set t. src_state e \<noteq> SAME_TARGET_STATE \<and> target_state e \<noteq> ANY_SOURCE_STATE)"

lemma no_dead_rows_Nil [simp]: "no_dead_rows []"
  by (simp add: no_dead_rows_def)

lemma no_dead_rows_snoc:
  "no_dead_rows (t @ [e]) \<longleftrightarrow> no_dead_rows t \<and>
     (\<forall>e' \<in> set t. src_state e' = src_state e \<and> event e' = event e \<longrightarrow> condition e' \<noteq> None)"
proof
  assume h: "no_dead_rows (t @ [e])"
  have "no_dead_rows t"
    unfolding no_dead_rows_def
  proof (intro allI impI)
    fix pre a post
    assume "t = pre @ a # post"
    then have "t @ [e] = pre @ a # (post @ [e])" by simp
    with h show "\<forall>e' \<in> set pre. src_state e' = src_state a \<and> event e' = event a \<longrightarrow> condition e' \<noteq> None"
      unfolding no_dead_rows_def by blast
  qed
  moreover have "\<forall>e' \<in> set t. src_state e' = src_state e \<and> event e' = event e \<longrightarrow> condition e' \<noteq> None"
    using h [unfolded no_dead_rows_def, THEN spec [of _ t], THEN spec [of _ e]] by blast
  ultimately show "no_dead_rows t \<and>
     (\<forall>e' \<in> set t. src_state e' = src_state e \<and> event e' = event e \<longrightarrow> condition e' \<noteq> None)" by blast
next
  assume h: "no_dead_rows t \<and>
     (\<forall>e' \<in> set t. src_state e' = src_state e \<and> event e' = event e \<longrightarrow> condition e' \<noteq> None)"
  show "no_dead_rows (t @ [e])"
    unfolding no_dead_rows_def
  proof (intro allI impI)
    fix pre a post
    assume eq: "t @ [e] = pre @ a # post"
    show "\<forall>e' \<in> set pre. src_state e' = src_state a \<and> event e' = event a \<longrightarrow> condition e' \<noteq> None"
    proof (cases post rule: rev_cases)
      case Nil
      then show ?thesis using eq h by simp
    next
      case (snoc post' b)
      with eq have "t = pre @ a # post'" by simp
      then show ?thesis using h unfolding no_dead_rows_def by blast
    qed
  qed
qed

text \<open>The validation table after the rows \<open>t\<close>: the flag of the last row of each key.\<close>

definition closed_after :: "('c, 'd) FsmTransitionTable \<Rightarrow> (FsmState \<times> FsmEvent \<rightharpoonup> bool)" where
  "closed_after t = fold (\<lambda>e vt. vt((src_state e, event e) \<mapsto> Option.is_none (condition e))) t Map.empty"

lemma closed_after_snoc [simp]:
  "closed_after (t @ [e]) = (closed_after t)((src_state e, event e) \<mapsto> Option.is_none (condition e))"
  by (simp add: closed_after_def)

lemma closed_after_iff:
  "no_dead_rows t \<Longrightarrow>
   closed_after t (s, ev) = Some True \<longleftrightarrow>
     (\<exists>e \<in> set t. src_state e = s \<and> event e = ev \<and> condition e = None)"
proof (induction t rule: rev_induct)
  case Nil
  then show ?case by (simp add: closed_after_def)
next
  case (snoc e t)
  then show ?case by (auto simp: no_dead_rows_snoc Option.is_none_def)
qed

lemma validate_from_closed_after:
  assumes "no_dead_rows pre" "well_formed_rows pre"
  shows "validate_from (closed_after pre) t \<longleftrightarrow> well_formed_rows (pre @ t) \<and> no_dead_rows (pre @ t)"
  using assms
proof (induction t arbitrary: pre)
  case Nil
  then show ?case by simp
next
  case (Cons e t)
  let ?k = "closed_after pre (src_state e, event e)"
  have closed: "(case ?k of None \<Rightarrow> False | Some c \<Rightarrow> c) \<longleftrightarrow>
      (\<exists>e' \<in> set pre. src_state e' = src_state e \<and> event e' = event e \<and> condition e' = None)"
    using closed_after_iff [OF Cons.prems(1), of "src_state e" "event e"]
    by (cases ?k) auto
  have head: "well_formed_rows (pre @ [e]) \<and> no_dead_rows (pre @ [e]) \<longleftrightarrow>
      src_state e \<noteq> SAME_TARGET_STATE \<and> target_state e \<noteq> ANY_SOURCE_STATE \<and>
      \<not> (case ?k of None \<Rightarrow> False | Some c \<Rightarrow> c)"
    using Cons.prems closed by (auto simp: well_formed_rows_def no_dead_rows_snoc)
  show ?case
  proof (cases "well_formed_rows (pre @ [e]) \<and> no_dead_rows (pre @ [e])")
    case True
    have "validate_from (closed_after pre) (e # t) = validate_from (closed_after (pre @ [e])) t"
      unfolding closed_after_snoc using True head by simp
    moreover have "validate_from (closed_after (pre @ [e])) t \<longleftrightarrow>
        well_formed_rows ((pre @ [e]) @ t) \<and> no_dead_rows ((pre @ [e]) @ t)"
      using Cons.IH True by blast
    ultimately show ?thesis by simp
  next
    case False
    have "no_dead_rows (pre @ e # t) \<Longrightarrow> no_dead_rows (pre @ [e])"
      unfolding no_dead_rows_def
      by (metis append.assoc append_Cons append_Nil append_eq_append_conv2)
    moreover have "well_formed_rows (pre @ e # t) \<Longrightarrow> well_formed_rows (pre @ [e])"
      by (auto simp: well_formed_rows_def)
    ultimately show ?thesis using False head by auto
  qed
qed

lemma validate_iff:
  "validate_transition_table t \<longleftrightarrow> well_formed_rows t \<and> no_dead_rows t"
  using validate_from_closed_after [of "[]" t]
  by (simp add: validate_transition_table_def closed_after_def well_formed_rows_def)

section \<open>The contract of the engine\<close>

text \<open>
  The first row of the table that matches, which is the row the engine fires.
\<close>

definition selected_row ::
  "('c \<Rightarrow> Fsm) \<Rightarrow> ((Fsm \<Rightarrow> Fsm) \<Rightarrow> 'c \<Rightarrow> 'c) \<Rightarrow> ('c, 'd) FsmTransitionTable \<Rightarrow>
   FsmEvent \<Rightarrow> 'd \<Rightarrow> 'c \<Rightarrow> ('c, 'd) FsmTransitionEntry option" where
  "selected_row get upd table ev data ctx =
     (let ctx = upd (m_recursive_update (\<lambda>_. True)) ctx
      in List.find (entry_matches (m_current_state (get ctx)) ev ctx data) table)"

text \<open>
  What an object must offer to host a machine: the accessor and the update of its machine
  member form a lens. A client's action \<^emph>\<open>keeps\<close> the machine when it never writes the
  machine itself; the lemmas give the effect of a transition for such actions.
\<close>

locale fsm_host =
  fixes get :: "'c \<Rightarrow> Fsm"
    and upd :: "(Fsm \<Rightarrow> Fsm) \<Rightarrow> 'c \<Rightarrow> 'c"
  assumes get_upd: "get (upd f c) = f (get c)"
    and upd_upd: "upd f (upd g c) = upd (\<lambda>x. f (g x)) c"
    and upd_keep: "f (get c) = get c \<Longrightarrow> upd f c = c"
begin

definition keeps_machine :: "('c \<Rightarrow> 'd \<Rightarrow> 'c) option \<Rightarrow> bool" where
  "keeps_machine act \<longleftrightarrow> (\<forall>data ctx. get (run_action act data ctx) = get ctx)"

lemma keeps_machine_None [simp]: "keeps_machine None"
  by (simp add: keeps_machine_def run_action_def)

lemma keeps_machine_SomeI: "(\<And>data ctx. get (f ctx data) = get ctx) \<Longrightarrow> keeps_machine (Some f)"
  by (simp add: keeps_machine_def run_action_def)

lemma recursive_call_ignored:
  "m_recursive (get ctx) \<Longrightarrow> perform_transition get upd t ev data ctx = ctx"
  by (simp add: perform_transition_def)

lemma not_recursive_after:
  "\<not> m_recursive (get ctx) \<Longrightarrow> \<not> m_recursive (get (perform_transition get upd t ev data ctx))"
  by (simp add: perform_transition_def get_upd Let_def)

lemma no_row_no_effect:
  assumes "\<not> m_recursive (get ctx)" "selected_row get upd t ev data ctx = None"
  shows "perform_transition get upd t ev data ctx = ctx"
  using assms by (simp add: perform_transition_def selected_row_def Let_def get_upd upd_upd upd_keep)

text \<open>The effect of a transition on the machine, for a row whose actions leave it alone.\<close>

lemma state_after:
  assumes "\<not> m_recursive (get ctx)"
    and "selected_row get upd t ev data ctx = Some e"
    and "keeps_machine (before_transition e)" "keeps_machine (after_transition e)"
  shows "get (perform_transition get upd t ev data ctx) =
    \<lparr>m_current_state = (if target_state e = SAME_TARGET_STATE then m_current_state (get ctx)
                       else target_state e),
     m_recursive = False\<rparr>"
  using assms
  by (simp add: perform_transition_def selected_row_def fire_def keeps_machine_def Let_def get_upd)

lemma selected_row_Some:
  assumes "selected_row get upd t ev data ctx = Some e"
  obtains pre post where "t = pre @ e # post"
    "entry_matches (m_current_state (get ctx)) ev (upd (m_recursive_update (\<lambda>_. True)) ctx) data e"
    "\<forall>e' \<in> set pre. \<not> entry_matches (m_current_state (get ctx)) ev
        (upd (m_recursive_update (\<lambda>_. True)) ctx) data e'"
  using assms find_Some_split [of _ t e]
  by (auto simp: selected_row_def Let_def get_upd)

end

end
