(* ===== verification/Common_Utils.thy ===== *)
theory Common_Utils
  imports Prelude Complex_Main "HOL-Library.Multiset"
begin

text \<open>
  Helpers of \<^verbatim>\<open>common/include/vpn/utils.h\<close> and the arithmetic of the language that the
  recovery timing uses: \<open>swap_remove_if\<close>, the \<open>timeval\<close> conversions, and the multiplication of
  a duration by a \<open>float\<close> followed by \<open>std::chrono::round\<close>.
\<close>

section \<open>swap_remove_if\<close>

text \<open>The \<open>std::find_if\<close> of the first line: the index of the first element to remove.\<close>

primrec find_if_from :: "('a \<Rightarrow> bool) \<Rightarrow> 'a list \<Rightarrow> nat" where
  "find_if_from p [] = 0"
| "find_if_from p (x # xs) = (if p x then 0 else Suc (find_if_from p xs))"

definition swap_at :: "nat \<Rightarrow> nat \<Rightarrow> 'a list \<Rightarrow> 'a list" where
  "swap_at i j xs = xs[i := xs ! j, j := xs ! i]"

function swap_remove_loop :: "('a \<Rightarrow> bool) \<Rightarrow> 'a list \<Rightarrow> nat \<Rightarrow> nat \<Rightarrow> 'a list \<times> nat" where
  "swap_remove_loop p xs b i =
     (if i < length xs then
        if \<not> p (xs ! i) then swap_remove_loop p (swap_at b i xs) (Suc b) (Suc i)
        else swap_remove_loop p xs b (Suc i)
      else (xs, b))"
  by pat_completeness auto
termination
  by (relation "measure (\<lambda>(p, xs, b, i). length xs - i)") (auto simp: swap_at_def)

declare swap_remove_loop.simps [simp del]

text \<open>The array after the call and the returned iterator, as an index.\<close>

definition swap_remove_if :: "('a \<Rightarrow> bool) \<Rightarrow> 'a list \<Rightarrow> 'a list \<times> nat" where
  "swap_remove_if p xs =
     (let b = find_if_from p xs
      in if b \<noteq> length xs then swap_remove_loop p xs b (Suc b) else (xs, b))"

lemma length_swap_at [simp]: "length (swap_at i j xs) = length xs"
  by (simp add: swap_at_def)

lemma mset_swap_at [simp]:
  "i < length xs \<Longrightarrow> j < length xs \<Longrightarrow> mset (swap_at i j xs) = mset xs"
  unfolding swap_at_def by (rule mset_swap)

lemma find_if_from_le: "find_if_from p xs \<le> length xs"
  by (induction xs) auto

lemma find_if_from_take: "filter (\<lambda>x. \<not> p x) (take (find_if_from p xs) xs) = take (find_if_from p xs) xs"
  by (induction xs) auto

lemma find_if_from_hit: "find_if_from p xs < length xs \<Longrightarrow> p (xs ! find_if_from p xs)"
  by (induction xs) (auto split: if_splits)

text \<open>
  The loop invariant: the first \<open>b\<close> cells hold the kept elements of the first \<open>i\<close> cells of the
  original array in their order, the cells from \<open>b\<close> to \<open>i\<close> hold elements to remove, and the
  rest is untouched.
\<close>

definition srm_inv :: "('a \<Rightarrow> bool) \<Rightarrow> 'a list \<Rightarrow> 'a list \<Rightarrow> nat \<Rightarrow> nat \<Rightarrow> bool" where
  "srm_inv p xs ys b i \<longleftrightarrow>
     b < i \<and> i \<le> length xs \<and> mset ys = mset xs \<and>
     take b ys = filter (\<lambda>x. \<not> p x) (take i xs) \<and>
     (\<forall>k. b \<le> k \<and> k < i \<longrightarrow> p (ys ! k)) \<and>
     (\<forall>k. i \<le> k \<and> k < length xs \<longrightarrow> ys ! k = xs ! k)"

lemma srm_inv_length: "srm_inv p xs ys b i \<Longrightarrow> length ys = length xs"
  unfolding srm_inv_def by (metis size_mset)

lemma srm_inv_skip:
  assumes "srm_inv p xs ys b i" "i < length xs" "p (ys ! i)"
  shows "srm_inv p xs ys b (Suc i)"
  using assms by (auto simp: srm_inv_def take_Suc_conv_app_nth less_Suc_eq)

lemma srm_inv_swap:
  assumes inv: "srm_inv p xs ys b i" and i: "i < length xs" and keep: "\<not> p (ys ! i)"
  shows "srm_inv p xs (swap_at b i ys) (Suc b) (Suc i)"
proof -
  have len: "length ys = length xs" using inv by (rule srm_inv_length)
  have bi: "b < i" using inv by (simp add: srm_inv_def)
  have "take (Suc b) (swap_at b i ys) = take b ys @ [ys ! i]"
    using bi i len by (simp add: swap_at_def take_Suc_conv_app_nth)
  moreover have "ys ! i = xs ! i" using inv i by (simp add: srm_inv_def)
  moreover have "mset (swap_at b i ys) = mset xs"
    using inv bi i len by (simp add: srm_inv_def)
  moreover have "swap_at b i ys ! k = (if k = i then ys ! b else if k = b then ys ! i else ys ! k)"
    if "k < length xs" for k
    using that len bi i by (simp add: swap_at_def nth_list_update)
  ultimately show ?thesis
    using inv i keep len bi by (auto simp: srm_inv_def take_Suc_conv_app_nth less_Suc_eq)
qed

lemma swap_remove_loop_correct:
  "srm_inv p xs ys b i \<Longrightarrow> swap_remove_loop p ys b i = (zs, e) \<Longrightarrow>
   mset zs = mset xs \<and> take e zs = filter (\<lambda>x. \<not> p x) xs \<and> e \<le> length zs"
proof (induction p ys b i arbitrary: zs e rule: swap_remove_loop.induct)
  case (1 p ys b i)
  have len: "length ys = length xs" using 1(3) by (rule srm_inv_length)
  show ?case
  proof (cases "i < length ys")
    case True
    then show ?thesis
      using 1 len srm_inv_skip [OF 1(3)] srm_inv_swap [OF 1(3)]
      by (cases "p (ys ! i)") (simp_all add: swap_remove_loop.simps [of p ys b i])
  next
    case False
    then have "zs = ys" "e = b" using 1(4) by (simp_all add: swap_remove_loop.simps [of p ys b i])
    then show ?thesis using 1(3) False len by (auto simp: srm_inv_def)
  qed
qed

lemma swap_remove_if_kept:
  assumes "swap_remove_if p xs = (zs, e)"
  shows "take e zs = filter (\<lambda>x. \<not> p x) xs" "mset zs = mset xs" "e \<le> length zs"
proof -
  let ?b = "find_if_from p xs"
  have "take e zs = filter (\<lambda>x. \<not> p x) xs \<and> mset zs = mset xs \<and> e \<le> length zs"
  proof (cases "?b = length xs")
    case True
    then show ?thesis
      using assms find_if_from_take [of p xs] by (auto simp: swap_remove_if_def)
  next
    case False
    then have lt: "?b < length xs" using find_if_from_le [of p xs] by simp
    then have "srm_inv p xs xs ?b (Suc ?b)"
      using find_if_from_hit [OF lt] find_if_from_take [of p xs]
      by (auto simp: srm_inv_def take_Suc_conv_app_nth less_Suc_eq)
    from swap_remove_loop_correct [OF this] show ?thesis
      using assms False by (simp add: swap_remove_if_def Let_def)
  qed
  then show "take e zs = filter (\<lambda>x. \<not> p x) xs" "mset zs = mset xs" "e \<le> length zs" by auto
qed

lemma swap_remove_if_eq_filter:
  "(let (zs, e) = swap_remove_if p xs in take e zs) = filter (\<lambda>x. \<not> p x) xs"
  using swap_remove_if_kept(1) by (cases "swap_remove_if p xs") simp

section \<open>Durations and floating point\<close>

text \<open>\<open>std::chrono::duration_cast\<close> to milliseconds truncates towards zero.\<close>

definition ns_of_ms :: "millis \<Rightarrow> nanos" where
  "ns_of_ms m = m * 1000000"

definition duration_cast_ms :: "nanos \<Rightarrow> millis" where
  "duration_cast_ms n = (if n \<ge> 0 then n div 1000000 else - ((- n) div 1000000))"

lemma duration_cast_ms_le: "0 \<le> n \<Longrightarrow> ns_of_ms (duration_cast_ms n) \<le> n"
  by (simp add: duration_cast_ms_def ns_of_ms_def)

text \<open>
  A \<open>timeval\<close> is a pair of seconds and microseconds; the conversions work on \<open>uint32_t\<close> and
  \<open>uint64_t\<close>.
\<close>

definition ms_to_timeval :: "u32 \<Rightarrow> int \<times> int" where
  "ms_to_timeval ms = (uint ms div 1000, (uint ms mod 1000) * 1000)"

definition timeval_to_ms :: "int \<times> int \<Rightarrow> u64" where
  "timeval_to_ms tv = word_of_int (fst tv) * 1000 + word_of_int (snd tv div 1000)"

text \<open>The delay that a timer armed with a duration really has: the cast to \<open>uint32_t\<close>.\<close>

definition timer_ms :: "millis \<Rightarrow> millis" where
  "timer_ms m = uint (word_of_int m :: u32)"

lemma timer_ms_id: "0 \<le> m \<Longrightarrow> m < 2 ^ 32 \<Longrightarrow> timer_ms m = m"
  by (simp add: timer_ms_def uint_word_of_int)

lemma timer_ms_bounds: "0 \<le> timer_ms m" "timer_ms m < 2 ^ 32"
  using uint_lt2p [of "word_of_int m :: u32"] by (simp_all add: timer_ms_def)

text \<open>Rounding to the nearest integer, ties to even.\<close>

definition round_half_even :: "rat \<Rightarrow> int" where
  "round_half_even x =
     (let lo = \<lfloor>x\<rfloor>; d = x - of_int lo
      in if d < 1 / 2 then lo else if d > 1 / 2 then lo + 1 else if even lo then lo else lo + 1)"

text \<open>
  The exponent of a positive rational: \<open>2 powi e \<le> x < 2 powi (e + 1)\<close>, by halving and doubling
  with fuel; 160 steps cover the normal range of single precision.
\<close>

fun log2_floor :: "nat \<Rightarrow> rat \<Rightarrow> int" where
  "log2_floor 0 x = 0"
| "log2_floor (Suc n) x =
     (if x \<ge> 2 then 1 + log2_floor n (x / 2) else if x < 1 then log2_floor n (x * 2) - 1 else 0)"

text \<open>
  The single precision value nearest to a non-negative rational in the normal range: 24 bits of
  significand, ties to even.
\<close>

definition pow2 :: "int \<Rightarrow> rat" where
  "pow2 e = (if e \<ge> 0 then 2 ^ nat e else 1 / 2 ^ nat (- e))"

definition to_float :: "rat \<Rightarrow> rat" where
  "to_float x =
     (if x \<le> 0 then 0
      else let ulp = pow2 (log2_floor 160 x - 23) in of_int (round_half_even (x / ulp)) * ulp)"

text \<open>
  \<open>std::chrono::round<Millis>(d * rate)\<close>: the count is converted to \<open>float\<close>, multiplied in
  \<open>float\<close>, and rounded to the nearest integer, ties to even.
\<close>

definition scale_millis :: "millis \<Rightarrow> rat \<Rightarrow> millis" where
  "scale_millis d rate = round_half_even (to_float (to_float (of_int d) * rate))"

end
