(* ===== verification/Vpn_State.thy ===== *)
theory Vpn_State
  imports Fsm Common_Utils
begin

text \<open>
  The data of the VPN session manager: the configuration types of \<^verbatim>\<open>core/include/vpn/vpn.h\<close>
  and \<^verbatim>\<open>net/include/net/utils.h\<close>, the \<open>Vpn\<close> object of \<^verbatim>\<open>core/src/vpn_manager.h\<close>, and
  its member functions (\<^verbatim>\<open>core/src/vpn_manager.cpp\<close>).

  A callback or a call into the endpoint client is an entry of the \<open>calls\<close> list of the object,
  newest first. A closure given to \<open>Vpn::submit\<close> is a value of the type \<open>Task\<close>. What the rest
  of the system answers during one step (the result of \<open>VpnClient::connect\<close>, the tunnel's
  opinion on a request, the accessors and the comparison of the socket address class) is the
  record \<open>Answers\<close>.
\<close>

section \<open>Enumerations and configuration\<close>

datatype VpnSessionState =
    VPN_SS_DISCONNECTED | VPN_SS_CONNECTING | VPN_SS_CONNECTED | VPN_SS_WAITING_RECOVERY
  | VPN_SS_RECOVERING | VPN_SS_WAITING_FOR_NETWORK

fun ss :: "VpnSessionState \<Rightarrow> FsmState" where
  "ss VPN_SS_DISCONNECTED = 0"
| "ss VPN_SS_CONNECTING = 1"
| "ss VPN_SS_CONNECTED = 2"
| "ss VPN_SS_WAITING_RECOVERY = 3"
| "ss VPN_SS_RECOVERING = 4"
| "ss VPN_SS_WAITING_FOR_NETWORK = 5"

datatype ConnectEvent =
    CE_DO_CONNECT | CE_RETRY_CONNECT | CE_PING_READY | CE_PING_FAIL | CE_CLIENT_READY
  | CE_CLIENT_DISCONNECTED | CE_DO_RECOVERY | CE_SHUTDOWN | CE_NETWORK_CHANGE
  | CE_START_LISTENING | CE_ABANDON_ENDPOINT | CE_COMPLETE_REQUEST

fun ce :: "ConnectEvent \<Rightarrow> FsmEvent" where
  "ce CE_DO_CONNECT = 0"
| "ce CE_RETRY_CONNECT = 1"
| "ce CE_PING_READY = 2"
| "ce CE_PING_FAIL = 3"
| "ce CE_CLIENT_READY = 4"
| "ce CE_CLIENT_DISCONNECTED = 5"
| "ce CE_DO_RECOVERY = 6"
| "ce CE_SHUTDOWN = 7"
| "ce CE_NETWORK_CHANGE = 8"
| "ce CE_START_LISTENING = 9"
| "ce CE_ABANDON_ENDPOINT = 10"
| "ce CE_COMPLETE_REQUEST = 11"

definition VPN_EC_NOERROR :: int where "VPN_EC_NOERROR = 0"
definition VPN_EC_ERROR :: int where "VPN_EC_ERROR = 1"
definition VPN_EC_INVALID_SETTINGS :: int where "VPN_EC_INVALID_SETTINGS = 2"
definition VPN_EC_ADDR_IN_USE :: int where "VPN_EC_ADDR_IN_USE = 3"
definition VPN_EC_INVALID_STATE :: int where "VPN_EC_INVALID_STATE = 4"
definition VPN_EC_AUTH_REQUIRED :: int where "VPN_EC_AUTH_REQUIRED = 5"
definition VPN_EC_LOCATION_UNAVAILABLE :: int where "VPN_EC_LOCATION_UNAVAILABLE = 6"
definition VPN_EC_CERTIFICATE_VERIFICATION_FAILED :: int where
  "VPN_EC_CERTIFICATE_VERIFICATION_FAILED = 7"
definition VPN_EC_EVENT_LOOP_FAILURE :: int where "VPN_EC_EVENT_LOOP_FAILURE = 8"
definition VPN_EC_INITIAL_CONNECT_FAILED :: int where "VPN_EC_INITIAL_CONNECT_FAILED = 9"
definition VPN_EC_FATAL_CONNECTIVITY_ERROR :: int where "VPN_EC_FATAL_CONNECTIVITY_ERROR = 10"

lemmas error_codes =
  VPN_EC_NOERROR_def VPN_EC_ERROR_def VPN_EC_INVALID_SETTINGS_def VPN_EC_ADDR_IN_USE_def
  VPN_EC_INVALID_STATE_def VPN_EC_AUTH_REQUIRED_def VPN_EC_LOCATION_UNAVAILABLE_def
  VPN_EC_CERTIFICATE_VERIFICATION_FAILED_def VPN_EC_EVENT_LOOP_FAILURE_def
  VPN_EC_INITIAL_CONNECT_FAILED_def VPN_EC_FATAL_CONNECTIVITY_ERROR_def

datatype VpnUpstreamProtocol = VPN_UP_HTTP2 | VPN_UP_HTTP3 | VPN_UP_AUTO

datatype VpnNetworkState = VPN_NS_CONNECTED | VPN_NS_NOT_CONNECTED

datatype VpnConnectAction =
  VPN_CA_DEFAULT | VPN_CA_FORCE_BYPASS | VPN_CA_FORCE_REDIRECT | VPN_CA_REJECT

datatype VpnMode = VPN_MODE_GENERAL | VPN_MODE_SELECTIVE

datatype VpnEvent =
    VPN_EVENT_PROTECT_SOCKET | VPN_EVENT_VERIFY_CERTIFICATE | VPN_EVENT_STATE_CHANGED
  | VPN_EVENT_CLIENT_OUTPUT | VPN_EVENT_CONNECT_REQUEST | VPN_EVENT_ENDPOINT_CONNECTION_STATS
  | VPN_EVENT_DNS_UPSTREAM_UNAVAILABLE | VPN_EVENT_TUNNEL_CONNECTION_STATS
  | VPN_EVENT_TUNNEL_CONNECTION_CLOSED | VPN_EVENT_CONNECTION_INFO

text \<open>A socket address as the C structure has it: the family and the other bytes.\<close>

record SocketAddressStorage =
  sa_family :: int
  sa_bytes :: bytes

record VpnEndpoint =
  ep_address :: SocketAddressStorage
  ep_name :: "string option"
  ep_remote_id :: "string option"
  ep_additional_data :: bytes
  ep_tls_client_random :: bytes
  ep_tls_client_random_mask :: bytes
  ep_has_ipv6 :: bool
  ep_preferred_protocol :: VpnUpstreamProtocol

record VpnRelay =
  rl_address :: SocketAddressStorage
  rl_additional_data :: bytes
  rl_tls_client_random :: bytes
  rl_tls_client_random_mask :: bytes

record VpnLocation =
  loc_id :: "string option"
  loc_endpoints :: "VpnEndpoint list"
  loc_relays :: "VpnRelay list"

record VpnUpstreamSessionRecoverySettings =
  backoff_rate :: rat
  location_update_period_ms :: u32
  max_attempts :: u32

record VpnUpstreamConfig =
  main_protocol :: VpnUpstreamProtocol
  http_connections_num :: u32
  location :: VpnLocation
  location_ping_timeout_ms :: u32
  timeout_ms :: u32
  health_check_timeout_ms :: u32
  username :: "string option"
  password :: "string option"
  recovery_settings :: VpnUpstreamSessionRecoverySettings
  anti_dpi :: bool

definition VPN_DEFAULT_ENDPOINT_UPSTREAM_TIMEOUT_MS :: u32 where
  "VPN_DEFAULT_ENDPOINT_UPSTREAM_TIMEOUT_MS = 30 * 1000"
definition VPN_DEFAULT_HEALTH_CHECK_TIMEOUT_MS :: u32 where
  "VPN_DEFAULT_HEALTH_CHECK_TIMEOUT_MS = 7000"
definition VPN_DEFAULT_RECOVERY_LOCATION_UPDATE_PERIOD_MS :: u32 where
  "VPN_DEFAULT_RECOVERY_LOCATION_UPDATE_PERIOD_MS = 10 * 1000"
definition VPN_DEFAULT_INITIAL_RECOVERY_INTERVAL_MS :: millis where
  "VPN_DEFAULT_INITIAL_RECOVERY_INTERVAL_MS = 0"
definition VPN_MIN_RECOVERY_FIRE_GAP_MS :: millis where
  "VPN_MIN_RECOVERY_FIRE_GAP_MS = 2000"
definition VPN_DEFAULT_CONNECT_ATTEMPTS_NUM :: u64 where
  "VPN_DEFAULT_CONNECT_ATTEMPTS_NUM = 5"
definition VPN_DEFAULT_POSTPONEMENT_WINDOW_MS :: u32 where
  "VPN_DEFAULT_POSTPONEMENT_WINDOW_MS = 3 * 1000"
definition VPN_DEFAULT_RECOVERY_ATTEMPTS :: u32 where
  "VPN_DEFAULT_RECOVERY_ATTEMPTS = 30"
definition DEFAULT_LOCATION_PING_TIMEOUT_MS :: u32 where
  "DEFAULT_LOCATION_PING_TIMEOUT_MS = 5 * 1000"
definition VPN_SKIP_VERIFICATION_FLAG :: int where
  "VPN_SKIP_VERIFICATION_FLAG = 100"

text \<open>The single precision value of the literal \<open>1.3f\<close>.\<close>

definition VPN_DEFAULT_RECOVERY_BACKOFF_RATE :: rat where
  "VPN_DEFAULT_RECOVERY_BACKOFF_RATE = 10905190 / 8388608"

section \<open>The session object\<close>

datatype ClientConnectionState = CLIS_DISCONNECTED | CLIS_CONNECTING | CLIS_CONNECTED

datatype ConnectRetryInfo = ConnectSeveralAttempts (attempts_left: u64) | ConnectFallIntoRecovery

record RecoveryTime =
  start_ts :: nanos
  attempt_start_ts :: nanos
  between_attempts :: millis
  to_next :: millis

text \<open>\<open>rec_task\<close> is the scheduled attempt: the time at which its timer is due.\<close>

record RecoveryInfo =
  rec_time :: RecoveryTime
  rec_attempts :: u32
  rec_task :: "nanos option"

record SelectedEndpoint =
  sel_endpoint :: VpnEndpoint
  sel_relay :: "VpnRelay option"

record ConnectRequestResult =
  req_id :: u64
  req_action :: "VpnConnectAction option"
  req_appname :: string
  req_uid :: int

record EndpointConnectionConfig =
  ec_protocol :: VpnUpstreamProtocol
  ec_connections_num :: u32
  ec_endpoint :: VpnEndpoint
  ec_verification_address :: SocketAddressStorage
  ec_timeout :: millis
  ec_health_check_timeout :: millis
  ec_username :: "string option"
  ec_password :: "string option"
  ec_ipv4 :: bool
  ec_ipv6 :: bool
  ec_anti_dpi :: bool

record LocationsPingerInfo =
  pi_timeout_ms :: u32
  pi_location :: VpnLocation
  pi_rounds :: nat
  pi_main_protocol :: VpnUpstreamProtocol
  pi_anti_dpi :: bool
  pi_handoff :: bool
  pi_quic_max_idle_timeout_ms :: u32
  pi_relay_parallel :: "VpnRelay option"

record LocationsPingerResult =
  pr_ping_ms :: int
  pr_endpoint :: VpnEndpoint
  pr_relay :: "VpnRelay option"
  pr_is_quic :: bool

record VpnStateChangedEvent =
  ev_location_id :: "string option"
  ev_state :: FsmState
  ev_error :: VpnError
  ev_time_to_next_ms :: u32
  ev_connected :: "SelectedEndpoint option"

text \<open>The calls that leave the session manager: to the application, the client and the pinger.\<close>

datatype Call =
    C_state_changed VpnStateChangedEvent
  | C_connection_stats VpnError
  | C_client_connect EndpointConnectionConfig "millis option"
  | C_client_disconnect
  | C_client_finalize
  | C_client_listen
  | C_update_parameters
  | C_health_check
  | C_finalize_action u64 "VpnConnectAction option"
  | C_complete_request u64 "VpnConnectAction option"
  | C_reject_request u64
  | C_reset_connection u64
  | C_reset_connections int
  | C_update_exclusions VpnMode string
  | C_network_change
  | C_update_bypass_ip
  | C_pinger_start LocationsPingerInfo
  | C_pinger_stop
  | C_forward VpnEvent
  | C_handle_sleep
  | C_handle_wake
  | C_sleep_completed
  | C_client_packets "bytes list"
  | C_stopped

text \<open>The closures given to \<open>Vpn::submit\<close>.\<close>

datatype Task =
    T_connect VpnUpstreamConfig ConnectRetryInfo
  | T_force_reconnect
  | T_force_disconnect bool
  | T_shutdown
  | T_attempts_exhausted
  | T_client_disconnected
  | T_retry_connect
  | T_listen_failed VpnError
  | T_listen
  | T_network_change VpnNetworkState
  | T_complete_request ConnectRequestResult
  | T_update_exclusions VpnMode string
  | T_reset_connections int
  | T_connection_stats
  | T_abandon_endpoint VpnEndpoint
  | T_sleep
  | T_sleep_completed
  | T_wake
  | T_client_packets "bytes list"

text \<open>
  \<open>PingerRunning\<close> has not reported yet; \<open>PingerReported\<close> is the pinger object that stays in
  place after its only result.
\<close>

datatype Pinger = PingerNone | PingerRunning | PingerReported

text \<open>
  \<open>clock\<close> is the steady clock, \<open>queue\<close> the task queue of the event loop, \<open>undefined_behaviour\<close>
  records a dereference of an empty optional or a failed assertion, \<open>executor_running\<close> that the
  executor thread is joinable, \<open>loop_alive\<close> that the event loop object exists.
\<close>

record Vpn =
  fsm :: Fsm
  pending_error :: "VpnError option"
  recovery :: RecoveryInfo
  last_recovery_fire_ts :: nanos
  upstream_config :: VpnUpstreamConfig
  selected_endpoint :: "SelectedEndpoint option"
  network_changed_before_recovery :: bool
  connected_once :: bool
  pinger :: Pinger
  ping_failure_induces_location_unavailable :: bool
  client_state :: ClientConnectionState
  kill_switch_on :: bool
  connect_retry_info :: ConnectRetryInfo
  bypassed_connection_ids :: "u64 list"
  postponed_requests :: "ConnectRequestResult list"
  postponement_window_timer :: "nanos option"
  clock :: nanos
  queue :: "Task list"
  calls :: "Call list"
  undefined_behaviour :: bool
  executor_running :: bool
  loop_alive :: bool

record Answers =
  connect_result :: VpnError
  listen_result :: VpnError
  has_quic_connector :: bool
  complete_immediately :: "u64 \<Rightarrow> bool"
  finalize_action :: "ConnectRequestResult \<Rightarrow> VpnConnectAction option"
  same_address :: "SocketAddressStorage \<Rightarrow> SocketAddressStorage \<Rightarrow> bool"
  addr_valid :: "SocketAddressStorage \<Rightarrow> bool"
  addr_is_ipv4 :: "SocketAddressStorage \<Rightarrow> bool"
  addr_is_ipv6 :: "SocketAddressStorage \<Rightarrow> bool"
  addr_port :: "SocketAddressStorage \<Rightarrow> nat"

definition recovery_time_init :: RecoveryTime where
  "recovery_time_init =
     \<lparr>start_ts = 0, attempt_start_ts = 0, between_attempts = VPN_DEFAULT_INITIAL_RECOVERY_INTERVAL_MS,
      to_next = 0\<rparr>"

definition recovery_init :: RecoveryInfo where
  "recovery_init = \<lparr>rec_time = recovery_time_init, rec_attempts = 0, rec_task = None\<rparr>"

text \<open>The zeroed configuration of a fresh object.\<close>

definition upstream_config_zero :: VpnUpstreamConfig where
  "upstream_config_zero =
     \<lparr>main_protocol = VPN_UP_HTTP2, http_connections_num = 0,
      location = \<lparr>loc_id = None, loc_endpoints = [], loc_relays = []\<rparr>,
      location_ping_timeout_ms = 0, timeout_ms = 0, health_check_timeout_ms = 0,
      username = None, password = None,
      recovery_settings = \<lparr>backoff_rate = 0, location_update_period_ms = 0, max_attempts = 0\<rparr>,
      anti_dpi = False\<rparr>"

definition Vpn_new :: "bool \<Rightarrow> nanos \<Rightarrow> Vpn" where
  "Vpn_new kill_switch t =
     \<lparr>fsm = \<lparr>m_current_state = ss VPN_SS_DISCONNECTED, m_recursive = False\<rparr>,
      pending_error = None, recovery = recovery_init, last_recovery_fire_ts = 0,
      upstream_config = upstream_config_zero, selected_endpoint = None,
      network_changed_before_recovery = False, connected_once = False,
      pinger = PingerNone, ping_failure_induces_location_unavailable = False,
      client_state = CLIS_DISCONNECTED, kill_switch_on = kill_switch,
      connect_retry_info = ConnectSeveralAttempts VPN_DEFAULT_CONNECT_ATTEMPTS_NUM,
      bypassed_connection_ids = [], postponed_requests = [], postponement_window_timer = None,
      clock = t, queue = [], calls = [], undefined_behaviour = False,
      executor_running = False, loop_alive = True\<rparr>"

section \<open>Member functions\<close>

definition emit :: "Call \<Rightarrow> Vpn \<Rightarrow> Vpn" where
  "emit c v = v\<lparr>calls := c # calls v\<rparr>"

definition submit :: "Task \<Rightarrow> Vpn \<Rightarrow> Vpn" where
  "submit t v = v\<lparr>queue := queue v @ [t]\<rparr>"

definition or_default :: "u32 \<Rightarrow> u32 \<Rightarrow> u32" where
  "or_default x d = (if x = 0 then d else x)"

definition update_recovery_settings ::
  "VpnUpstreamSessionRecoverySettings \<Rightarrow> VpnUpstreamSessionRecoverySettings" where
  "update_recovery_settings r =
     \<lparr>backoff_rate = (if backoff_rate r < 1 then VPN_DEFAULT_RECOVERY_BACKOFF_RATE else backoff_rate r),
      location_update_period_ms =
        or_default (location_update_period_ms r) VPN_DEFAULT_RECOVERY_LOCATION_UPDATE_PERIOD_MS,
      max_attempts = or_default (max_attempts r) VPN_DEFAULT_RECOVERY_ATTEMPTS\<rparr>"

definition update_upstream_config :: "VpnUpstreamConfig \<Rightarrow> VpnUpstreamConfig" where
  "update_upstream_config c =
     c\<lparr>location_ping_timeout_ms := or_default (location_ping_timeout_ms c) DEFAULT_LOCATION_PING_TIMEOUT_MS,
       timeout_ms := or_default (timeout_ms c) VPN_DEFAULT_ENDPOINT_UPSTREAM_TIMEOUT_MS,
       health_check_timeout_ms :=
         min (or_default (health_check_timeout_ms c) VPN_DEFAULT_HEALTH_CHECK_TIMEOUT_MS)
             (or_default (timeout_ms c) VPN_DEFAULT_ENDPOINT_UPSTREAM_TIMEOUT_MS),
       recovery_settings := update_recovery_settings (recovery_settings c)\<rparr>"

definition make_client_upstream_config ::
  "Answers \<Rightarrow> VpnUpstreamConfig \<Rightarrow> SelectedEndpoint \<Rightarrow> EndpointConnectionConfig" where
  "make_client_upstream_config a c sel =
     (let ep = sel_endpoint sel;
          verification_address = ep_address ep;
          ep = (case sel_relay sel of
                  None \<Rightarrow> ep
                | Some relay \<Rightarrow> ep\<lparr>ep_address := rl_address relay,
                                   ep_additional_data := rl_additional_data relay\<rparr>);
          chosen = (if main_protocol c = VPN_UP_AUTO
                    then if has_quic_connector a then VPN_UP_HTTP3 else VPN_UP_HTTP2
                    else main_protocol c);
          protocol = (if chosen = VPN_UP_HTTP3 then VPN_UP_HTTP3 else VPN_UP_HTTP2)
      in \<lparr>ec_protocol = protocol, ec_connections_num = http_connections_num c, ec_endpoint = ep,
          ec_verification_address = verification_address,
          ec_timeout = uint (timeout_ms c), ec_health_check_timeout = uint (health_check_timeout_ms c),
          ec_username = username c, ec_password = password c,
          ec_ipv4 = True, ec_ipv6 = ep_has_ipv6 ep, ec_anti_dpi = anti_dpi c\<rparr>)"

definition disconnect_client :: "Vpn \<Rightarrow> Vpn" where
  "disconnect_client v =
     (case client_state v of
        CLIS_DISCONNECTED \<Rightarrow> v
      | CLIS_CONNECTED \<Rightarrow> (emit C_client_disconnect v)\<lparr>client_state := CLIS_DISCONNECTED\<rparr>
      | CLIS_CONNECTING \<Rightarrow> (emit C_client_disconnect v)\<lparr>client_state := CLIS_DISCONNECTED\<rparr>)"

definition destroy_pinger :: "Vpn \<Rightarrow> Vpn" where
  "destroy_pinger v = (if pinger v \<noteq> PingerNone then (emit C_pinger_stop v)\<lparr>pinger := PingerNone\<rparr> else v)"

definition stop_pinging :: "Vpn \<Rightarrow> Vpn" where
  "stop_pinging v = (destroy_pinger v)\<lparr>ping_failure_induces_location_unavailable := False\<rparr>"

definition disconnect :: "Vpn \<Rightarrow> Vpn" where
  "disconnect v = disconnect_client (stop_pinging v)"

definition complete_postponed_requests :: "Vpn \<Rightarrow> Vpn" where
  "complete_postponed_requests v =
     (fold (\<lambda>r. emit (C_complete_request (req_id r) (req_action r))) (postponed_requests v) v)
       \<lparr>postponed_requests := []\<rparr>"

definition reset_bypassed_connections :: "Vpn \<Rightarrow> Vpn" where
  "reset_bypassed_connections v =
     (fold (\<lambda>i. emit (C_reset_connection i)) (bypassed_connection_ids v) v)
       \<lparr>bypassed_connection_ids := []\<rparr>"

text \<open>
  \<open>vpn_endpoint_equals\<close>: \<open>None\<close> is the call of \<open>strcmp\<close> with a null pointer.
\<close>

definition c_str_equals :: "string option \<Rightarrow> string option \<Rightarrow> bool option" where
  "c_str_equals x y =
     (case (x, y) of
        (None, None) \<Rightarrow> Some True
      | (Some a, Some b) \<Rightarrow> Some (a = b)
      | _ \<Rightarrow> None)"

definition vpn_endpoint_equals :: "Answers \<Rightarrow> VpnEndpoint \<Rightarrow> VpnEndpoint \<Rightarrow> bool option" where
  "vpn_endpoint_equals a lh rh =
     (if same_address a (ep_address lh) (ep_address rh) then
        do {
          n \<leftarrow> c_str_equals (ep_name lh) (ep_name rh);
          if n then c_str_equals (ep_remote_id lh) (ep_remote_id rh) else Some False
        }
      else Some False)"

end
