(* ===== verification/Vpn_Fsm.thy ===== *)
theory Vpn_Fsm
  imports Vpn_State
begin

text \<open>
  The session state machine of \<^verbatim>\<open>core/src/vpn_fsm.cpp\<close>: its conditions, its actions, the
  recovery timing and the transition table, in the order of the source. Every action has the
  type of a machine action: it takes the object and the event data and returns the object.
\<close>

section \<open>Event data\<close>

datatype EventData =
    NoData
  | ErrData VpnError
  | NetData VpnNetworkState
  | ListenData
  | ReqData ConnectRequestResult

text \<open>The casts of the \<open>void *\<close> argument.\<close>

fun as_error :: "EventData \<Rightarrow> VpnError option" where
  "as_error (ErrData e) = Some e"
| "as_error _ = None"

fun as_request :: "EventData \<Rightarrow> ConnectRequestResult" where
  "as_request (ReqData r) = r"
| "as_request _ = \<lparr>req_id = 0, req_action = None, req_appname = [], req_uid = 0\<rparr>"

definition error_value_or_none :: "VpnError option \<Rightarrow> VpnError" where
  "error_value_or_none e = (case e of None \<Rightarrow> no_error | Some e \<Rightarrow> e)"

section \<open>Recovery timing\<close>

text \<open>
  \<open>initiate_recovery\<close> in the order of its statements: the time since the last attempt started,
  the wait until the next one with the anti-thrash gap, the update of the timing (start, seed or
  backoff, reset once the location update period is over), and the function itself.
\<close>

definition recovery_elapsed :: "Vpn \<Rightarrow> millis" where
  "recovery_elapsed v =
     (if start_ts (rec_time (recovery v)) \<noteq> 0
      then max (duration_cast_ms (clock v - attempt_start_ts (rec_time (recovery v)))) 0
      else 0)"

definition time_to_next_attempt :: "Vpn \<Rightarrow> millis" where
  "time_to_next_attempt v =
     (let between = between_attempts (rec_time (recovery v));
          ttn = (if between \<ge> recovery_elapsed v then between - recovery_elapsed v else 0)
      in if last_recovery_fire_ts v \<noteq> 0 then
           let since_fire = max (duration_cast_ms (clock v - last_recovery_fire_ts v)) 0
           in if since_fire < VPN_MIN_RECOVERY_FIRE_GAP_MS
              then max ttn (VPN_MIN_RECOVERY_FIRE_GAP_MS - since_fire) else ttn
         else ttn)"

definition advance_recovery_time ::
  "VpnUpstreamSessionRecoverySettings \<Rightarrow> nanos \<Rightarrow> millis \<Rightarrow> RecoveryTime \<Rightarrow> RecoveryTime" where
  "advance_recovery_time settings now ttn t =
     (let start = (if start_ts t \<noteq> 0 then start_ts t else now);
          between = (if between_attempts t = 0 then 1000
                     else scale_millis (between_attempts t) (backoff_rate settings));
          next_attempt_ts = now + ns_of_ms ttn
      in if next_attempt_ts - start \<ge> ns_of_ms (uint (location_update_period_ms settings))
         then recovery_time_init\<lparr>to_next := ttn\<rparr>
         else t\<lparr>start_ts := start, between_attempts := between, to_next := ttn\<rparr>)"

definition initiate_recovery :: "Vpn \<Rightarrow> Vpn" where
  "initiate_recovery v =
     (if rec_attempts (recovery v) \<ge> max_attempts (recovery_settings (upstream_config v))
      then submit T_attempts_exhausted v
      else
        v\<lparr>postponement_window_timer :=
            (if start_ts (rec_time (recovery v)) \<noteq> 0 then postponement_window_timer v
             else Some (clock v + ns_of_ms (uint VPN_DEFAULT_POSTPONEMENT_WINDOW_MS))),
          recovery :=
            \<lparr>rec_time = advance_recovery_time (recovery_settings (upstream_config v)) (clock v)
                         (time_to_next_attempt v) (rec_time (recovery v)),
             rec_attempts = rec_attempts (recovery v) + 1,
             rec_task = Some (clock v + ns_of_ms (timer_ms (time_to_next_attempt v)))\<rparr>\<rparr>)"

section \<open>Conditions\<close>

definition is_fatal_error_code :: "int \<Rightarrow> bool" where
  "is_fatal_error_code c \<longleftrightarrow>
     c = VPN_EC_AUTH_REQUIRED \<or> c = VPN_EC_LOCATION_UNAVAILABLE \<or>
     c = VPN_EC_CERTIFICATE_VERIFICATION_FAILED"

definition need_to_ping_on_recovery :: "Vpn \<Rightarrow> EventData \<Rightarrow> bool" where
  "need_to_ping_on_recovery v d \<longleftrightarrow>
     (if selected_endpoint v = None then True
      else if network_changed_before_recovery v then True
      else clock v - start_ts (rec_time (recovery v)) \<ge>
             ns_of_ms (uint (location_update_period_ms (recovery_settings (upstream_config v)))))"

definition fall_into_recovery :: "Vpn \<Rightarrow> EventData \<Rightarrow> bool" where
  "fall_into_recovery v d \<longleftrightarrow> connect_retry_info v = ConnectFallIntoRecovery"

definition no_connect_attempts :: "Vpn \<Rightarrow> EventData \<Rightarrow> bool" where
  "no_connect_attempts v d =
     (case connect_retry_info v of
        ConnectSeveralAttempts n \<Rightarrow> n = 0
      | ConnectFallIntoRecovery \<Rightarrow> False)"

definition network_lost :: "Vpn \<Rightarrow> EventData \<Rightarrow> bool" where
  "network_lost v d \<longleftrightarrow> d = NetData VPN_NS_NOT_CONNECTED"

definition cond_connected_once :: "Vpn \<Rightarrow> EventData \<Rightarrow> bool" where
  "cond_connected_once v d = connected_once v"

definition is_fatal_error :: "Vpn \<Rightarrow> EventData \<Rightarrow> bool" where
  "is_fatal_error v d \<longleftrightarrow>
     (case as_error d of None \<Rightarrow> False | Some e \<Rightarrow> is_fatal_error_code (code e)) \<or>
     is_fatal_error_code (code (error_value_or_none (pending_error v)))"

definition session_in :: "VpnSessionState list \<Rightarrow> Vpn \<Rightarrow> bool" where
  "session_in ls v \<longleftrightarrow> m_current_state (fsm v) \<in> set (map ss ls)"

definition can_complete :: "Answers \<Rightarrow> Vpn \<Rightarrow> EventData \<Rightarrow> bool" where
  "can_complete a v d =
     (if req_action (as_request d) = Some VPN_CA_FORCE_BYPASS then True
      else session_in [VPN_SS_CONNECTED, VPN_SS_CONNECTING, VPN_SS_DISCONNECTED,
                       VPN_SS_WAITING_FOR_NETWORK] v \<or>
           complete_immediately a (req_id (as_request d)))"

definition is_kill_switch_on :: "Vpn \<Rightarrow> EventData \<Rightarrow> bool" where
  "is_kill_switch_on v d = kill_switch_on v"

definition should_postpone :: "Vpn \<Rightarrow> EventData \<Rightarrow> bool" where
  "should_postpone v d \<longleftrightarrow> postponement_window_timer v \<noteq> None"

section \<open>Actions\<close>

definition client_connect_result :: "VpnError \<Rightarrow> Vpn \<Rightarrow> Vpn" where
  "client_connect_result e v =
     (if code e = VPN_EC_NOERROR
      then v\<lparr>client_state := CLIS_CONNECTING, pending_error := None\<rparr>
      else submit T_client_disconnected (v\<lparr>pending_error := Some e\<rparr>))"

definition run_client_connect :: "Answers \<Rightarrow> millis option \<Rightarrow> Vpn \<Rightarrow> Vpn" where
  "run_client_connect a timeout v =
     (case selected_endpoint v of
        None \<Rightarrow> v\<lparr>undefined_behaviour := True\<rparr>
      | Some sel \<Rightarrow>
          client_connect_result (connect_result a)
            (emit (C_client_connect (make_client_upstream_config a (upstream_config v) sel) timeout) v))"

definition pinger_info :: "Vpn \<Rightarrow> LocationsPingerInfo" where
  "pinger_info v =
     (let c = upstream_config v
      in \<lparr>pi_timeout_ms = location_ping_timeout_ms c, pi_location = location c, pi_rounds = 1,
          pi_main_protocol = main_protocol c, pi_anti_dpi = anti_dpi c,
          pi_handoff = (main_protocol c \<noteq> VPN_UP_HTTP2),
          pi_quic_max_idle_timeout_ms = 2 * (timeout_ms c + health_check_timeout_ms c),
          pi_relay_parallel =
            (case selected_endpoint v of
               None \<Rightarrow> None
             | Some sel \<Rightarrow> if start_ts (rec_time (recovery v)) \<noteq> 0 then sel_relay sel else None)\<rparr>)"

definition cancel_recovery_task :: "Vpn \<Rightarrow> Vpn" where
  "cancel_recovery_task v =
     (if rec_task (recovery v) \<noteq> None
      then v\<lparr>recovery := (recovery v)\<lparr>rec_task := None,
              rec_time := (rec_time (recovery v))\<lparr>attempt_start_ts := clock v\<rparr>\<rparr>\<rparr>
      else v)"

definition start_pinger :: "Vpn \<Rightarrow> Vpn" where
  "start_pinger v = (emit (C_pinger_start (pinger_info v)) v)\<lparr>pinger := PingerRunning\<rparr>"

definition run_ping :: "Vpn \<Rightarrow> EventData \<Rightarrow> Vpn" where
  "run_ping v d =
     cancel_recovery_task
       ((start_pinger (stop_pinging v))\<lparr>pending_error := None, selected_endpoint := None\<rparr>)"

definition connect_client :: "Answers \<Rightarrow> Vpn \<Rightarrow> EventData \<Rightarrow> Vpn" where
  "connect_client a v d = run_client_connect a None v"

definition has_error :: "EventData \<Rightarrow> bool" where
  "has_error d = (case as_error d of None \<Rightarrow> False | Some e \<Rightarrow> code e \<noteq> VPN_EC_NOERROR)"

text \<open>\<open>complete_connect\<close>, one definition per statement of its body.\<close>

definition fail_with_error :: "Vpn \<Rightarrow> EventData \<Rightarrow> Vpn" where
  "fail_with_error v d =
     (if pending_error v = None \<and> has_error d
      then (disconnect v)\<lparr>pending_error := as_error d\<rparr> else v)"

definition note_attempts_exceeded :: "Vpn \<Rightarrow> EventData \<Rightarrow> Vpn" where
  "note_attempts_exceeded v d =
     (if pending_error v \<noteq> None \<and> \<not> is_fatal_error v d \<and> no_connect_attempts v NoData
      then v\<lparr>pending_error := Some (mk_error VPN_EC_INITIAL_CONNECT_FAILED
               ''Number of connection attempts exceeded'')\<rparr> else v)"

definition check_health_if_ok :: "Vpn \<Rightarrow> Vpn" where
  "check_health_if_ok v = (if pending_error v = None then emit C_health_check v else v)"

definition complete_connect :: "Vpn \<Rightarrow> EventData \<Rightarrow> Vpn" where
  "complete_connect v d =
     check_health_if_ok ((note_attempts_exceeded (fail_with_error v d) d)\<lparr>recovery := recovery_init\<rparr>)"

definition fail_connect_with_no_attempts :: "Vpn \<Rightarrow> EventData \<Rightarrow> Vpn" where
  "fail_connect_with_no_attempts v d =
     complete_connect v (ErrData (mk_error VPN_EC_INITIAL_CONNECT_FAILED
       ''Number of connection attempts exceeded''))"

definition use_connect_attempt :: "Vpn \<Rightarrow> Vpn" where
  "use_connect_attempt v =
     (case connect_retry_info v of
        ConnectSeveralAttempts n \<Rightarrow> v\<lparr>connect_retry_info := ConnectSeveralAttempts (n - 1)\<rparr>
      | ConnectFallIntoRecovery \<Rightarrow> v\<lparr>undefined_behaviour := True\<rparr>)"

definition retry_connect :: "Vpn \<Rightarrow> EventData \<Rightarrow> Vpn" where
  "retry_connect v d = submit T_retry_connect (disconnect (use_connect_attempt v))"

definition note_error :: "Vpn \<Rightarrow> EventData \<Rightarrow> Vpn" where
  "note_error v d =
     (if pending_error v = None \<and> has_error d then v\<lparr>pending_error := as_error d\<rparr> else v)"

definition prepare_for_recovery :: "Vpn \<Rightarrow> EventData \<Rightarrow> Vpn" where
  "prepare_for_recovery v d = initiate_recovery (disconnect (note_error v d))"

definition prepare_for_recovery_nc :: "Vpn \<Rightarrow> EventData \<Rightarrow> Vpn" where
  "prepare_for_recovery_nc v d = prepare_for_recovery v NoData"

definition recovery_connect_timeout :: "Vpn \<Rightarrow> millis" where
  "recovery_connect_timeout v =
     min (between_attempts (rec_time (recovery v))) (uint (timeout_ms (upstream_config v)))"

definition reconnect_client :: "Answers \<Rightarrow> Vpn \<Rightarrow> EventData \<Rightarrow> Vpn" where
  "reconnect_client a v d =
     run_client_connect a (Some (recovery_connect_timeout (disconnect_client v))) (disconnect_client v)"

definition finalize_recovery :: "Vpn \<Rightarrow> EventData \<Rightarrow> Vpn" where
  "finalize_recovery v d =
     reset_bypassed_connections (complete_postponed_requests
       ((stop_pinging ((emit C_update_bypass_ip v)\<lparr>recovery := recovery_init\<rparr>))
          \<lparr>postponement_window_timer := None\<rparr>))"

definition do_disconnect :: "Vpn \<Rightarrow> EventData \<Rightarrow> Vpn" where
  "do_disconnect v d = disconnect (v\<lparr>recovery := recovery_init\<rparr>)"

definition listen_outcome :: "VpnError \<Rightarrow> Vpn \<Rightarrow> Vpn" where
  "listen_outcome e v = (if code e \<noteq> VPN_EC_NOERROR then submit (T_listen_failed e) v else v)"

definition start_listening :: "Answers \<Rightarrow> Vpn \<Rightarrow> EventData \<Rightarrow> Vpn" where
  "start_listening a v d = listen_outcome (listen_result a) (emit C_client_listen v)"

definition on_wrong_connect_state :: "Vpn \<Rightarrow> EventData \<Rightarrow> Vpn" where
  "on_wrong_connect_state v d =
     (disconnect v)\<lparr>pending_error :=
        Some (mk_error VPN_EC_INVALID_STATE ''Invalid state for connecting'')\<rparr>"

definition on_wrong_listen_state :: "Vpn \<Rightarrow> EventData \<Rightarrow> Vpn" where
  "on_wrong_listen_state v d = v"

text \<open>
  \<open>raise_state\<close>; in the connected state an empty \<open>selected_endpoint\<close> is dereferenced.
\<close>

definition state_event :: "Vpn \<Rightarrow> VpnStateChangedEvent" where
  "state_event v =
     \<lparr>ev_location_id = loc_id (location (upstream_config v)), ev_state = m_current_state (fsm v),
      ev_error = no_error, ev_time_to_next_ms = 0, ev_connected = None\<rparr>"

definition raise_state :: "Vpn \<Rightarrow> EventData \<Rightarrow> Vpn" where
  "raise_state v d =
     (let e = state_event v;
          error = error_value_or_none (pending_error v)
      in if session_in [VPN_SS_WAITING_RECOVERY] v then
           emit (C_state_changed (e\<lparr>ev_error := error,
                  ev_time_to_next_ms := word_of_int (to_next (rec_time (recovery v)))\<rparr>))
             (v\<lparr>pending_error := None\<rparr>)
         else if session_in [VPN_SS_CONNECTED] v then
           emit (C_state_changed (e\<lparr>ev_connected := selected_endpoint v\<rparr>))
             (v\<lparr>connected_once := True,
                undefined_behaviour := undefined_behaviour v \<or> selected_endpoint v = None\<rparr>)
         else if session_in [VPN_SS_DISCONNECTED, VPN_SS_CONNECTING, VPN_SS_RECOVERING] v then
           emit (C_state_changed (e\<lparr>ev_error := error\<rparr>))
             (v\<lparr>network_changed_before_recovery := False, pending_error := None\<rparr>)
         else if session_in [VPN_SS_WAITING_FOR_NETWORK] v then
           emit (C_state_changed (e\<lparr>ev_error := error\<rparr>)) (v\<lparr>pending_error := None\<rparr>)
         else emit (C_state_changed e) v)"

definition complete_request :: "Vpn \<Rightarrow> EventData \<Rightarrow> Vpn" where
  "complete_request v d = emit (C_complete_request (req_id (as_request d)) (req_action (as_request d))) v"

definition reject_request :: "Vpn \<Rightarrow> EventData \<Rightarrow> Vpn" where
  "reject_request v d = emit (C_reject_request (req_id (as_request d))) v"

definition bypass_until_connected :: "Vpn \<Rightarrow> EventData \<Rightarrow> Vpn" where
  "bypass_until_connected v d =
     emit (C_complete_request (req_id (as_request d)) (Some VPN_CA_FORCE_BYPASS))
       (v\<lparr>bypassed_connection_ids := bypassed_connection_ids v @ [req_id (as_request d)]\<rparr>)"

definition postpone_request :: "Vpn \<Rightarrow> EventData \<Rightarrow> Vpn" where
  "postpone_request v d = v\<lparr>postponed_requests := postponed_requests v @ [as_request d]\<rparr>"

text \<open>The timer callback that ends the postponement window.\<close>

definition expire_request :: "ConnectRequestResult \<Rightarrow> Vpn \<Rightarrow> Vpn" where
  "expire_request r v =
     (if kill_switch_on v then emit (C_reject_request (req_id r)) v
      else (emit (C_complete_request (req_id r) (Some VPN_CA_FORCE_BYPASS)) v)
             \<lparr>bypassed_connection_ids := bypassed_connection_ids v @ [req_id r]\<rparr>)"

definition postponement_window_timer_cb :: "Vpn \<Rightarrow> Vpn" where
  "postponement_window_timer_cb v =
     (let v = v\<lparr>postponement_window_timer := None\<rparr>
      in (fold expire_request (postponed_requests v) v)\<lparr>postponed_requests := []\<rparr>)"

section \<open>The transition table\<close>

definition TRANSITION_TABLE :: "Answers \<Rightarrow> (Vpn, EventData) FsmTransitionTable" where
  "TRANSITION_TABLE a =
   [entry (ss VPN_SS_DISCONNECTED) (ce CE_DO_CONNECT) None (Some run_ping) (ss VPN_SS_CONNECTING) (Some raise_state),
    entry (ss VPN_SS_DISCONNECTED) (ce CE_CLIENT_DISCONNECTED) None None SAME_TARGET_STATE None,
    entry (ss VPN_SS_DISCONNECTED) (ce CE_SHUTDOWN) None (Some do_disconnect) SAME_TARGET_STATE None,
    entry (ss VPN_SS_DISCONNECTED) (ce CE_START_LISTENING) None (Some on_wrong_listen_state) SAME_TARGET_STATE None,
    entry (ss VPN_SS_DISCONNECTED) (ce CE_NETWORK_CHANGE) None None SAME_TARGET_STATE None,

    entry (ss VPN_SS_CONNECTING) (ce CE_RETRY_CONNECT) None (Some run_ping) SAME_TARGET_STATE None,
    entry (ss VPN_SS_CONNECTING) (ce CE_PING_READY) None (Some (connect_client a)) SAME_TARGET_STATE None,
    entry (ss VPN_SS_CONNECTING) (ce CE_PING_FAIL) (Some is_fatal_error) (Some complete_connect) (ss VPN_SS_DISCONNECTED) (Some raise_state),
    entry (ss VPN_SS_CONNECTING) (ce CE_PING_FAIL) (Some fall_into_recovery) (Some prepare_for_recovery) (ss VPN_SS_WAITING_RECOVERY) (Some raise_state),
    entry (ss VPN_SS_CONNECTING) (ce CE_PING_FAIL) (Some no_connect_attempts) (Some complete_connect) (ss VPN_SS_DISCONNECTED) (Some raise_state),
    entry (ss VPN_SS_CONNECTING) (ce CE_PING_FAIL) None (Some retry_connect) SAME_TARGET_STATE None,
    entry (ss VPN_SS_CONNECTING) (ce CE_CLIENT_READY) None (Some complete_connect) (ss VPN_SS_CONNECTED) (Some raise_state),
    entry (ss VPN_SS_CONNECTING) (ce CE_CLIENT_DISCONNECTED) (Some is_fatal_error) (Some complete_connect) (ss VPN_SS_DISCONNECTED) (Some raise_state),
    entry (ss VPN_SS_CONNECTING) (ce CE_CLIENT_DISCONNECTED) (Some fall_into_recovery) (Some prepare_for_recovery) (ss VPN_SS_WAITING_RECOVERY) (Some raise_state),
    entry (ss VPN_SS_CONNECTING) (ce CE_CLIENT_DISCONNECTED) (Some no_connect_attempts) (Some complete_connect) (ss VPN_SS_DISCONNECTED) (Some raise_state),
    entry (ss VPN_SS_CONNECTING) (ce CE_CLIENT_DISCONNECTED) None (Some retry_connect) SAME_TARGET_STATE None,
    entry (ss VPN_SS_CONNECTING) (ce CE_ABANDON_ENDPOINT) (Some is_fatal_error) (Some complete_connect) (ss VPN_SS_DISCONNECTED) (Some raise_state),
    entry (ss VPN_SS_CONNECTING) (ce CE_ABANDON_ENDPOINT) None (Some retry_connect) SAME_TARGET_STATE None,
    entry (ss VPN_SS_CONNECTING) (ce CE_NETWORK_CHANGE) (Some no_connect_attempts) (Some fail_connect_with_no_attempts) (ss VPN_SS_DISCONNECTED) (Some raise_state),
    entry (ss VPN_SS_CONNECTING) (ce CE_NETWORK_CHANGE) (Some network_lost) (Some do_disconnect) (ss VPN_SS_WAITING_FOR_NETWORK) (Some raise_state),
    entry (ss VPN_SS_CONNECTING) (ce CE_NETWORK_CHANGE) None None SAME_TARGET_STATE None,

    entry (ss VPN_SS_CONNECTED) (ce CE_NETWORK_CHANGE) (Some network_lost) (Some do_disconnect) (ss VPN_SS_WAITING_FOR_NETWORK) (Some raise_state),
    entry (ss VPN_SS_CONNECTED) (ce CE_NETWORK_CHANGE) None (Some prepare_for_recovery_nc) (ss VPN_SS_WAITING_RECOVERY) (Some raise_state),
    entry (ss VPN_SS_CONNECTED) (ce CE_ABANDON_ENDPOINT) (Some is_fatal_error) (Some do_disconnect) (ss VPN_SS_DISCONNECTED) (Some raise_state),
    entry (ss VPN_SS_CONNECTED) (ce CE_ABANDON_ENDPOINT) None (Some prepare_for_recovery) (ss VPN_SS_WAITING_RECOVERY) (Some raise_state),

    entry (ss VPN_SS_WAITING_RECOVERY) (ce CE_NETWORK_CHANGE) (Some network_lost) (Some do_disconnect) (ss VPN_SS_WAITING_FOR_NETWORK) (Some raise_state),
    entry (ss VPN_SS_WAITING_RECOVERY) (ce CE_NETWORK_CHANGE) None (Some run_ping) (ss VPN_SS_RECOVERING) (Some raise_state),
    entry (ss VPN_SS_WAITING_RECOVERY) (ce CE_DO_RECOVERY) (Some need_to_ping_on_recovery) (Some run_ping) (ss VPN_SS_RECOVERING) (Some raise_state),
    entry (ss VPN_SS_WAITING_RECOVERY) (ce CE_DO_RECOVERY) None (Some (connect_client a)) (ss VPN_SS_RECOVERING) (Some raise_state),
    entry (ss VPN_SS_WAITING_RECOVERY) (ce CE_CLIENT_DISCONNECTED) (Some is_fatal_error) (Some do_disconnect) (ss VPN_SS_DISCONNECTED) (Some raise_state),
    entry (ss VPN_SS_WAITING_RECOVERY) (ce CE_CLIENT_DISCONNECTED) None None SAME_TARGET_STATE None,
    entry (ss VPN_SS_WAITING_RECOVERY) (ce CE_ABANDON_ENDPOINT) (Some is_fatal_error) (Some do_disconnect) (ss VPN_SS_DISCONNECTED) (Some raise_state),

    entry (ss VPN_SS_RECOVERING) (ce CE_NETWORK_CHANGE) (Some network_lost) (Some do_disconnect) (ss VPN_SS_WAITING_FOR_NETWORK) (Some raise_state),
    entry (ss VPN_SS_RECOVERING) (ce CE_NETWORK_CHANGE) None None SAME_TARGET_STATE None,
    entry (ss VPN_SS_RECOVERING) (ce CE_PING_READY) None (Some (reconnect_client a)) SAME_TARGET_STATE None,
    entry (ss VPN_SS_RECOVERING) (ce CE_PING_FAIL) (Some is_fatal_error) (Some do_disconnect) (ss VPN_SS_DISCONNECTED) (Some raise_state),
    entry (ss VPN_SS_RECOVERING) (ce CE_PING_FAIL) None (Some prepare_for_recovery) (ss VPN_SS_WAITING_RECOVERY) (Some raise_state),
    entry (ss VPN_SS_RECOVERING) (ce CE_CLIENT_READY) None (Some finalize_recovery) (ss VPN_SS_CONNECTED) (Some raise_state),
    entry (ss VPN_SS_RECOVERING) (ce CE_ABANDON_ENDPOINT) (Some is_fatal_error) (Some do_disconnect) (ss VPN_SS_DISCONNECTED) (Some raise_state),
    entry (ss VPN_SS_RECOVERING) (ce CE_ABANDON_ENDPOINT) None (Some prepare_for_recovery) (ss VPN_SS_WAITING_RECOVERY) (Some raise_state),

    entry (ss VPN_SS_WAITING_FOR_NETWORK) (ce CE_NETWORK_CHANGE) (Some network_lost) None SAME_TARGET_STATE None,
    entry (ss VPN_SS_WAITING_FOR_NETWORK) (ce CE_NETWORK_CHANGE) (Some cond_connected_once) (Some prepare_for_recovery_nc) (ss VPN_SS_WAITING_RECOVERY) (Some raise_state),
    entry (ss VPN_SS_WAITING_FOR_NETWORK) (ce CE_NETWORK_CHANGE) (Some no_connect_attempts) (Some fail_connect_with_no_attempts) (ss VPN_SS_DISCONNECTED) (Some raise_state),
    entry (ss VPN_SS_WAITING_FOR_NETWORK) (ce CE_NETWORK_CHANGE) None (Some retry_connect) (ss VPN_SS_CONNECTING) (Some raise_state),

    entry ANY_SOURCE_STATE (ce CE_CLIENT_DISCONNECTED) (Some is_fatal_error) (Some do_disconnect) (ss VPN_SS_DISCONNECTED) (Some raise_state),
    entry ANY_SOURCE_STATE (ce CE_CLIENT_DISCONNECTED) None (Some prepare_for_recovery) (ss VPN_SS_WAITING_RECOVERY) (Some raise_state),
    entry ANY_SOURCE_STATE (ce CE_SHUTDOWN) None (Some do_disconnect) (ss VPN_SS_DISCONNECTED) (Some raise_state),
    entry ANY_SOURCE_STATE (ce CE_DO_CONNECT) None (Some on_wrong_connect_state) (ss VPN_SS_DISCONNECTED) (Some raise_state),
    entry ANY_SOURCE_STATE (ce CE_START_LISTENING) None (Some (start_listening a)) SAME_TARGET_STATE None,

    entry ANY_SOURCE_STATE (ce CE_COMPLETE_REQUEST) (Some (can_complete a)) (Some complete_request) SAME_TARGET_STATE None,
    entry ANY_SOURCE_STATE (ce CE_COMPLETE_REQUEST) (Some should_postpone) (Some postpone_request) SAME_TARGET_STATE None,
    entry ANY_SOURCE_STATE (ce CE_COMPLETE_REQUEST) (Some is_kill_switch_on) (Some reject_request) SAME_TARGET_STATE None,
    entry ANY_SOURCE_STATE (ce CE_COMPLETE_REQUEST) None (Some bypass_until_connected) SAME_TARGET_STATE None]"

text \<open>\<open>vpn->fsm.perform_transition(event, data)\<close>.\<close>

definition perform :: "Answers \<Rightarrow> ConnectEvent \<Rightarrow> EventData \<Rightarrow> Vpn \<Rightarrow> Vpn" where
  "perform a ev d v = perform_transition fsm fsm_update (TRANSITION_TABLE a) (ce ev) d v"

end
