(* ===== verification/Vpn_Dispatch.thy ===== *)
theory Vpn_Dispatch
  imports Vpn_Fsm
begin

text \<open>
  How the engine runs the session table: the object hosts the machine (\<open>fsm_host\<close>), every
  before-action works independently of the machine, and each event of each state has the
  effect that its rows say. The equations \<open>on_*\<close> are what the properties of the session rest
  on.
\<close>

lemma fsm_update_keep: "f (fsm v) = fsm v \<Longrightarrow> fsm_update f v = v"
  by (cases v) simp

interpretation vf: fsm_host fsm fsm_update
  by unfold_locales (simp_all add: comp_def fsm_update_keep)

abbreviation vs :: "Vpn \<Rightarrow> FsmState" where
  "vs v \<equiv> m_current_state (fsm v)"

abbreviation idle :: "Vpn \<Rightarrow> bool" where
  "idle v \<equiv> \<not> m_recursive (fsm v)"

section \<open>Actions and the machine\<close>

definition independent :: "(Vpn \<Rightarrow> EventData \<Rightarrow> Vpn) option \<Rightarrow> bool" where
  "independent act \<longleftrightarrow>
     (\<forall>g d v. run_action act d (fsm_update g v) = fsm_update g (run_action act d v))"

definition blind :: "(Vpn \<Rightarrow> EventData \<Rightarrow> bool) option \<Rightarrow> bool" where
  "blind c \<longleftrightarrow>
     (\<forall>b d v. (case c of None \<Rightarrow> True | Some p \<Rightarrow> p (fsm_update (m_recursive_update b) v) d) =
              (case c of None \<Rightarrow> True | Some p \<Rightarrow> p v d))"

lemma fold_emit_calls:
  "fold (\<lambda>x. emit (h x)) xs v = v\<lparr>calls := rev (map h xs) @ calls v\<rparr>"
  by (induction xs arbitrary: v) (simp_all add: emit_def)

lemma complete_postponed_requests_eq:
  "complete_postponed_requests v =
     v\<lparr>calls := rev (map (\<lambda>r. C_complete_request (req_id r) (req_action r)) (postponed_requests v)) @ calls v,
       postponed_requests := []\<rparr>"
  by (simp add: complete_postponed_requests_def fold_emit_calls)

lemma reset_bypassed_connections_eq:
  "reset_bypassed_connections v =
     v\<lparr>calls := rev (map C_reset_connection (bypassed_connection_ids v)) @ calls v,
       bypassed_connection_ids := []\<rparr>"
  by (simp add: reset_bypassed_connections_def fold_emit_calls)

named_theorems fsm_comm "an operation of the object commutes with an update of the machine"

lemma emit_comm [fsm_comm]: "emit c (fsm_update g v) = fsm_update g (emit c v)"
  by (simp add: emit_def)

lemma submit_comm [fsm_comm]: "submit t (fsm_update g v) = fsm_update g (submit t v)"
  by (simp add: submit_def)

lemma postponed_comm [fsm_comm]:
  "complete_postponed_requests (fsm_update g v) = fsm_update g (complete_postponed_requests v)"
  by (simp add: complete_postponed_requests_eq)

lemma bypassed_comm [fsm_comm]:
  "reset_bypassed_connections (fsm_update g v) = fsm_update g (reset_bypassed_connections v)"
  by (simp add: reset_bypassed_connections_eq)

lemma stop_pinging_comm [fsm_comm]: "stop_pinging (fsm_update g v) = fsm_update g (stop_pinging v)"
  by (simp add: stop_pinging_def destroy_pinger_def emit_def)

lemma disconnect_client_comm [fsm_comm]:
  "disconnect_client (fsm_update g v) = fsm_update g (disconnect_client v)"
  by (cases "client_state v") (simp_all add: disconnect_client_def emit_def)

lemma disconnect_comm [fsm_comm]: "disconnect (fsm_update g v) = fsm_update g (disconnect v)"
  by (simp add: disconnect_def fsm_comm)

lemma time_to_next_attempt_comm [fsm_comm]: "time_to_next_attempt (fsm_update g v) = time_to_next_attempt v"
  by (simp add: time_to_next_attempt_def recovery_elapsed_def Let_def)

lemma initiate_recovery_comm [fsm_comm]:
  "initiate_recovery (fsm_update g v) = fsm_update g (initiate_recovery v)"
  by (simp add: initiate_recovery_def fsm_comm)

lemma run_client_connect_comm [fsm_comm]:
  "run_client_connect a t (fsm_update g v) = fsm_update g (run_client_connect a t v)"
  by (cases "selected_endpoint v")
    (simp_all add: run_client_connect_def client_connect_result_def emit_def submit_def)

lemma condition_comm [fsm_comm]:
  "is_fatal_error (fsm_update g v) d = is_fatal_error v d"
  "no_connect_attempts (fsm_update g v) d = no_connect_attempts v d"
  by (simp_all add: is_fatal_error_def no_connect_attempts_def)

lemma fail_with_error_comm [fsm_comm]:
  "fail_with_error (fsm_update g v) d = fsm_update g (fail_with_error v d)"
  by (simp add: fail_with_error_def fsm_comm)

lemma note_attempts_exceeded_comm [fsm_comm]:
  "note_attempts_exceeded (fsm_update g v) d = fsm_update g (note_attempts_exceeded v d)"
  by (simp add: note_attempts_exceeded_def fsm_comm)

lemma recovery_reset_comm [fsm_comm]:
  "(fsm_update g v)\<lparr>recovery := r\<rparr> = fsm_update g (v\<lparr>recovery := r\<rparr>)"
  by simp

lemma complete_connect_comm [fsm_comm]:
  "complete_connect (fsm_update g v) d = fsm_update g (complete_connect v d)"
  by (simp add: complete_connect_def check_health_if_ok_def fsm_comm)

lemma use_connect_attempt_comm [fsm_comm]:
  "use_connect_attempt (fsm_update g v) = fsm_update g (use_connect_attempt v)"
  by (cases "connect_retry_info v") (simp_all add: use_connect_attempt_def)

lemma note_error_comm [fsm_comm]: "note_error (fsm_update g v) d = fsm_update g (note_error v d)"
  by (simp add: note_error_def)

lemma cancel_recovery_task_comm [fsm_comm]:
  "cancel_recovery_task (fsm_update g v) = fsm_update g (cancel_recovery_task v)"
  by (simp add: cancel_recovery_task_def)

lemma start_pinger_comm [fsm_comm]: "start_pinger (fsm_update g v) = fsm_update g (start_pinger v)"
proof -
  have "pinger_info (fsm_update g v) = pinger_info v"
    by (cases "selected_endpoint v") (simp_all add: pinger_info_def Let_def)
  then show ?thesis by (simp add: start_pinger_def emit_def)
qed

lemma listen_outcome_comm [fsm_comm]:
  "listen_outcome e (fsm_update g v) = fsm_update g (listen_outcome e v)"
  by (simp add: listen_outcome_def fsm_comm)

lemma run_ping_comm [fsm_comm]: "run_ping (fsm_update g v) d = fsm_update g (run_ping v d)"
proof -
  have "(fsm_update g w)\<lparr>pending_error := None, selected_endpoint := None\<rparr> =
      fsm_update g (w\<lparr>pending_error := None, selected_endpoint := None\<rparr>)" for w by simp
  note reset_comm = this
  show ?thesis by (simp only: run_ping_def fsm_comm reset_comm)
qed

lemma independent_None [simp]: "independent None"
  by (simp add: independent_def run_action_def)

lemma independent_Some: "independent (Some f) \<longleftrightarrow> (\<forall>g d v. f (fsm_update g v) d = fsm_update g (f v d))"
  by (simp add: independent_def run_action_def)

lemma finalize_recovery_comm [fsm_comm]:
  "finalize_recovery (fsm_update g v) d = fsm_update g (finalize_recovery v d)"
proof -
  have "(fsm_update g w)\<lparr>postponement_window_timer := None\<rparr> =
      fsm_update g (w\<lparr>postponement_window_timer := None\<rparr>)" for w by simp
  note timer_comm = this
  show ?thesis by (simp only: finalize_recovery_def fsm_comm timer_comm)
qed

lemma reconnect_client_comm [fsm_comm]:
  "reconnect_client a (fsm_update g v) d = fsm_update g (reconnect_client a v d)"
proof -
  have "recovery_connect_timeout (fsm_update g w) = recovery_connect_timeout w" for w
    by (simp add: recovery_connect_timeout_def)
  note timeout_comm = this
  show ?thesis by (simp only: reconnect_client_def fsm_comm timeout_comm)
qed

lemma on_wrong_connect_state_comm [fsm_comm]:
  "on_wrong_connect_state (fsm_update g v) d = fsm_update g (on_wrong_connect_state v d)"
  by (simp add: on_wrong_connect_state_def fsm_comm)

lemma independent_actions:
  "independent (Some run_ping)" "independent (Some (connect_client a))"
  "independent (Some complete_connect)" "independent (Some fail_connect_with_no_attempts)"
  "independent (Some retry_connect)" "independent (Some prepare_for_recovery)"
  "independent (Some prepare_for_recovery_nc)" "independent (Some (reconnect_client a))"
  "independent (Some finalize_recovery)" "independent (Some do_disconnect)"
  "independent (Some (start_listening a))" "independent (Some on_wrong_connect_state)"
  "independent (Some on_wrong_listen_state)"
  unfolding independent_Some connect_client_def fail_connect_with_no_attempts_def retry_connect_def
    prepare_for_recovery_def prepare_for_recovery_nc_def do_disconnect_def start_listening_def
    on_wrong_listen_state_def
  by (simp_all only: fsm_comm simp_thms)

lemma independent_request_actions:
  "independent (Some complete_request)" "independent (Some postpone_request)"
  "independent (Some reject_request)" "independent (Some bypass_until_connected)"
  by (simp_all add: independent_Some complete_request_def postpone_request_def
      reject_request_def bypass_until_connected_def emit_def)

lemma blind_conditions:
  "blind None" "blind (Some is_fatal_error)" "blind (Some fall_into_recovery)"
  "blind (Some no_connect_attempts)" "blind (Some network_lost)" "blind (Some cond_connected_once)"
  "blind (Some need_to_ping_on_recovery)" "blind (Some (can_complete a))"
  "blind (Some should_postpone)" "blind (Some is_kill_switch_on)"
  by (simp_all add: blind_def is_fatal_error_def fall_into_recovery_def no_connect_attempts_def
      network_lost_def cond_connected_once_def need_to_ping_on_recovery_def can_complete_def
      session_in_def should_postpone_def is_kill_switch_on_def)

section \<open>The effect of a row\<close>

text \<open>Run the before-action, enter the new state and raise it.\<close>

definition enter :: "VpnSessionState \<Rightarrow> (Vpn \<Rightarrow> EventData \<Rightarrow> Vpn) \<Rightarrow> EventData \<Rightarrow> Vpn \<Rightarrow> Vpn" where
  "enter s act d v = raise_state (fsm_update (\<lambda>_. \<lparr>m_current_state = ss s, m_recursive = False\<rparr>) (act v d)) d"

lemma fsm_raise_state [simp]: "fsm (raise_state v d) = fsm v"
  by (simp add: raise_state_def emit_def Let_def)

lemma fsm_enter [simp]: "fsm (enter s act d v) = \<lparr>m_current_state = ss s, m_recursive = False\<rparr>"
  by (simp add: enter_def)

definition good_row :: "(Vpn, EventData) FsmTransitionEntry \<Rightarrow> bool" where
  "good_row e \<longleftrightarrow>
     independent (before_transition e) \<and> blind (condition e) \<and>
     (if target_state e = SAME_TARGET_STATE then after_transition e = None
      else before_transition e \<noteq> None \<and> after_transition e = Some raise_state \<and>
           (\<exists>s. target_state e = ss s))"

definition row_effect :: "(Vpn, EventData) FsmTransitionEntry \<Rightarrow> EventData \<Rightarrow> Vpn \<Rightarrow> Vpn" where
  "row_effect e d v =
     (if target_state e = SAME_TARGET_STATE then run_action (before_transition e) d v
      else raise_state (fsm_update (\<lambda>_. \<lparr>m_current_state = target_state e, m_recursive = False\<rparr>)
             (run_action (before_transition e) d v)) d)"

definition row_applies :: "(Vpn, EventData) FsmTransitionEntry \<Rightarrow> FsmEvent \<Rightarrow> EventData \<Rightarrow> Vpn \<Rightarrow> bool" where
  "row_applies e ev d v \<longleftrightarrow>
     (src_state e = ANY_SOURCE_STATE \<or> src_state e = vs v) \<and> event e = ev \<and>
     (case condition e of None \<Rightarrow> True | Some p \<Rightarrow> p v d)"

lemma ss_not_same [simp]: "ss s \<noteq> SAME_TARGET_STATE" "SAME_TARGET_STATE \<noteq> ss s"
  "ss s \<noteq> ANY_SOURCE_STATE" "ANY_SOURCE_STATE \<noteq> ss s"
  by (cases s; simp add: SAME_TARGET_STATE_def ANY_SOURCE_STATE_def)+

lemma ss_eq_iff [simp]: "ss s = ss t \<longleftrightarrow> s = t"
  by (cases s; cases t; simp)

lemma ce_eq_iff [simp]: "ce x = ce y \<longleftrightarrow> x = y"
  by (cases x; cases y; simp)

declare ss.simps [simp del] ce.simps [simp del]

lemma good_rows: "\<forall>e \<in> set (TRANSITION_TABLE a). good_row e"
  by (simp add: TRANSITION_TABLE_def entry_def good_row_def independent_actions
      independent_request_actions blind_conditions)

lemma fsm_set_both:
  "(\<lambda>x :: Fsm. x\<lparr>m_current_state := t, m_recursive := r\<rparr>) = (\<lambda>_. \<lparr>m_current_state = t, m_recursive = r\<rparr>)"
proof
  fix x :: Fsm
  show "x\<lparr>m_current_state := t, m_recursive := r\<rparr> = \<lparr>m_current_state = t, m_recursive = r\<rparr>" by (cases x) simp
qed

lemma fire_good_row:
  assumes "good_row e" "idle v"
  shows "fsm_update (m_recursive_update (\<lambda>_. False))
           (fire fsm_update e d (fsm_update (m_recursive_update (\<lambda>_. True)) v)) = row_effect e d v"
proof -
  let ?b = "run_action (before_transition e) d"
  have ind: "?b (fsm_update g w) = fsm_update g (?b w)" for g w
    using assms(1) by (simp add: good_row_def independent_def)
  have keep: "fsm (?b v) = fsm v"
  proof -
    have "fsm_update (\<lambda>_. fsm v) v = v" by (rule fsm_update_keep) simp
    then have "?b v = fsm_update (\<lambda>_. fsm v) (?b v)" using ind [of "\<lambda>_. fsm v" v] by simp
    then have "fsm (?b v) = fsm (fsm_update (\<lambda>_. fsm v) (?b v))" by (rule arg_cong)
    also have "\<dots> = fsm v" by simp
    finally show ?thesis .
  qed
  show ?thesis
  proof (cases "target_state e = SAME_TARGET_STATE")
    case True
    then show ?thesis
      using assms keep
      by (simp add: fire_def row_effect_def ind good_row_def run_action_def [of None] comp_def fsm_update_keep)
  next
    case False
    have flag: "fsm_update (m_recursive_update (\<lambda>_. False)) (raise_state w d) = raise_state w d"
      if "idle w" for w
      using that by (intro fsm_update_keep) simp
    show ?thesis
      using assms False
      by (simp add: fire_def row_effect_def ind good_row_def run_action_def [of "Some raise_state"]
          comp_def flag fsm_set_both)
  qed
qed

lemma perform_row_effect:
  assumes "idle v"
  shows "perform a ev d v =
     (case List.find (\<lambda>e. row_applies e (ce ev) d v) (TRANSITION_TABLE a) of
        None \<Rightarrow> v | Some e \<Rightarrow> row_effect e d v)"
proof -
  let ?v = "fsm_update (m_recursive_update (\<lambda>_. True)) v"
  have m: "entry_matches (vs ?v) (ce ev) ?v d e \<longleftrightarrow> row_applies e (ce ev) d v"
    if "e \<in> set (TRANSITION_TABLE a)" for e
    using good_rows that
    by (auto simp: good_row_def entry_matches_def row_applies_def blind_def split: option.splits)
  have f: "List.find (entry_matches (vs ?v) (ce ev) ?v d) (TRANSITION_TABLE a) =
      List.find (\<lambda>e. row_applies e (ce ev) d v) (TRANSITION_TABLE a)"
    using m by (intro find_cong refl) blast
  show ?thesis
  proof (cases "List.find (\<lambda>e. row_applies e (ce ev) d v) (TRANSITION_TABLE a)")
    case None
    with assms f show ?thesis
      by (simp add: perform_def perform_transition_def Let_def comp_def fsm_update_keep)
  next
    case (Some e)
    then have "e \<in> set (TRANSITION_TABLE a)" by (auto simp: find_Some_iff)
    with good_rows have "good_row e" by blast
    with Some f assms show ?thesis
      by (simp add: perform_def perform_transition_def Let_def fire_good_row)
  qed
qed

section \<open>The effect of every event\<close>

lemmas row_simps =
  TRANSITION_TABLE_def entry_def row_applies_def row_effect_def run_action_def

lemma on_do_connect:
  "idle v \<Longrightarrow> vs v = ss s \<Longrightarrow> perform a CE_DO_CONNECT d v =
     (if s = VPN_SS_DISCONNECTED then enter VPN_SS_CONNECTING run_ping d v
      else enter VPN_SS_DISCONNECTED on_wrong_connect_state d v)"
  by (simp add: perform_row_effect row_simps enter_def)

lemma on_retry_connect:
  "idle v \<Longrightarrow> vs v = ss s \<Longrightarrow> perform a CE_RETRY_CONNECT d v =
     (if s = VPN_SS_CONNECTING then run_ping v d else v)"
  by (simp add: perform_row_effect row_simps)

lemma on_ping_ready:
  "idle v \<Longrightarrow> vs v = ss s \<Longrightarrow> perform a CE_PING_READY d v =
     (if s = VPN_SS_CONNECTING then connect_client a v d
      else if s = VPN_SS_RECOVERING then reconnect_client a v d else v)"
  by (simp add: perform_row_effect row_simps)

lemma on_ping_fail:
  "idle v \<Longrightarrow> vs v = ss s \<Longrightarrow> perform a CE_PING_FAIL d v =
     (if s = VPN_SS_CONNECTING then
        if is_fatal_error v d then enter VPN_SS_DISCONNECTED complete_connect d v
        else if fall_into_recovery v d then enter VPN_SS_WAITING_RECOVERY prepare_for_recovery d v
        else if no_connect_attempts v d then enter VPN_SS_DISCONNECTED complete_connect d v
        else retry_connect v d
      else if s = VPN_SS_RECOVERING then
        if is_fatal_error v d then enter VPN_SS_DISCONNECTED do_disconnect d v
        else enter VPN_SS_WAITING_RECOVERY prepare_for_recovery d v
      else v)"
  by (simp add: perform_row_effect row_simps enter_def)

lemma on_client_ready:
  "idle v \<Longrightarrow> vs v = ss s \<Longrightarrow> perform a CE_CLIENT_READY d v =
     (if s = VPN_SS_CONNECTING then enter VPN_SS_CONNECTED complete_connect d v
      else if s = VPN_SS_RECOVERING then enter VPN_SS_CONNECTED finalize_recovery d v else v)"
  by (simp add: perform_row_effect row_simps enter_def)

lemma on_client_disconnected:
  "idle v \<Longrightarrow> vs v = ss s \<Longrightarrow> perform a CE_CLIENT_DISCONNECTED d v =
     (case s of
        VPN_SS_DISCONNECTED \<Rightarrow> v
      | VPN_SS_CONNECTING \<Rightarrow>
          if is_fatal_error v d then enter VPN_SS_DISCONNECTED complete_connect d v
          else if fall_into_recovery v d then enter VPN_SS_WAITING_RECOVERY prepare_for_recovery d v
          else if no_connect_attempts v d then enter VPN_SS_DISCONNECTED complete_connect d v
          else retry_connect v d
      | VPN_SS_WAITING_RECOVERY \<Rightarrow>
          if is_fatal_error v d then enter VPN_SS_DISCONNECTED do_disconnect d v else v
      | _ \<Rightarrow>
          if is_fatal_error v d then enter VPN_SS_DISCONNECTED do_disconnect d v
          else enter VPN_SS_WAITING_RECOVERY prepare_for_recovery d v)"
  by (cases s; simp add: perform_row_effect row_simps enter_def)

lemma on_do_recovery:
  "idle v \<Longrightarrow> vs v = ss s \<Longrightarrow> perform a CE_DO_RECOVERY d v =
     (if s = VPN_SS_WAITING_RECOVERY then
        if need_to_ping_on_recovery v d then enter VPN_SS_RECOVERING run_ping d v
        else enter VPN_SS_RECOVERING (connect_client a) d v
      else v)"
  by (simp add: perform_row_effect row_simps enter_def)

lemma on_shutdown:
  "idle v \<Longrightarrow> vs v = ss s \<Longrightarrow> perform a CE_SHUTDOWN d v =
     (if s = VPN_SS_DISCONNECTED then do_disconnect v d else enter VPN_SS_DISCONNECTED do_disconnect d v)"
  by (simp add: perform_row_effect row_simps enter_def)

lemma on_network_change:
  "idle v \<Longrightarrow> vs v = ss s \<Longrightarrow> perform a CE_NETWORK_CHANGE d v =
     (case s of
        VPN_SS_DISCONNECTED \<Rightarrow> v
      | VPN_SS_CONNECTING \<Rightarrow>
          if no_connect_attempts v d then enter VPN_SS_DISCONNECTED fail_connect_with_no_attempts d v
          else if network_lost v d then enter VPN_SS_WAITING_FOR_NETWORK do_disconnect d v else v
      | VPN_SS_CONNECTED \<Rightarrow>
          if network_lost v d then enter VPN_SS_WAITING_FOR_NETWORK do_disconnect d v
          else enter VPN_SS_WAITING_RECOVERY prepare_for_recovery_nc d v
      | VPN_SS_WAITING_RECOVERY \<Rightarrow>
          if network_lost v d then enter VPN_SS_WAITING_FOR_NETWORK do_disconnect d v
          else enter VPN_SS_RECOVERING run_ping d v
      | VPN_SS_RECOVERING \<Rightarrow>
          if network_lost v d then enter VPN_SS_WAITING_FOR_NETWORK do_disconnect d v else v
      | VPN_SS_WAITING_FOR_NETWORK \<Rightarrow>
          if network_lost v d then v
          else if cond_connected_once v d then enter VPN_SS_WAITING_RECOVERY prepare_for_recovery_nc d v
          else if no_connect_attempts v d then enter VPN_SS_DISCONNECTED fail_connect_with_no_attempts d v
          else enter VPN_SS_CONNECTING retry_connect d v)"
  by (cases s; simp add: perform_row_effect row_simps enter_def)

lemma on_start_listening:
  "idle v \<Longrightarrow> vs v = ss s \<Longrightarrow> perform a CE_START_LISTENING d v =
     (if s = VPN_SS_DISCONNECTED then v else start_listening a v d)"
  by (simp add: perform_row_effect row_simps on_wrong_listen_state_def)

lemma on_abandon_endpoint:
  "idle v \<Longrightarrow> vs v = ss s \<Longrightarrow> perform a CE_ABANDON_ENDPOINT d v =
     (case s of
        VPN_SS_CONNECTING \<Rightarrow>
          if is_fatal_error v d then enter VPN_SS_DISCONNECTED complete_connect d v
          else retry_connect v d
      | VPN_SS_CONNECTED \<Rightarrow>
          if is_fatal_error v d then enter VPN_SS_DISCONNECTED do_disconnect d v
          else enter VPN_SS_WAITING_RECOVERY prepare_for_recovery d v
      | VPN_SS_WAITING_RECOVERY \<Rightarrow>
          if is_fatal_error v d then enter VPN_SS_DISCONNECTED do_disconnect d v else v
      | VPN_SS_RECOVERING \<Rightarrow>
          if is_fatal_error v d then enter VPN_SS_DISCONNECTED do_disconnect d v
          else enter VPN_SS_WAITING_RECOVERY prepare_for_recovery d v
      | _ \<Rightarrow> v)"
  by (cases s; simp add: perform_row_effect row_simps enter_def)

lemma on_complete_request:
  "idle v \<Longrightarrow> vs v = ss s \<Longrightarrow> perform a CE_COMPLETE_REQUEST d v =
     (if can_complete a v d then complete_request v d
      else if should_postpone v d then postpone_request v d
      else if is_kill_switch_on v d then reject_request v d
      else bypass_until_connected v d)"
  by (simp add: perform_row_effect row_simps)

lemmas on_events =
  on_do_connect on_retry_connect on_ping_ready on_ping_fail on_client_ready on_client_disconnected
  on_do_recovery on_shutdown on_network_change on_start_listening on_abandon_endpoint
  on_complete_request

end
