(* ===== verification/Vpn_Manager.thy ===== *)
theory Vpn_Manager
  imports Vpn_Dispatch
begin

text \<open>
  The session manager around the machine (\<^verbatim>\<open>core/src/vpn_manager.cpp\<close>): the closures that run
  on the event loop, the callbacks of the pinger, the client and the timers, the calls of the
  public interface, and the steps that the object can take.
\<close>

section \<open>Callbacks\<close>

definition session_error :: "int \<Rightarrow> string \<Rightarrow> Vpn \<Rightarrow> Vpn" where
  "session_error c msg v = v\<lparr>pending_error := Some (mk_error c msg)\<rparr>"

text \<open>The closure that \<open>initiate_recovery\<close> schedules.\<close>

definition begin_attempt :: "Vpn \<Rightarrow> Vpn" where
  "begin_attempt v =
     v\<lparr>recovery := (recovery v)\<lparr>rec_task := None,
         rec_time := (rec_time (recovery v))\<lparr>attempt_start_ts := clock v\<rparr>\<rparr>,
       last_recovery_fire_ts := clock v\<rparr>"

definition recovery_task_cb :: "Answers \<Rightarrow> Vpn \<Rightarrow> Vpn" where
  "recovery_task_cb a v = perform a CE_DO_RECOVERY NoData (begin_attempt v)"

text \<open>\<open>pinger_handler\<close>: what it does before it looks at the result, and the three outcomes.\<close>

definition ping_failure_error :: "bool \<Rightarrow> VpnError" where
  "ping_failure_error induces_unavailable =
     (if induces_unavailable
      then mk_error VPN_EC_LOCATION_UNAVAILABLE ''None of the endpoints were pinged successfully''
      else mk_error VPN_EC_ERROR ''Failed to ping location'')"

definition forget_endpoint :: "Vpn \<Rightarrow> Vpn" where
  "forget_endpoint v =
     v\<lparr>undefined_behaviour := undefined_behaviour v \<or> selected_endpoint v \<noteq> None,
       selected_endpoint := None, ping_failure_induces_location_unavailable := False\<rparr>"

definition select_endpoint :: "LocationsPingerResult \<Rightarrow> Vpn \<Rightarrow> Vpn" where
  "select_endpoint r v =
     emit C_update_bypass_ip
       (v\<lparr>selected_endpoint := Some \<lparr>sel_endpoint = pr_endpoint r, sel_relay = pr_relay r\<rparr>\<rparr>)"

definition pinger_handler :: "Answers \<Rightarrow> LocationsPingerResult \<Rightarrow> Vpn \<Rightarrow> Vpn" where
  "pinger_handler a r v =
     (let flag = ping_failure_induces_location_unavailable v
      in if pr_ping_ms r < 0 then
           perform a CE_PING_FAIL (ErrData (ping_failure_error flag)) (forget_endpoint v)
         else if \<not> (\<exists>ep \<in> set (loc_endpoints (location (upstream_config v))).
                      vpn_endpoint_equals a (pr_endpoint r) ep = Some True) then
           perform a CE_PING_FAIL
             (ErrData (mk_error VPN_EC_ERROR ''Best available endpoint wasn't found in location''))
             ((forget_endpoint v)\<lparr>ping_failure_induces_location_unavailable := flag\<rparr>)
         else perform a CE_PING_READY NoData (select_endpoint r (forget_endpoint v)))"

datatype ClientEvent =
    EVENT_PROTECT_SOCKET | EVENT_VERIFY_CERTIFICATE | EVENT_CONNECTED | EVENT_OUTPUT
  | EVENT_CONNECT_REQUEST | EVENT_ERROR VpnError | EVENT_DISCONNECTED
  | EVENT_DNS_UPSTREAM_UNAVAILABLE | EVENT_CONNECTION_STATS | EVENT_CONNECTION_CLOSED
  | EVENT_CONNECTION_INFO

fun client_handler :: "Answers \<Rightarrow> ClientEvent \<Rightarrow> Vpn \<Rightarrow> Vpn" where
  "client_handler a EVENT_PROTECT_SOCKET v = emit (C_forward VPN_EVENT_PROTECT_SOCKET) v"
| "client_handler a EVENT_VERIFY_CERTIFICATE v = emit (C_forward VPN_EVENT_VERIFY_CERTIFICATE) v"
| "client_handler a EVENT_CONNECTED v =
     perform a CE_CLIENT_READY NoData (v\<lparr>client_state := CLIS_CONNECTED\<rparr>)"
| "client_handler a EVENT_OUTPUT v = emit (C_forward VPN_EVENT_CLIENT_OUTPUT) v"
| "client_handler a EVENT_CONNECT_REQUEST v = emit (C_forward VPN_EVENT_CONNECT_REQUEST) v"
| "client_handler a (EVENT_ERROR e) v =
     perform a CE_CLIENT_DISCONNECTED (ErrData e) (v\<lparr>client_state := CLIS_DISCONNECTED\<rparr>)"
| "client_handler a EVENT_DISCONNECTED v =
     perform a CE_CLIENT_DISCONNECTED NoData (v\<lparr>client_state := CLIS_DISCONNECTED\<rparr>)"
| "client_handler a EVENT_DNS_UPSTREAM_UNAVAILABLE v = emit (C_forward VPN_EVENT_DNS_UPSTREAM_UNAVAILABLE) v"
| "client_handler a EVENT_CONNECTION_STATS v = emit (C_forward VPN_EVENT_TUNNEL_CONNECTION_STATS) v"
| "client_handler a EVENT_CONNECTION_CLOSED v = emit (C_forward VPN_EVENT_TUNNEL_CONNECTION_CLOSED) v"
| "client_handler a EVENT_CONNECTION_INFO v = emit (C_forward VPN_EVENT_CONNECTION_INFO) v"

text \<open>
  \<open>ssl_verify_callback\<close>: the application's verdict, the host name and the address the
  certificate must match, and what the name parsing and the certificate checks answer. A
  result of 1 accepts the certificate.
\<close>

definition ssl_verify_callback ::
  "int \<Rightarrow> string option \<Rightarrow> SocketAddressStorage option \<Rightarrow> (string \<Rightarrow> bool) \<Rightarrow>
   (string \<Rightarrow> bool) \<Rightarrow> (string \<Rightarrow> bool) \<Rightarrow> (SocketAddressStorage \<Rightarrow> bool) \<Rightarrow> int \<Rightarrow> int" where
  "ssl_verify_callback app_result host_name host_ip is_address cert_has_ip cert_has_name cert_has_addr af_unspec =
     (if app_result = VPN_SKIP_VERIFICATION_FLAG then 1
      else
        let result = (if app_result = 0 then 1 else 0);
            identity_matches =
              (case host_name of
                 Some n \<Rightarrow> if is_address n then cert_has_ip n else cert_has_name n
               | None \<Rightarrow>
                   (case host_ip of
                      Some ip \<Rightarrow> if sa_family ip \<noteq> af_unspec then cert_has_addr ip else True
                    | None \<Rightarrow> True))
        in if \<not> identity_matches then 0 else result)"

section \<open>Tasks\<close>

definition use_first_attempt :: "ConnectRetryInfo \<Rightarrow> ConnectRetryInfo" where
  "use_first_attempt r =
     (case r of ConnectSeveralAttempts n \<Rightarrow> ConnectSeveralAttempts (n - 1)
              | ConnectFallIntoRecovery \<Rightarrow> ConnectFallIntoRecovery)"

definition force_reconnect_task :: "Answers \<Rightarrow> Vpn \<Rightarrow> Vpn" where
  "force_reconnect_task a v =
     (if session_in [VPN_SS_DISCONNECTED] v then
        perform a CE_DO_CONNECT NoData (v\<lparr>pending_error := None\<rparr>)
      else if session_in [VPN_SS_WAITING_RECOVERY] v then perform a CE_DO_RECOVERY NoData v
      else if session_in [VPN_SS_CONNECTED, VPN_SS_RECOVERING, VPN_SS_CONNECTING] v then
        perform a CE_CLIENT_DISCONNECTED (ErrData (mk_error VPN_EC_ERROR ''Forced reconnect''))
          (session_error VPN_EC_ERROR ''Forced reconnect'' v)
      else v)"

definition complete_connect_request_task :: "Answers \<Rightarrow> ConnectRequestResult \<Rightarrow> Vpn \<Rightarrow> Vpn" where
  "complete_connect_request_task a r v =
     perform a CE_COMPLETE_REQUEST (ReqData (r\<lparr>req_action := finalize_action a r\<rparr>))
       (emit (C_finalize_action (req_id r) (finalize_action a r)) v)"

definition connection_stats_error :: "Vpn \<Rightarrow> VpnError" where
  "connection_stats_error v =
     (if session_in [VPN_SS_CONNECTED] v then no_error
      else mk_error VPN_EC_INVALID_STATE ''Invalid state'')"

text \<open>
  The closure of \<open>vpn_abandon_endpoint\<close>. \<open>AF_INET\<close> has the value 2.
\<close>

definition remove_endpoint :: "Answers \<Rightarrow> VpnEndpoint \<Rightarrow> VpnEndpoint list \<Rightarrow> VpnEndpoint list" where
  "remove_endpoint a ep eps =
     (let (zs, e) = swap_remove_if (\<lambda>i. vpn_endpoint_equals a ep i = Some True) eps in take e zs)"

definition set_endpoints :: "VpnEndpoint list \<Rightarrow> Vpn \<Rightarrow> Vpn" where
  "set_endpoints eps v =
     v\<lparr>upstream_config := (upstream_config v)\<lparr>location :=
         (location (upstream_config v))\<lparr>loc_endpoints := eps\<rparr>\<rparr>\<rparr>"

definition exhausted_error :: "VpnEndpoint list \<Rightarrow> int \<Rightarrow> VpnError" where
  "exhausted_error eps family =
     mk_error VPN_EC_LOCATION_UNAVAILABLE
       (if eps = [] then ''Exhausted all endpoints in location''
        else if family = 2 then ''Exhausted all IPv4 endpoints in location''
        else ''Exhausted all IPv6 endpoints in location'')"

definition is_selected :: "Answers \<Rightarrow> VpnEndpoint \<Rightarrow> Vpn \<Rightarrow> bool" where
  "is_selected a ep v =
     (case selected_endpoint v of
        None \<Rightarrow> False
      | Some sel \<Rightarrow> vpn_endpoint_equals a (sel_endpoint sel) ep = Some True)"

definition abandon_endpoint_task :: "Answers \<Rightarrow> VpnEndpoint \<Rightarrow> Vpn \<Rightarrow> Vpn" where
  "abandon_endpoint_task a ep v =
     (let selected = is_selected a ep v;
          family = sa_family (ep_address ep);
          eps = remove_endpoint a ep (loc_endpoints (location (upstream_config v)));
          w = set_endpoints eps (if selected then v\<lparr>selected_endpoint := None\<rparr> else v)
      in if \<not> (\<exists>i \<in> set eps. family = sa_family (ep_address i)) then
           perform a CE_ABANDON_ENDPOINT NoData
             (set_endpoints [] (w\<lparr>pending_error := Some (exhausted_error eps family)\<rparr>))
         else if \<not> selected then w
         else perform a CE_ABANDON_ENDPOINT NoData
                (w\<lparr>pending_error := Some (mk_error VPN_EC_ERROR ''Current endpoint is abandoned''),
                   ping_failure_induces_location_unavailable := True\<rparr>))"

fun run_task :: "Answers \<Rightarrow> Task \<Rightarrow> Vpn \<Rightarrow> Vpn" where
  "run_task a (T_connect cfg retry) v =
     perform a CE_DO_CONNECT NoData
       ((emit C_update_parameters v)\<lparr>upstream_config := update_upstream_config cfg,
                                     connect_retry_info := use_first_attempt retry\<rparr>)"
| "run_task a T_force_reconnect v = force_reconnect_task a v"
| "run_task a (T_force_disconnect fatal) v =
     perform a CE_SHUTDOWN NoData
       (if fatal then session_error VPN_EC_FATAL_CONNECTIVITY_ERROR ''Fatal connectivity error occurred'' v
        else v)"
| "run_task a T_shutdown v = perform a CE_SHUTDOWN NoData v"
| "run_task a T_attempts_exhausted v =
     perform a CE_SHUTDOWN NoData
       (session_error VPN_EC_LOCATION_UNAVAILABLE ''Maximum number of recovery attempts has been made''
         (v\<lparr>recovery := recovery_init\<rparr>))"
| "run_task a T_client_disconnected v = perform a CE_CLIENT_DISCONNECTED NoData v"
| "run_task a T_retry_connect v = perform a CE_RETRY_CONNECT NoData v"
| "run_task a (T_listen_failed e) v = perform a CE_SHUTDOWN NoData (v\<lparr>pending_error := Some e\<rparr>)"
| "run_task a T_listen v = perform a CE_START_LISTENING ListenData v"
| "run_task a (T_network_change st) v =
     perform a CE_NETWORK_CHANGE (NetData st)
       ((emit C_network_change v)\<lparr>network_changed_before_recovery := True\<rparr>)"
| "run_task a (T_complete_request r) v = complete_connect_request_task a r v"
| "run_task a (T_update_exclusions m ex) v =
     emit (C_update_exclusions m ex) (emit (C_reset_connections (-1)) v)"
| "run_task a (T_reset_connections uid) v = emit (C_reset_connections uid) v"
| "run_task a T_connection_stats v = emit (C_connection_stats (connection_stats_error v)) v"
| "run_task a (T_abandon_endpoint ep) v = abandon_endpoint_task a ep v"
| "run_task a T_sleep v = submit T_sleep_completed (emit C_handle_sleep v)"
| "run_task a T_sleep_completed v = emit C_sleep_completed v"
| "run_task a T_wake v = emit C_handle_wake v"
| "run_task a (T_client_packets ps) v = emit (C_client_packets ps) v"

text \<open>The front task of the queue, as the event loop runs it.\<close>

definition run_front :: "Answers \<Rightarrow> Vpn \<Rightarrow> Vpn" where
  "run_front a v = (case queue v of [] \<Rightarrow> v | t # ts \<Rightarrow> run_task a t (v\<lparr>queue := ts\<rparr>))"

section \<open>The public interface\<close>

definition check_address :: "Answers \<Rightarrow> SocketAddressStorage \<Rightarrow> string option" where
  "check_address a addr =
     (if addr_valid a addr then
        if addr_is_ipv4 a addr \<or> addr_is_ipv6 a addr then
          if addr_port a addr > 0 then None else Some ''Port must be specified''
        else Some ''Unknown family''
      else None)"

text \<open>\<open>AF_UNSPEC\<close> has the value 0.\<close>

fun validate_endpoints :: "Answers \<Rightarrow> nat \<Rightarrow> VpnEndpoint list \<Rightarrow> VpnError" where
  "validate_endpoints a n [] = no_error"
| "validate_endpoints a n (ep # eps) =
     (if ep_name ep = None then
        mk_error VPN_EC_INVALID_SETTINGS ''Names must be specified for each endpoint''
      else if n > 1 \<and> sa_family (ep_address ep) = 0 then
        mk_error VPN_EC_INVALID_SETTINGS
          ''In case of multiple endpoints addresses must be specified for each one''
      else if check_address a (ep_address ep) \<noteq> None then
        mk_error VPN_EC_INVALID_SETTINGS ''Invalid endpoint address''
      else validate_endpoints a n eps)"

definition validate_upstream_config :: "Answers \<Rightarrow> VpnUpstreamConfig \<Rightarrow> VpnError" where
  "validate_upstream_config a c =
     (let eps = loc_endpoints (location c)
      in if length eps = 0 then
           mk_error VPN_EC_INVALID_SETTINGS ''At least one endpoint must be specified''
         else if username c = None \<or> password c = None then
           mk_error VPN_EC_INVALID_SETTINGS ''Both username and password must be specified''
         else validate_endpoints a (length eps) eps)"

datatype VpnConnectRetryPolicy = VPN_CRP_SEVERAL_ATTEMPTS int | VPN_CRP_FALL_INTO_RECOVERY

definition retry_info_of :: "VpnConnectRetryPolicy \<Rightarrow> ConnectRetryInfo" where
  "retry_info_of p =
     (case p of
        VPN_CRP_SEVERAL_ATTEMPTS n \<Rightarrow>
          ConnectSeveralAttempts (if n \<le> 0 then VPN_DEFAULT_CONNECT_ATTEMPTS_NUM else word_of_int n)
      | VPN_CRP_FALL_INTO_RECOVERY \<Rightarrow> ConnectFallIntoRecovery)"

text \<open>
  \<open>vpn_connect\<close>; \<open>loop_started\<close> is the result of \<open>run_event_loop\<close>, which starts the thread.
\<close>

definition vpn_connect ::
  "Answers \<Rightarrow> bool \<Rightarrow> VpnUpstreamConfig \<Rightarrow> VpnConnectRetryPolicy \<Rightarrow> Vpn \<Rightarrow> VpnError \<times> Vpn" where
  "vpn_connect a loop_started cfg policy v =
     (let error = validate_upstream_config a cfg
      in if code error \<noteq> VPN_EC_NOERROR then (error, v)
         else if executor_running v then
           (mk_error VPN_EC_ERROR ''VPN client worker is already running'', v)
         else if \<not> loop_started then
           (mk_error VPN_EC_EVENT_LOOP_FAILURE ''Failed to start event loop for operation'', v)
         else (error, submit (T_connect cfg (retry_info_of policy))
                        (v\<lparr>executor_running := True, loop_alive := True\<rparr>)))"

text \<open>
  Calls that submit without looking at the event loop, and calls that check it first.
\<close>

definition submit_unchecked :: "Task \<Rightarrow> Vpn \<Rightarrow> Vpn" where
  "submit_unchecked t v = (if loop_alive v then submit t v else v\<lparr>undefined_behaviour := True\<rparr>)"

definition submit_if_active :: "Task \<Rightarrow> Vpn \<Rightarrow> Vpn" where
  "submit_if_active t v = (if loop_alive v \<and> executor_running v then submit t v else v)"

definition vpn_force_reconnect :: "Vpn \<Rightarrow> Vpn" where
  "vpn_force_reconnect v = submit_unchecked T_force_reconnect v"

definition vpn_force_disconnect :: "bool \<Rightarrow> Vpn \<Rightarrow> Vpn" where
  "vpn_force_disconnect fatal v = submit_unchecked (T_force_disconnect fatal) v"

definition vpn_abandon_endpoint :: "VpnEndpoint \<Rightarrow> Vpn \<Rightarrow> Vpn" where
  "vpn_abandon_endpoint ep v = submit_unchecked (T_abandon_endpoint ep) v"

definition vpn_listen :: "bool \<Rightarrow> bool \<Rightarrow> Vpn \<Rightarrow> VpnError \<times> Vpn" where
  "vpn_listen has_listener has_config v =
     (if \<not> has_listener then (mk_error VPN_EC_INVALID_SETTINGS ''Listener is null'', v)
      else if \<not> has_config then (mk_error VPN_EC_INVALID_SETTINGS ''Listener config is null'', v)
      else if \<not> executor_running v then
        (mk_error VPN_EC_ERROR ''VPN client worker is not running'', v)
      else (no_error, submit T_listen v))"

definition vpn_complete_connect_request :: "ConnectRequestResult \<Rightarrow> Vpn \<Rightarrow> Vpn" where
  "vpn_complete_connect_request r v = (if loop_alive v then submit (T_complete_request r) v else v)"

text \<open>
  \<open>vpn_update_exclusions\<close> keeps the identifier of its task: a new call cancels the task of the
  previous one when it has not run yet.
\<close>

fun is_exclusions_task :: "Task \<Rightarrow> bool" where
  "is_exclusions_task (T_update_exclusions m ex) = True"
| "is_exclusions_task _ = False"

definition cancel_exclusions_task :: "Vpn \<Rightarrow> Vpn" where
  "cancel_exclusions_task v = v\<lparr>queue := filter (\<lambda>t. \<not> is_exclusions_task t) (queue v)\<rparr>"

definition vpn_update_exclusions :: "VpnMode \<Rightarrow> string \<Rightarrow> Vpn \<Rightarrow> Vpn" where
  "vpn_update_exclusions m ex v =
     (if loop_alive v \<and> executor_running v
      then submit (T_update_exclusions m ex) (cancel_exclusions_task v) else v)"

definition vpn_reset_connections :: "int \<Rightarrow> Vpn \<Rightarrow> Vpn" where
  "vpn_reset_connections uid v = submit_if_active (T_reset_connections uid) v"

definition vpn_notify_network_change :: "VpnNetworkState \<Rightarrow> Vpn \<Rightarrow> Vpn" where
  "vpn_notify_network_change st v = submit_if_active (T_network_change st) v"

definition vpn_request_endpoint_connection_stats :: "Vpn \<Rightarrow> Vpn" where
  "vpn_request_endpoint_connection_stats v =
     (if loop_alive v \<and> executor_running v then submit T_connection_stats v
      else emit (C_connection_stats (mk_error VPN_EC_ERROR ''Event loop is stopped'')) v)"

text \<open>
  \<open>vpn_notify_sleep\<close>: the completion handler is called by the second task, or when a task that
  holds it is destroyed.
\<close>

definition vpn_notify_sleep :: "Vpn \<Rightarrow> Vpn" where
  "vpn_notify_sleep v = submit_if_active T_sleep v"

definition vpn_notify_wake :: "Vpn \<Rightarrow> Vpn" where
  "vpn_notify_wake v = submit_if_active T_wake v"

definition vpn_process_client_packets :: "bytes list \<Rightarrow> Vpn \<Rightarrow> bool \<times> Vpn" where
  "vpn_process_client_packets ps v =
     (if \<not> loop_alive v then (False, v) else (True, submit (T_client_packets ps) v))"

text \<open>The thread of the event loop when the loop ends with an error.\<close>

definition event_loop_failure :: "Answers \<Rightarrow> Vpn \<Rightarrow> Vpn" where
  "event_loop_failure a v =
     perform a CE_SHUTDOWN NoData (session_error VPN_EC_EVENT_LOOP_FAILURE ''Event loop run error'' v)"

text \<open>
  \<open>vpn_stop\<close>: the shutdown closure is submitted and the loop asked to exit; \<open>n\<close> is the number
  of queued closures that still run before it does.
\<close>

primrec run_tasks :: "Answers \<Rightarrow> nat \<Rightarrow> Vpn \<Rightarrow> Vpn" where
  "run_tasks a 0 v = v"
| "run_tasks a (Suc n) v = run_tasks a n (run_front a v)"

text \<open>The tasks that are left are destroyed with the event loop.\<close>

definition holds_sleep_completion :: "Task \<Rightarrow> bool" where
  "holds_sleep_completion t = (t = T_sleep \<or> t = T_sleep_completed)"

definition drop_tasks :: "Vpn \<Rightarrow> Vpn" where
  "drop_tasks v =
     v\<lparr>calls := replicate (length (filter holds_sleep_completion (queue v))) C_sleep_completed @ calls v,
       queue := []\<rparr>"

definition vpn_stop_cleanup :: "Vpn \<Rightarrow> Vpn" where
  "vpn_stop_cleanup v =
     emit C_stopped ((drop_tasks (stop_pinging (emit C_client_finalize v)))
       \<lparr>fsm := fsm_reset (ss VPN_SS_DISCONNECTED) (fsm v), pending_error := None,
        client_state := CLIS_DISCONNECTED, postponement_window_timer := None,
        recovery := recovery_init, selected_endpoint := None,
        postponed_requests := [], bypassed_connection_ids := [],
        executor_running := False, loop_alive := False\<rparr>)"

definition vpn_stop :: "Answers \<Rightarrow> nat \<Rightarrow> Vpn \<Rightarrow> Vpn" where
  "vpn_stop a n v =
     vpn_stop_cleanup (if loop_alive v then run_tasks a n (submit T_shutdown v) else v)"

section \<open>Steps\<close>

text \<open>
  One step of the object: the event loop runs the front task or a timer that is due, the
  pinger reports its result, the client raises an event, the application makes a call, or time
  passes. The client reports a connection only when it was asked to connect; it may report a
  loss at any time. The answers are chosen anew at every step.
\<close>

inductive vpn_step :: "Vpn \<Rightarrow> Vpn \<Rightarrow> bool" where
  step_task: "queue v \<noteq> [] \<Longrightarrow> vpn_step v (run_front a v)"
| step_recovery_timer: "rec_task (recovery v) = Some due \<Longrightarrow> due \<le> clock v \<Longrightarrow>
    vpn_step v (recovery_task_cb a v)"
| step_window_timer: "postponement_window_timer v = Some due \<Longrightarrow> due \<le> clock v \<Longrightarrow>
    vpn_step v (postponement_window_timer_cb v)"
| step_ping_result: "pinger v = PingerRunning \<Longrightarrow>
    vpn_step v (pinger_handler a r (v\<lparr>pinger := PingerReported\<rparr>))"
| step_client_connected: "client_state v = CLIS_CONNECTING \<Longrightarrow>
    vpn_step v (client_handler a EVENT_CONNECTED v)"
| step_client_event: "e \<noteq> EVENT_CONNECTED \<Longrightarrow> vpn_step v (client_handler a e v)"
| step_connect: "vpn_step v (snd (vpn_connect a started cfg policy v))"
| step_force_reconnect: "vpn_step v (vpn_force_reconnect v)"
| step_force_disconnect: "vpn_step v (vpn_force_disconnect fatal v)"
| step_listen: "vpn_step v (snd (vpn_listen l c v))"
| step_complete_request: "vpn_step v (vpn_complete_connect_request req v)"
| step_update_exclusions: "vpn_step v (vpn_update_exclusions m ex v)"
| step_reset_connections: "vpn_step v (vpn_reset_connections uid v)"
| step_network_change: "vpn_step v (vpn_notify_network_change st v)"
| step_stats: "vpn_step v (vpn_request_endpoint_connection_stats v)"
| step_abandon: "vpn_step v (vpn_abandon_endpoint ep v)"
| step_sleep: "vpn_step v (vpn_notify_sleep v)"
| step_wake: "vpn_step v (vpn_notify_wake v)"
| step_client_packets: "vpn_step v (snd (vpn_process_client_packets ps v))"
| step_loop_failure: "vpn_step v (event_loop_failure a v)"
| step_stop: "vpn_step v (vpn_stop a n v)"
| step_time: "clock v \<le> t \<Longrightarrow> vpn_step v (v\<lparr>clock := t\<rparr>)"

inductive vpn_reachable :: "Vpn \<Rightarrow> bool" where
  reach_init: "vpn_reachable (Vpn_new kill_switch t)"
| reach_step: "vpn_reachable v \<Longrightarrow> vpn_step v w \<Longrightarrow> vpn_reachable w"

inductive_cases vpn_stepE: "vpn_step v w"

end
