(* ===== verification/Vpn_Control.thy ===== *)
theory Vpn_Control
  imports Vpn_Manager
begin

text \<open>
  The control invariant of the session: the machine is never left in the middle of a
  transition, a running pinger has no selected endpoint beside it, and in every state but the
  two idle ones something is under way that will move the session on. One lemma per action
  says what it establishes, one per event that it keeps the invariant, and the last ones lift
  this to every step.
\<close>

section \<open>The invariant\<close>

definition attempting :: "Vpn \<Rightarrow> bool" where
  "attempting v \<longleftrightarrow>
     pinger v = PingerRunning \<or> client_state v = CLIS_CONNECTING \<or> T_client_disconnected \<in> set (queue v)"

definition progress :: "VpnSessionState \<Rightarrow> Vpn \<Rightarrow> bool" where
  "progress s v =
     (case s of
        VPN_SS_DISCONNECTED \<Rightarrow> True
      | VPN_SS_CONNECTING \<Rightarrow> attempting v \<or> T_retry_connect \<in> set (queue v)
      | VPN_SS_CONNECTED \<Rightarrow> client_state v = CLIS_CONNECTED
      | VPN_SS_WAITING_RECOVERY \<Rightarrow>
          rec_task (recovery v) \<noteq> None \<or> T_attempts_exhausted \<in> set (queue v)
      | VPN_SS_RECOVERING \<Rightarrow> attempting v
      | VPN_SS_WAITING_FOR_NETWORK \<Rightarrow> True)"

definition pinger_ok :: "Vpn \<Rightarrow> bool" where
  "pinger_ok v \<longleftrightarrow>
     (pinger v = PingerRunning \<longrightarrow>
        selected_endpoint v = None \<and> \<not> ping_failure_induces_location_unavailable v)"

definition control_inv :: "Vpn \<Rightarrow> bool" where
  "control_inv v \<longleftrightarrow> idle v \<and> pinger_ok v \<and> (\<exists>s. vs v = ss s \<and> progress s v)"

lemma control_invI: "idle v \<Longrightarrow> pinger_ok v \<Longrightarrow> vs v = ss s \<Longrightarrow> progress s v \<Longrightarrow> control_inv v"
  by (auto simp: control_inv_def)

lemma control_invE:
  assumes "control_inv v"
  obtains s where "idle v" "pinger_ok v" "vs v = ss s" "progress s v"
  using assms by (auto simp: control_inv_def)

text \<open>Both parts read only these fields.\<close>

lemma pinger_ok_cong:
  "pinger w = pinger v \<Longrightarrow> selected_endpoint w = selected_endpoint v \<Longrightarrow>
   ping_failure_induces_location_unavailable w = ping_failure_induces_location_unavailable v \<Longrightarrow>
   pinger_ok w = pinger_ok v"
  by (simp add: pinger_ok_def)

lemma progress_mono:
  "progress s v \<Longrightarrow> pinger w = pinger v \<Longrightarrow> client_state w = client_state v \<Longrightarrow>
   rec_task (recovery w) = rec_task (recovery v) \<Longrightarrow> set (queue v) \<subseteq> set (queue w) \<Longrightarrow> progress s w"
  by (cases s) (auto simp: progress_def attempting_def)

section \<open>What the member functions do\<close>

lemma emit_fields [simp]:
  "fsm (emit c v) = fsm v" "pinger (emit c v) = pinger v" "client_state (emit c v) = client_state v"
  "queue (emit c v) = queue v" "recovery (emit c v) = recovery v"
  "selected_endpoint (emit c v) = selected_endpoint v" "pending_error (emit c v) = pending_error v"
  "ping_failure_induces_location_unavailable (emit c v) = ping_failure_induces_location_unavailable v"
  "calls (emit c v) = c # calls v" "postponed_requests (emit c v) = postponed_requests v"
  "bypassed_connection_ids (emit c v) = bypassed_connection_ids v"
  "kill_switch_on (emit c v) = kill_switch_on v" "upstream_config (emit c v) = upstream_config v"
  "connect_retry_info (emit c v) = connect_retry_info v" "clock (emit c v) = clock v"
  by (simp_all add: emit_def)

lemma submit_fields [simp]:
  "fsm (submit t v) = fsm v" "pinger (submit t v) = pinger v" "client_state (submit t v) = client_state v"
  "queue (submit t v) = queue v @ [t]" "recovery (submit t v) = recovery v"
  "selected_endpoint (submit t v) = selected_endpoint v" "pending_error (submit t v) = pending_error v"
  "ping_failure_induces_location_unavailable (submit t v) = ping_failure_induces_location_unavailable v"
  "calls (submit t v) = calls v" "postponed_requests (submit t v) = postponed_requests v"
  "bypassed_connection_ids (submit t v) = bypassed_connection_ids v"
  "kill_switch_on (submit t v) = kill_switch_on v" "upstream_config (submit t v) = upstream_config v"
  "connect_retry_info (submit t v) = connect_retry_info v" "clock (submit t v) = clock v"
  by (simp_all add: submit_def)

lemma stop_pinging_fields [simp]:
  "fsm (stop_pinging v) = fsm v" "pinger (stop_pinging v) = PingerNone"
  "client_state (stop_pinging v) = client_state v" "queue (stop_pinging v) = queue v"
  "recovery (stop_pinging v) = recovery v" "selected_endpoint (stop_pinging v) = selected_endpoint v"
  "pending_error (stop_pinging v) = pending_error v"
  "ping_failure_induces_location_unavailable (stop_pinging v) = False"
  "postponed_requests (stop_pinging v) = postponed_requests v"
  "bypassed_connection_ids (stop_pinging v) = bypassed_connection_ids v"
  "kill_switch_on (stop_pinging v) = kill_switch_on v" "upstream_config (stop_pinging v) = upstream_config v"
  "connect_retry_info (stop_pinging v) = connect_retry_info v" "clock (stop_pinging v) = clock v"
  by (simp_all add: stop_pinging_def destroy_pinger_def)

lemma disconnect_client_fields [simp]:
  "fsm (disconnect_client v) = fsm v" "pinger (disconnect_client v) = pinger v"
  "client_state (disconnect_client v) = CLIS_DISCONNECTED" "queue (disconnect_client v) = queue v"
  "recovery (disconnect_client v) = recovery v" "selected_endpoint (disconnect_client v) = selected_endpoint v"
  "pending_error (disconnect_client v) = pending_error v"
  "ping_failure_induces_location_unavailable (disconnect_client v) = ping_failure_induces_location_unavailable v"
  "postponed_requests (disconnect_client v) = postponed_requests v"
  "bypassed_connection_ids (disconnect_client v) = bypassed_connection_ids v"
  "kill_switch_on (disconnect_client v) = kill_switch_on v"
  "upstream_config (disconnect_client v) = upstream_config v"
  "connect_retry_info (disconnect_client v) = connect_retry_info v" "clock (disconnect_client v) = clock v"
  by (cases "client_state v"; simp add: disconnect_client_def)+

lemma disconnect_fields [simp]:
  "fsm (disconnect v) = fsm v" "pinger (disconnect v) = PingerNone"
  "client_state (disconnect v) = CLIS_DISCONNECTED" "queue (disconnect v) = queue v"
  "recovery (disconnect v) = recovery v" "selected_endpoint (disconnect v) = selected_endpoint v"
  "pending_error (disconnect v) = pending_error v"
  "ping_failure_induces_location_unavailable (disconnect v) = False"
  "postponed_requests (disconnect v) = postponed_requests v"
  "bypassed_connection_ids (disconnect v) = bypassed_connection_ids v"
  "kill_switch_on (disconnect v) = kill_switch_on v" "upstream_config (disconnect v) = upstream_config v"
  "connect_retry_info (disconnect v) = connect_retry_info v" "clock (disconnect v) = clock v"
  by (simp_all add: disconnect_def)

lemma raise_state_fields [simp]:
  "pinger (raise_state v d) = pinger v" "client_state (raise_state v d) = client_state v"
  "queue (raise_state v d) = queue v" "recovery (raise_state v d) = recovery v"
  "selected_endpoint (raise_state v d) = selected_endpoint v"
  "ping_failure_induces_location_unavailable (raise_state v d) = ping_failure_induces_location_unavailable v"
  "postponed_requests (raise_state v d) = postponed_requests v"
  "bypassed_connection_ids (raise_state v d) = bypassed_connection_ids v"
  "kill_switch_on (raise_state v d) = kill_switch_on v"
  "upstream_config (raise_state v d) = upstream_config v"
  "connect_retry_info (raise_state v d) = connect_retry_info v" "clock (raise_state v d) = clock v"
  by (simp_all add: raise_state_def Let_def)

lemma enter_fields [simp]:
  "pinger (enter s act d v) = pinger (act v d)" "client_state (enter s act d v) = client_state (act v d)"
  "queue (enter s act d v) = queue (act v d)" "recovery (enter s act d v) = recovery (act v d)"
  "selected_endpoint (enter s act d v) = selected_endpoint (act v d)"
  "ping_failure_induces_location_unavailable (enter s act d v) =
     ping_failure_induces_location_unavailable (act v d)"
  "postponed_requests (enter s act d v) = postponed_requests (act v d)"
  "bypassed_connection_ids (enter s act d v) = bypassed_connection_ids (act v d)"
  "kill_switch_on (enter s act d v) = kill_switch_on (act v d)"
  "upstream_config (enter s act d v) = upstream_config (act v d)"
  "connect_retry_info (enter s act d v) = connect_retry_info (act v d)"
  "clock (enter s act d v) = clock (act v d)"
  by (simp_all add: enter_def)

lemma control_enter:
  "pinger_ok (act v d) \<Longrightarrow> progress s (act v d) \<Longrightarrow> control_inv (enter s act d v)"
  by (rule control_invI [of _ s])
    (simp_all add: pinger_ok_def progress_def attempting_def split: VpnSessionState.splits)

section \<open>What the actions establish\<close>

lemma run_ping_control:
  "pinger_ok (run_ping v d)" "attempting (run_ping v d)" "fsm (run_ping v d) = fsm v"
  by (simp_all add: run_ping_def cancel_recovery_task_def start_pinger_def pinger_ok_def attempting_def)

lemma run_client_connect_control:
  assumes "selected_endpoint v \<noteq> None"
  shows "attempting (run_client_connect a t v)"
  using assms by (auto simp: run_client_connect_def client_connect_result_def attempting_def)

lemma run_client_connect_fields [simp]:
  "fsm (run_client_connect a t v) = fsm v" "pinger (run_client_connect a t v) = pinger v"
  "selected_endpoint (run_client_connect a t v) = selected_endpoint v"
  "ping_failure_induces_location_unavailable (run_client_connect a t v) =
     ping_failure_induces_location_unavailable v"
  by (simp_all add: run_client_connect_def client_connect_result_def split: option.splits)

lemma run_client_connect_pinger_ok: "pinger_ok (run_client_connect a t v) = pinger_ok v"
  by (simp add: pinger_ok_def)

lemma complete_connect_fields:
  "fsm (complete_connect v d) = fsm v" "queue (complete_connect v d) = queue v"
  "pinger_ok v \<Longrightarrow> pinger_ok (complete_connect v d)"
  "\<not> has_error d \<Longrightarrow> client_state (complete_connect v d) = client_state v"
  by (simp_all add: complete_connect_def check_health_if_ok_def note_attempts_exceeded_def
      fail_with_error_def pinger_ok_def)

lemma retry_connect_control:
  "fsm (retry_connect v d) = fsm v" "pinger_ok (retry_connect v d)"
  "T_retry_connect \<in> set (queue (retry_connect v d))"
  by (simp_all add: retry_connect_def use_connect_attempt_def pinger_ok_def split: ConnectRetryInfo.splits)

lemma initiate_recovery_fields [simp]:
  "fsm (initiate_recovery v) = fsm v" "pinger (initiate_recovery v) = pinger v"
  "client_state (initiate_recovery v) = client_state v"
  "selected_endpoint (initiate_recovery v) = selected_endpoint v"
  "ping_failure_induces_location_unavailable (initiate_recovery v) =
     ping_failure_induces_location_unavailable v"
  by (simp_all add: initiate_recovery_def)

lemma initiate_recovery_progress: "progress VPN_SS_WAITING_RECOVERY (initiate_recovery v)"
  by (simp add: initiate_recovery_def progress_def)

lemma prepare_for_recovery_control:
  "progress VPN_SS_WAITING_RECOVERY (prepare_for_recovery v d)" "pinger_ok (prepare_for_recovery v d)"
  "progress VPN_SS_WAITING_RECOVERY (prepare_for_recovery_nc v d)" "pinger_ok (prepare_for_recovery_nc v d)"
  by (simp_all add: prepare_for_recovery_nc_def prepare_for_recovery_def initiate_recovery_progress pinger_ok_def)

lemma do_disconnect_control: "pinger_ok (do_disconnect v d)" "fsm (do_disconnect v d) = fsm v"
  by (simp_all add: do_disconnect_def pinger_ok_def)

lemma finalize_recovery_control:
  "pinger_ok (finalize_recovery v d)" "client_state (finalize_recovery v d) = client_state v"
  by (simp_all add: finalize_recovery_def complete_postponed_requests_eq reset_bypassed_connections_eq
      pinger_ok_def)

lemma on_wrong_connect_state_control: "pinger_ok (on_wrong_connect_state v d)"
  by (simp add: on_wrong_connect_state_def pinger_ok_def)

lemma progress_trivial [simp]: "progress VPN_SS_DISCONNECTED v" "progress VPN_SS_WAITING_FOR_NETWORK v"
  by (simp_all add: progress_def)

lemma progress_attempting:
  "attempting v \<Longrightarrow> progress VPN_SS_CONNECTING v" "attempting v \<Longrightarrow> progress VPN_SS_RECOVERING v"
  "T_retry_connect \<in> set (queue v) \<Longrightarrow> progress VPN_SS_CONNECTING v"
  "client_state v = CLIS_CONNECTED \<Longrightarrow> progress VPN_SS_CONNECTED v"
  by (simp_all add: progress_def)

lemmas action_control =
  run_ping_control run_client_connect_control run_client_connect_pinger_ok retry_connect_control
  prepare_for_recovery_control do_disconnect_control finalize_recovery_control
  on_wrong_connect_state_control progress_attempting

section \<open>Events keep the invariant\<close>

lemma do_connect_control:
  "idle v \<Longrightarrow> vs v = ss s \<Longrightarrow> control_inv (perform a CE_DO_CONNECT d v)"
  by (simp add: on_do_connect control_enter action_control)

lemma retry_connect_event_control:
  "idle v \<Longrightarrow> vs v = ss s \<Longrightarrow> pinger_ok v \<Longrightarrow> (s \<noteq> VPN_SS_CONNECTING \<Longrightarrow> progress s v) \<Longrightarrow>
   control_inv (perform a CE_RETRY_CONNECT d v)"
  by (auto simp: on_retry_connect action_control intro: control_invI [of _ s])

lemma ping_ready_control:
  assumes "idle v" "vs v = ss s" "pinger_ok v" "selected_endpoint v \<noteq> None"
    and "s \<noteq> VPN_SS_CONNECTING \<Longrightarrow> s \<noteq> VPN_SS_RECOVERING \<Longrightarrow> progress s v"
  shows "control_inv (perform a CE_PING_READY d v)"
  using assms
  by (intro control_invI [of _ s])
    (auto simp: on_ping_ready connect_client_def reconnect_client_def action_control pinger_ok_def)

lemma ping_fail_control:
  assumes "idle v" "vs v = ss s" "pinger_ok v"
    and "s \<noteq> VPN_SS_CONNECTING \<Longrightarrow> s \<noteq> VPN_SS_RECOVERING \<Longrightarrow> progress s v"
  shows "control_inv (perform a CE_PING_FAIL d v)"
  using assms
  by (auto simp: on_ping_fail action_control complete_connect_fields
      intro!: control_enter intro: control_invI [of _ s])

lemma client_ready_control:
  assumes "idle v" "vs v = ss s" "pinger_ok v" "client_state v = CLIS_CONNECTED"
    and "s \<noteq> VPN_SS_CONNECTING \<Longrightarrow> s \<noteq> VPN_SS_RECOVERING \<Longrightarrow> progress s v"
  shows "control_inv (perform a CE_CLIENT_READY NoData v)"
proof -
  have "\<not> has_error NoData" by (simp add: has_error_def)
  with assms show ?thesis
    by (auto simp: on_client_ready action_control complete_connect_fields
        intro!: control_enter intro: control_invI [of _ s])
qed

lemma client_disconnected_control:
  assumes "idle v" "vs v = ss s" "pinger_ok v"
    and "s = VPN_SS_WAITING_RECOVERY \<Longrightarrow> progress s v"
  shows "control_inv (perform a CE_CLIENT_DISCONNECTED d v)"
  using assms
  by (cases s)
    (auto simp: on_client_disconnected action_control complete_connect_fields
      intro!: control_enter intro: control_invI [of _ s])

lemma do_recovery_control:
  assumes "idle v" "vs v = ss s" "pinger_ok v" "s \<noteq> VPN_SS_WAITING_RECOVERY \<Longrightarrow> progress s v"
  shows "control_inv (perform a CE_DO_RECOVERY d v)"
  using assms
  by (auto simp: on_do_recovery need_to_ping_on_recovery_def connect_client_def action_control
      intro!: control_enter intro: control_invI [of _ s])

lemma shutdown_control:
  "idle v \<Longrightarrow> vs v = ss s \<Longrightarrow> control_inv (perform a CE_SHUTDOWN d v)"
  by (auto simp: on_shutdown action_control intro!: control_enter intro: control_invI [of _ s])

lemma network_change_control:
  assumes "idle v" "vs v = ss s" "pinger_ok v" "progress s v"
  shows "control_inv (perform a CE_NETWORK_CHANGE d v)"
  using assms
  by (cases s)
    (auto simp: on_network_change action_control complete_connect_fields fail_connect_with_no_attempts_def
      intro!: control_enter intro: control_invI [of _ s])

lemma start_listening_control:
  assumes "idle v" "vs v = ss s" "pinger_ok v" "progress s v"
  shows "control_inv (perform a CE_START_LISTENING d v)"
  using assms
  by (intro control_invI [of _ s])
    (auto simp: on_start_listening start_listening_def listen_outcome_def pinger_ok_def
      intro: progress_mono)

lemma abandon_endpoint_control:
  assumes "idle v" "vs v = ss s" "pinger_ok v" "s = VPN_SS_WAITING_RECOVERY \<Longrightarrow> progress s v"
  shows "control_inv (perform a CE_ABANDON_ENDPOINT d v)"
  using assms
  by (cases s)
    (auto simp: on_abandon_endpoint action_control complete_connect_fields
      intro!: control_enter intro: control_invI [of _ s])

lemma complete_request_control:
  assumes "idle v" "vs v = ss s" "pinger_ok v" "progress s v"
  shows "control_inv (perform a CE_COMPLETE_REQUEST d v)"
  using assms
  by (intro control_invI [of _ s])
    (auto simp: on_complete_request complete_request_def postpone_request_def reject_request_def
      bypass_until_connected_def pinger_ok_def intro: progress_mono)

lemmas event_control =
  do_connect_control retry_connect_event_control ping_ready_control ping_fail_control
  client_ready_control client_disconnected_control do_recovery_control shutdown_control
  network_change_control start_listening_control abandon_endpoint_control complete_request_control

section \<open>Steps keep the invariant\<close>

lemma set_endpoints_fields [simp]:
  "fsm (set_endpoints eps v) = fsm v" "pinger (set_endpoints eps v) = pinger v"
  "client_state (set_endpoints eps v) = client_state v" "queue (set_endpoints eps v) = queue v"
  "recovery (set_endpoints eps v) = recovery v"
  "selected_endpoint (set_endpoints eps v) = selected_endpoint v"
  "ping_failure_induces_location_unavailable (set_endpoints eps v) =
     ping_failure_induces_location_unavailable v"
  by (simp_all add: set_endpoints_def)

lemma session_error_fields [simp]:
  "fsm (session_error c m v) = fsm v" "pinger (session_error c m v) = pinger v"
  "client_state (session_error c m v) = client_state v" "queue (session_error c m v) = queue v"
  "recovery (session_error c m v) = recovery v"
  "selected_endpoint (session_error c m v) = selected_endpoint v"
  "ping_failure_induces_location_unavailable (session_error c m v) =
     ping_failure_induces_location_unavailable v"
  by (simp_all add: session_error_def)

text \<open>A task has left the queue: what progress remains.\<close>

lemma progress_without:
  assumes "progress s v" "set (queue v) \<subseteq> insert t (set (queue w))"
    and "pinger w = pinger v" "client_state w = client_state v"
    and "rec_task (recovery w) = rec_task (recovery v)"
    and "t = T_client_disconnected \<Longrightarrow> s \<noteq> VPN_SS_CONNECTING \<and> s \<noteq> VPN_SS_RECOVERING"
    and "t = T_retry_connect \<Longrightarrow> s \<noteq> VPN_SS_CONNECTING"
    and "t = T_attempts_exhausted \<Longrightarrow> s \<noteq> VPN_SS_WAITING_RECOVERY"
  shows "progress s w"
  using assms by (cases s) (auto simp: progress_def attempting_def)

lemma abandon_task_control:
  assumes "idle v" "pinger_ok v" "vs v = ss s" "progress s v"
  shows "control_inv (abandon_endpoint_task a ep v)"
proof -
  let ?eps = "remove_endpoint a ep (loc_endpoints (location (upstream_config v)))"
  let ?w = "set_endpoints ?eps (if is_selected a ep v then v\<lparr>selected_endpoint := None\<rparr> else v)"
  have not_running: "is_selected a ep v \<Longrightarrow> pinger v \<noteq> PingerRunning"
    using assms(2) by (auto simp: is_selected_def pinger_ok_def split: option.splits)
  have w: "idle ?w" "vs ?w = ss s" "pinger_ok ?w" "progress s ?w"
    using assms by (auto simp: pinger_ok_def elim: progress_mono)
  have "control_inv ?w" using w(1,3,2,4) by (rule control_invI)
  moreover have "control_inv (perform a CE_ABANDON_ENDPOINT NoData
      (set_endpoints [] (?w\<lparr>pending_error := e\<rparr>)))" for e
    using w by (intro abandon_endpoint_control [of _ s]) (auto simp: pinger_ok_def elim: progress_mono)
  moreover have "control_inv (perform a CE_ABANDON_ENDPOINT NoData
      (?w\<lparr>pending_error := e, ping_failure_induces_location_unavailable := True\<rparr>))"
    if "is_selected a ep v" for e
    using w not_running [OF that]
    by (intro abandon_endpoint_control [of _ s]) (auto simp: pinger_ok_def elim: progress_mono)
  ultimately show ?thesis
    unfolding abandon_endpoint_task_def Let_def by (simp split: if_splits)
qed

lemma force_reconnect_control:
  assumes "idle v" "pinger_ok v" "vs v = ss s" "progress s v"
  shows "control_inv (force_reconnect_task a v)"
proof -
  have "control_inv v" using assms by (rule control_invI)
  moreover have "control_inv (perform a CE_DO_CONNECT NoData (v\<lparr>pending_error := None\<rparr>))"
    using assms by (intro do_connect_control [of _ s]) simp_all
  moreover have "s = VPN_SS_WAITING_RECOVERY \<Longrightarrow> control_inv (perform a CE_DO_RECOVERY NoData v)"
    using assms by (intro do_recovery_control [of _ s]) simp_all
  moreover have "s \<noteq> VPN_SS_WAITING_RECOVERY \<Longrightarrow>
      control_inv (perform a CE_CLIENT_DISCONNECTED d (session_error c m v))" for d c m
    using assms by (intro client_disconnected_control [of _ s]) (simp_all add: pinger_ok_def)
  ultimately show ?thesis
    using assms(3) by (auto simp: force_reconnect_task_def session_in_def)
qed

lemma run_task_control:
  assumes "idle v" "pinger_ok v" "vs v = ss s" "progress s v" "queue v = t # ts"
  shows "control_inv (run_task a t (v\<lparr>queue := ts\<rparr>))"
proof -
  have ok: "pinger_ok (v\<lparr>queue := ts\<rparr>)" using assms(2) by (simp add: pinger_ok_def)
  note keep = progress_without [OF assms(4), of t "v\<lparr>queue := ts\<rparr>"]
  show ?thesis
  proof (cases t)
    case T_client_disconnected
    then show ?thesis using assms ok keep by (auto intro!: client_disconnected_control [of _ s])
  next
    case T_retry_connect
    then show ?thesis using assms ok keep by (auto intro!: retry_connect_event_control [of _ s])
  next
    case T_attempts_exhausted
    then show ?thesis using assms by (auto intro!: shutdown_control [of _ s])
  next
    case (T_abandon_endpoint ep)
    then show ?thesis using assms ok keep by (auto intro!: abandon_task_control [of _ s])
  next
    case T_force_reconnect
    then show ?thesis using assms ok keep by (auto intro!: force_reconnect_control [of _ s])
  next
    case (T_connect cfg retry)
    then show ?thesis using assms by (auto intro!: do_connect_control [of _ s])
  next
    case (T_network_change st)
    then show ?thesis
      using assms ok keep by (auto simp: pinger_ok_def intro!: network_change_control [of _ s] elim: progress_mono)
  next
    case T_listen
    then show ?thesis using assms ok keep by (auto intro!: start_listening_control [of _ s])
  next
    case (T_complete_request r)
    then show ?thesis
      using assms ok keep
      by (auto simp: complete_connect_request_task_def pinger_ok_def
          intro!: complete_request_control [of _ s] elim: progress_mono)
  next
    case (T_force_disconnect b)
    then show ?thesis using assms by (auto intro!: shutdown_control [of _ s])
  next
    case T_shutdown
    then show ?thesis using assms by (auto intro!: shutdown_control [of _ s])
  next
    case (T_listen_failed e)
    then show ?thesis using assms by (auto intro!: shutdown_control [of _ s])
  qed (use assms ok keep in \<open>auto simp: pinger_ok_def intro!: control_invI [of _ s] elim: progress_mono\<close>)
qed

lemma expire_fold_fields [simp]:
  "fsm (fold expire_request rs v) = fsm v" "pinger (fold expire_request rs v) = pinger v"
  "client_state (fold expire_request rs v) = client_state v"
  "queue (fold expire_request rs v) = queue v" "recovery (fold expire_request rs v) = recovery v"
  "selected_endpoint (fold expire_request rs v) = selected_endpoint v"
  "ping_failure_induces_location_unavailable (fold expire_request rs v) =
     ping_failure_induces_location_unavailable v"
  "kill_switch_on (fold expire_request rs v) = kill_switch_on v"
  by (induction rs arbitrary: v) (simp_all add: expire_request_def)

lemma pinger_handler_control:
  assumes "control_inv v"
  shows "control_inv (pinger_handler a r (v\<lparr>pinger := PingerReported\<rparr>))"
proof -
  obtain s where s: "idle v" "vs v = ss s" "progress s v"
    using assms by (rule control_invE)
  let ?w = "forget_endpoint (v\<lparr>pinger := PingerReported\<rparr>)"
  have keep: "s \<noteq> VPN_SS_CONNECTING \<Longrightarrow> s \<noteq> VPN_SS_RECOVERING \<Longrightarrow> progress s w"
    if "client_state w = client_state v" "recovery w = recovery v" "queue w = queue v" for w
    using s(3) that by (cases s) (auto simp: progress_def)
  have "control_inv (perform a CE_PING_FAIL d ?w)" for d
    using s by (intro ping_fail_control [of _ s] keep) (simp_all add: forget_endpoint_def pinger_ok_def)
  moreover have "control_inv (perform a CE_PING_FAIL d (?w\<lparr>ping_failure_induces_location_unavailable := b\<rparr>))" for d b
    using s by (intro ping_fail_control [of _ s] keep) (simp_all add: forget_endpoint_def pinger_ok_def)
  moreover have "control_inv (perform a CE_PING_READY NoData (select_endpoint r ?w))"
    using s
    by (intro ping_ready_control [of _ s] keep) (simp_all add: forget_endpoint_def select_endpoint_def pinger_ok_def)
  ultimately show ?thesis by (simp add: pinger_handler_def Let_def)
qed

lemma client_handler_control:
  assumes "control_inv v"
  shows "control_inv (client_handler a e v)"
proof -
  obtain s where s: "idle v" "pinger_ok v" "vs v = ss s" "progress s v"
    using assms by (rule control_invE)
  have emitted: "control_inv (emit c v)" for c
    using s by (intro control_invI [of _ s]) (auto simp: pinger_ok_def elim: progress_mono)
  have "control_inv (perform a CE_CLIENT_READY NoData (v\<lparr>client_state := CLIS_CONNECTED\<rparr>))"
    using s by (intro client_ready_control [of _ s]) (auto simp: pinger_ok_def progress_def split: VpnSessionState.splits)
  moreover have "control_inv (perform a CE_CLIENT_DISCONNECTED d (v\<lparr>client_state := CLIS_DISCONNECTED\<rparr>))" for d
    using s by (intro client_disconnected_control [of _ s]) (auto simp: pinger_ok_def progress_def)
  ultimately show ?thesis by (cases e) (simp_all add: emitted)
qed

lemma submitted_control:
  assumes "control_inv v"
  shows "control_inv (submit t v)" "control_inv (submit_unchecked t v)" "control_inv (submit_if_active t v)"
    "control_inv (emit c v)" "control_inv (submit t (v\<lparr>executor_running := e, loop_alive := l\<rparr>))"
proof -
  obtain s where s: "idle v" "pinger_ok v" "vs v = ss s" "progress s v"
    using assms by (rule control_invE)
  show "control_inv (submit t v)" "control_inv (submit_unchecked t v)" "control_inv (submit_if_active t v)"
    "control_inv (emit c v)" "control_inv (submit t (v\<lparr>executor_running := e, loop_alive := l\<rparr>))"
    using s
    by (auto simp: submit_unchecked_def submit_if_active_def pinger_ok_def
        intro!: control_invI [of _ s] elim: progress_mono)
qed

lemma recovery_task_control:
  assumes "control_inv v"
  shows "control_inv (recovery_task_cb a v)"
proof -
  obtain s where s: "idle v" "pinger_ok v" "vs v = ss s" "progress s v"
    using assms by (rule control_invE)
  then show ?thesis
    unfolding recovery_task_cb_def
    by (intro do_recovery_control [of _ s])
      (auto simp: begin_attempt_def pinger_ok_def progress_def attempting_def split: VpnSessionState.splits)
qed

lemma window_timer_control:
  assumes "control_inv v"
  shows "control_inv (postponement_window_timer_cb v)"
proof -
  obtain s where "idle v" "pinger_ok v" "vs v = ss s" "progress s v"
    using assms by (rule control_invE)
  then show ?thesis
    by (intro control_invI [of _ s])
      (auto simp: postponement_window_timer_cb_def pinger_ok_def elim: progress_mono)
qed

lemma stop_control: "control_inv (vpn_stop a n v)"
  by (rule control_invI [of _ VPN_SS_DISCONNECTED])
    (simp_all add: vpn_stop_def vpn_stop_cleanup_def drop_tasks_def fsm_reset_def pinger_ok_def)

lemma cancel_exclusions_control:
  assumes "control_inv v"
  shows "control_inv (cancel_exclusions_task v)"
proof -
  obtain s where s: "idle v" "pinger_ok v" "vs v = ss s" "progress s v"
    using assms by (rule control_invE)
  then show ?thesis
    by (intro control_invI [of _ s])
      (auto simp: cancel_exclusions_task_def pinger_ok_def progress_def attempting_def
        split: VpnSessionState.splits)
qed

lemma loop_failure_control:
  assumes "control_inv v"
  shows "control_inv (event_loop_failure a v)"
proof -
  obtain s where "idle v" "vs v = ss s" using assms by (rule control_invE)
  then show ?thesis by (simp add: event_loop_failure_def session_error_def shutdown_control [of _ s])
qed

lemma run_front_control:
  assumes "control_inv v"
  shows "control_inv (run_front a v)"
proof -
  obtain s where "idle v" "pinger_ok v" "vs v = ss s" "progress s v"
    using assms by (rule control_invE)
  then show ?thesis
    using assms by (cases "queue v") (auto simp: run_front_def intro: run_task_control)
qed

lemma vpn_step_control:
  assumes "vpn_step v w" "control_inv v"
  shows "control_inv w"
  using assms(1)
proof cases
  case (step_time t)
  obtain s where "idle v" "pinger_ok v" "vs v = ss s" "progress s v"
    using assms(2) by (rule control_invE)
  then show ?thesis
    using step_time by (intro control_invI [of _ s]) (auto simp: pinger_ok_def elim: progress_mono)
qed (use assms(2) in \<open>auto simp: vpn_connect_def vpn_listen_def Let_def vpn_force_reconnect_def
      vpn_force_disconnect_def vpn_complete_connect_request_def vpn_update_exclusions_def
      vpn_reset_connections_def vpn_notify_network_change_def vpn_request_endpoint_connection_stats_def
      vpn_abandon_endpoint_def vpn_notify_sleep_def vpn_notify_wake_def
      vpn_process_client_packets_def simp del: client_handler.simps
      intro: run_front_control recovery_task_control window_timer_control pinger_handler_control
        client_handler_control submitted_control stop_control cancel_exclusions_control
        loop_failure_control\<close>)

lemma vpn_reachable_control: "vpn_reachable v \<Longrightarrow> control_inv v"
proof (induction rule: vpn_reachable.induct)
  case (reach_init k t)
  show ?case
    by (rule control_invI [of _ VPN_SS_DISCONNECTED]) (simp_all add: Vpn_new_def pinger_ok_def)
next
  case (reach_step v w)
  then show ?case by (blast intro: vpn_step_control)
qed

end
