(* ===== verification/Vpn_Log.thy ===== *)
theory Vpn_Log
  imports Vpn_Control
begin

text \<open>
  What the application and the tunnel see of a session, as predicates on the list of calls:
  the states that are raised follow the state diagram and the last one is the state of the
  machine; every connection request is answered once or held back; with the kill switch on, no
  request is let past the tunnel unless its own action says so.
\<close>

section \<open>Reading the calls\<close>

text \<open>The last raised state; a stopped session counts as disconnected.\<close>

fun reported :: "Call list \<Rightarrow> FsmState" where
  "reported [] = ss VPN_SS_DISCONNECTED"
| "reported (C_state_changed e # cs) = ev_state e"
| "reported (C_stopped # cs) = ss VPN_SS_DISCONNECTED"
| "reported (_ # cs) = reported cs"

text \<open>The state diagram.\<close>

fun successors :: "VpnSessionState \<Rightarrow> VpnSessionState list" where
  "successors VPN_SS_DISCONNECTED = [VPN_SS_CONNECTING]"
| "successors VPN_SS_CONNECTING =
     [VPN_SS_CONNECTED, VPN_SS_DISCONNECTED, VPN_SS_WAITING_RECOVERY, VPN_SS_WAITING_FOR_NETWORK]"
| "successors VPN_SS_CONNECTED =
     [VPN_SS_WAITING_RECOVERY, VPN_SS_WAITING_FOR_NETWORK, VPN_SS_DISCONNECTED]"
| "successors VPN_SS_WAITING_RECOVERY =
     [VPN_SS_RECOVERING, VPN_SS_WAITING_FOR_NETWORK, VPN_SS_DISCONNECTED]"
| "successors VPN_SS_RECOVERING =
     [VPN_SS_CONNECTED, VPN_SS_WAITING_RECOVERY, VPN_SS_WAITING_FOR_NETWORK, VPN_SS_DISCONNECTED]"
| "successors VPN_SS_WAITING_FOR_NETWORK =
     [VPN_SS_CONNECTING, VPN_SS_WAITING_RECOVERY, VPN_SS_DISCONNECTED]"

definition edge :: "FsmState \<Rightarrow> FsmState \<Rightarrow> bool" where
  "edge x y \<longleftrightarrow> (\<exists>s t. x = ss s \<and> y = ss t \<and> t \<in> set (successors s))"

fun follows_diagram :: "Call list \<Rightarrow> bool" where
  "follows_diagram [] = True"
| "follows_diagram (C_state_changed e # cs) = (edge (reported cs) (ev_state e) \<and> follows_diagram cs)"
| "follows_diagram (_ # cs) = follows_diagram cs"

text \<open>The requests taken in and not answered yet; a stopped session drops them.\<close>

fun unanswered :: "Call list \<Rightarrow> int" where
  "unanswered [] = 0"
| "unanswered (C_finalize_action i x # cs) = unanswered cs + 1"
| "unanswered (C_complete_request i x # cs) = unanswered cs - 1"
| "unanswered (C_reject_request i # cs) = unanswered cs - 1"
| "unanswered (C_stopped # cs) = 0"
| "unanswered (_ # cs) = unanswered cs"

text \<open>Every forced bypass answers a request whose final action was a forced bypass.\<close>

fun no_leak :: "Call list \<Rightarrow> bool" where
  "no_leak [] = True"
| "no_leak (C_complete_request i x # cs) =
     ((x = Some VPN_CA_FORCE_BYPASS \<longrightarrow> C_finalize_action i (Some VPN_CA_FORCE_BYPASS) \<in> set cs) \<and>
      no_leak cs)"
| "no_leak (_ # cs) = no_leak cs"

text \<open>Calls that none of the readings looks at.\<close>

fun quiet :: "Call \<Rightarrow> bool" where
  "quiet (C_state_changed e) = False"
| "quiet C_stopped = False"
| "quiet (C_finalize_action i x) = False"
| "quiet (C_complete_request i x) = False"
| "quiet (C_reject_request i) = False"
| "quiet _ = True"

lemma quiet_readings:
  assumes "\<forall>c \<in> set xs. quiet c"
  shows "reported (xs @ cs) = reported cs" "follows_diagram (xs @ cs) = follows_diagram cs"
    "unanswered (xs @ cs) = unanswered cs" "no_leak (xs @ cs) = no_leak cs"
proof -
  have one: "quiet c \<Longrightarrow> reported (c # cs) = reported cs \<and> follows_diagram (c # cs) = follows_diagram cs \<and>
      unanswered (c # cs) = unanswered cs \<and> no_leak (c # cs) = no_leak cs" for c cs
    by (cases c) simp_all
  from assms have "reported (xs @ cs) = reported cs \<and> follows_diagram (xs @ cs) = follows_diagram cs \<and>
      unanswered (xs @ cs) = unanswered cs \<and> no_leak (xs @ cs) = no_leak cs"
    by (induction xs) (auto simp: one)
  then show "reported (xs @ cs) = reported cs" "follows_diagram (xs @ cs) = follows_diagram cs"
    "unanswered (xs @ cs) = unanswered cs" "no_leak (xs @ cs) = no_leak cs" by auto
qed

section \<open>The invariant\<close>

definition log_inv :: "Vpn \<Rightarrow> bool" where
  "log_inv v \<longleftrightarrow>
     follows_diagram (calls v) \<and>
     unanswered (calls v) = int (length (postponed_requests v)) \<and>
     (\<forall>r \<in> set (postponed_requests v). req_action r \<noteq> Some VPN_CA_FORCE_BYPASS) \<and>
     (kill_switch_on v \<longrightarrow> no_leak (calls v) \<and> bypassed_connection_ids v = [])"

text \<open>\<open>quietly v w\<close>: between \<open>v\<close> and \<open>w\<close> nothing happened that the readings see.\<close>

definition quietly :: "Vpn \<Rightarrow> Vpn \<Rightarrow> bool" where
  "quietly v w \<longleftrightarrow>
     (\<exists>xs. calls w = xs @ calls v \<and> (\<forall>c \<in> set xs. quiet c)) \<and>
     postponed_requests w = postponed_requests v \<and>
     bypassed_connection_ids w = bypassed_connection_ids v \<and> kill_switch_on w = kill_switch_on v"

lemma quietly_refl [simp, intro]: "quietly v v"
  by (auto simp: quietly_def intro: exI [of _ "[]"])

lemma quietly_trans [trans]:
  assumes "quietly u v" "quietly v w"
  shows "quietly u w"
proof -
  obtain xs ys where "calls v = xs @ calls u" "\<forall>c \<in> set xs. quiet c"
    "calls w = ys @ calls v" "\<forall>c \<in> set ys. quiet c"
    using assms by (auto simp: quietly_def)
  then have "calls w = (ys @ xs) @ calls u \<and> (\<forall>c \<in> set (ys @ xs). quiet c)" by auto
  then show ?thesis using assms unfolding quietly_def by metis
qed

lemma quietly_log_inv:
  assumes "quietly v w"
  shows "log_inv w = log_inv v" "reported (calls w) = reported (calls v)"
  using assms by (auto simp: quietly_def log_inv_def quiet_readings)

lemma quietly_same [intro]:
  "calls w = calls v \<Longrightarrow> postponed_requests w = postponed_requests v \<Longrightarrow>
   bypassed_connection_ids w = bypassed_connection_ids v \<Longrightarrow> kill_switch_on w = kill_switch_on v \<Longrightarrow>
   quietly v w"
  by (auto simp: quietly_def intro: exI [of _ "[]"])

lemma quietly_emit: "quiet c \<Longrightarrow> quietly v w \<Longrightarrow> quietly v (emit c w)"
  by (auto simp: quietly_def intro: exI [of _ "c # xs" for xs])

lemma quietly_submit [simp]: "quietly v w \<Longrightarrow> quietly v (submit t w)"
  by (simp add: quietly_def)

section \<open>Quiet actions\<close>

lemma disconnect_quietly: "quietly v (stop_pinging v)" "quietly v (disconnect_client v)" "quietly v (disconnect v)"
proof -
  show 1: "quietly v (stop_pinging v)" for v
    by (auto simp: quietly_def stop_pinging_def destroy_pinger_def intro: exI [of _ "[C_pinger_stop]"] exI [of _ "[]"])
  show 2: "quietly v (disconnect_client v)" for v
    by (cases "client_state v")
      (auto simp: quietly_def disconnect_client_def intro: exI [of _ "[C_client_disconnect]"] exI [of _ "[]"])
  show "quietly v (disconnect v)"
    unfolding disconnect_def by (rule quietly_trans [OF 1 2])
qed

lemma run_ping_quietly: "quietly v (run_ping v d)"
  by (auto simp: run_ping_def cancel_recovery_task_def start_pinger_def quietly_def stop_pinging_def
      destroy_pinger_def intro: exI [of _ "[C_pinger_start x, C_pinger_stop]" for x] exI [of _ "[C_pinger_start x]" for x])

lemma run_client_connect_quietly: "quietly v (run_client_connect a t v)"
  by (cases "selected_endpoint v")
    (auto simp: run_client_connect_def client_connect_result_def quietly_def
      intro: exI [of _ "[C_client_connect x y]" for x y] exI [of _ "[]"])

lemma initiate_recovery_quietly: "quietly v (initiate_recovery v)"
  by (auto simp: initiate_recovery_def intro: quietly_same)

lemma update_quietly:
  "quietly v w \<Longrightarrow> quietly v (w\<lparr>recovery := r\<rparr>)" "quietly v w \<Longrightarrow> quietly v (w\<lparr>pending_error := e\<rparr>)"
  by (simp_all add: quietly_def)

lemma note_error_quietly: "quietly v (note_error v d)"
  by (auto simp: note_error_def)

lemma complete_connect_quietly: "quietly v (complete_connect v d)"
proof -
  have "quietly v (fail_with_error v d)"
    by (simp add: fail_with_error_def disconnect_quietly update_quietly)
  then have "quietly v (note_attempts_exceeded (fail_with_error v d) d)"
    by (simp add: note_attempts_exceeded_def update_quietly)
  then show ?thesis
    by (simp add: complete_connect_def check_health_if_ok_def update_quietly quietly_emit)
qed

lemma retry_connect_quietly: "quietly v (retry_connect v d)"
proof -
  have "quietly v (use_connect_attempt v)"
    by (auto simp: use_connect_attempt_def split: ConnectRetryInfo.splits)
  then show ?thesis
    unfolding retry_connect_def by (blast intro: quietly_submit quietly_trans disconnect_quietly)
qed

lemma prepare_for_recovery_quietly:
  "quietly v (prepare_for_recovery v d)" "quietly v (prepare_for_recovery_nc v d)"
  unfolding prepare_for_recovery_nc_def prepare_for_recovery_def
  by (blast intro: quietly_trans note_error_quietly disconnect_quietly initiate_recovery_quietly)+

lemma do_disconnect_quietly: "quietly v (do_disconnect v d)"
  unfolding do_disconnect_def
  by (rule quietly_trans [OF _ disconnect_quietly(3)]) (auto intro: quietly_same)

lemma other_actions_quietly:
  "quietly v (connect_client a v d)" "quietly v (fail_connect_with_no_attempts v d)"
  "quietly v (reconnect_client a v d)" "quietly v (start_listening a v d)"
  "quietly v (on_wrong_connect_state v d)"
  by (auto simp: connect_client_def fail_connect_with_no_attempts_def reconnect_client_def
      start_listening_def listen_outcome_def on_wrong_connect_state_def complete_connect_quietly
      intro!: run_client_connect_quietly quietly_submit quietly_emit update_quietly
      intro: disconnect_quietly quietly_trans [OF disconnect_quietly(2) run_client_connect_quietly])

lemmas actions_quietly =
  run_ping_quietly complete_connect_quietly retry_connect_quietly prepare_for_recovery_quietly
  do_disconnect_quietly other_actions_quietly

section \<open>Events\<close>

definition session_log :: "Vpn \<Rightarrow> bool" where
  "session_log v \<longleftrightarrow> log_inv v \<and> reported (calls v) = vs v"

lemma session_log_quietly: "session_log v \<Longrightarrow> quietly v w \<Longrightarrow> fsm w = fsm v \<Longrightarrow> session_log w"
  by (simp add: session_log_def quietly_log_inv)

lemma calls_raise_state:
  "\<exists>e. calls (raise_state v d) = C_state_changed e # calls v \<and> ev_state e = vs v"
  by (simp add: raise_state_def state_event_def Let_def)

lemma log_enter:
  assumes "log_inv (act v d)" "reported (calls (act v d)) = ss s" "t \<in> set (successors s)"
  shows "session_log (enter t act d v)"
proof -
  let ?w = "fsm_update (\<lambda>_. \<lparr>m_current_state = ss t, m_recursive = False\<rparr>) (act v d)"
  obtain e where e: "calls (enter t act d v) = C_state_changed e # calls (act v d)" "ev_state e = ss t"
    using calls_raise_state [of ?w d] by (auto simp: enter_def)
  have "edge (reported (calls (act v d))) (ev_state e)"
    using assms e unfolding edge_def by auto
  then show ?thesis
    using assms(1) e by (simp add: session_log_def log_inv_def)
qed

lemma log_enter_quietly:
  assumes "quietly v (act v d)" "session_log v" "vs v = ss s" "t \<in> set (successors s)"
  shows "session_log (enter t act d v)"
  using assms by (intro log_enter [of _ _ _ s]) (auto simp: session_log_def quietly_log_inv)

lemma fsm_actions:
  "fsm (run_ping v d) = fsm v" "fsm (retry_connect v d) = fsm v" "fsm (do_disconnect v d) = fsm v"
  "fsm (connect_client a v d) = fsm v" "fsm (reconnect_client a v d) = fsm v"
  "fsm (start_listening a v d) = fsm v"
  by (simp_all add: action_control connect_client_def reconnect_client_def start_listening_def listen_outcome_def)

lemma staying_actions_log:
  assumes "session_log v"
  shows "session_log (run_ping v d)" "session_log (retry_connect v d)" "session_log (do_disconnect v d)"
    "session_log (connect_client a v d)" "session_log (reconnect_client a v d)"
    "session_log (start_listening a v d)"
  by (rule session_log_quietly [OF assms]; simp add: actions_quietly fsm_actions)+

lemma finalize_recovery_log:
  assumes "log_inv v"
  shows "log_inv (finalize_recovery v d)" "reported (calls (finalize_recovery v d)) = reported (calls v)"
proof -
  let ?u = "(stop_pinging ((emit C_update_bypass_ip v)\<lparr>recovery := recovery_init\<rparr>))\<lparr>postponement_window_timer := None\<rparr>"
  have "quietly ((emit C_update_bypass_ip v)\<lparr>recovery := recovery_init\<rparr>) ?u"
    using disconnect_quietly(1) [of "(emit C_update_bypass_ip v)\<lparr>recovery := recovery_init\<rparr>"]
    by (simp add: quietly_def)
  then have "quietly v ?u"
    by (rule quietly_trans [rotated]) (auto intro!: update_quietly quietly_emit)
  then have u: "log_inv ?u" "reported (calls ?u) = reported (calls v)"
    using assms quietly_log_inv by blast+
  have completes: "reported (rev (map (\<lambda>r. C_complete_request (req_id r) (req_action r)) rs) @ cs) = reported cs \<and>
      follows_diagram (rev (map (\<lambda>r. C_complete_request (req_id r) (req_action r)) rs) @ cs) = follows_diagram cs \<and>
      unanswered (rev (map (\<lambda>r. C_complete_request (req_id r) (req_action r)) rs) @ cs) =
        unanswered cs - int (length rs) \<and>
      ((\<forall>r \<in> set rs. req_action r \<noteq> Some VPN_CA_FORCE_BYPASS) \<longrightarrow>
        no_leak (rev (map (\<lambda>r. C_complete_request (req_id r) (req_action r)) rs) @ cs) = no_leak cs)"
    for rs cs
    by (induction rs arbitrary: cs) auto
  have resets: "\<forall>c \<in> set (rev (map C_reset_connection ids)). quiet c" for ids by auto
  show "log_inv (finalize_recovery v d)" "reported (calls (finalize_recovery v d)) = reported (calls v)"
    using u unfolding finalize_recovery_def complete_postponed_requests_eq reset_bypassed_connections_eq
    by (auto simp: log_inv_def quiet_readings [OF resets] completes)
qed

text \<open>
  A request comes in as a finalized action on top of the calls; the invariant of the calls
  before it is what the answer restores.
\<close>

lemma complete_request_log:
  assumes "idle v" "vs v = ss s" "session_log v"
  shows "session_log (complete_connect_request_task a r v)"
proof -
  let ?x = "finalize_action a r"
  let ?w = "emit (C_finalize_action (req_id r) ?x) v"
  let ?d = "ReqData (r\<lparr>req_action := ?x\<rparr>)"
  have w: "perform a CE_COMPLETE_REQUEST ?d ?w =
     (if can_complete a ?w ?d then complete_request ?w ?d
      else if should_postpone ?w ?d then postpone_request ?w ?d
      else if is_kill_switch_on ?w ?d then reject_request ?w ?d
      else bypass_until_connected ?w ?d)"
    using assms by (intro on_complete_request [of _ s]) simp_all
  have no_bypass: "\<not> can_complete a ?w ?d \<Longrightarrow> ?x \<noteq> Some VPN_CA_FORCE_BYPASS"
    by (auto simp: can_complete_def)
  show ?thesis
    unfolding complete_connect_request_task_def w
    using assms(3) no_bypass
    by (auto simp: session_log_def log_inv_def complete_request_def postpone_request_def
        reject_request_def bypass_until_connected_def is_kill_switch_on_def)
qed

lemma event_log:
  assumes "idle v" "vs v = ss s" "session_log v" "ev \<noteq> CE_COMPLETE_REQUEST"
  shows "session_log (perform a ev d v)"
proof -
  note leave = log_enter_quietly [OF _ assms(3,2)]
  note stay = staying_actions_log [OF assms(3)]
  have recovered: "s = VPN_SS_RECOVERING \<Longrightarrow> session_log (enter VPN_SS_CONNECTED finalize_recovery d v)"
    using assms finalize_recovery_log [of v d]
    by (intro log_enter [of _ _ _ s]) (auto simp: session_log_def)
  show ?thesis
  proof (cases ev)
    case CE_NETWORK_CHANGE
    then show ?thesis
      using assms recovered
      by (cases s) (auto simp: on_network_change intro!: leave simp: actions_quietly stay)
  next
    case CE_CLIENT_DISCONNECTED
    then show ?thesis
      using assms recovered
      by (cases s) (auto simp: on_client_disconnected intro!: leave simp: actions_quietly stay)
  next
    case CE_ABANDON_ENDPOINT
    then show ?thesis
      using assms recovered
      by (cases s) (auto simp: on_abandon_endpoint intro!: leave simp: actions_quietly stay)
  next
    case CE_DO_CONNECT
    then show ?thesis
      using assms
      by (cases s) (auto simp: on_do_connect intro!: leave simp: actions_quietly)
  next
    case CE_SHUTDOWN
    then show ?thesis
      using assms
      by (cases s) (auto simp: on_shutdown intro!: leave simp: actions_quietly stay)
  next
    case CE_COMPLETE_REQUEST
    then show ?thesis using assms(4) by simp
  qed (use assms recovered in \<open>auto simp: on_retry_connect on_ping_ready on_ping_fail on_client_ready
      on_do_recovery on_start_listening actions_quietly stay intro!: leave\<close>)
qed

section \<open>Steps\<close>

definition session_inv :: "Vpn \<Rightarrow> bool" where
  "session_inv v \<longleftrightarrow> control_inv v \<and> session_log v"

lemma session_invE:
  assumes "session_inv v"
  obtains s where "idle v" "vs v = ss s" "session_log v"
  using assms by (auto simp: session_inv_def control_inv_def)

lemma quiet_then_event_log:
  assumes "session_inv v" "quietly v w" "fsm w = fsm v" "ev \<noteq> CE_COMPLETE_REQUEST"
  shows "session_log (perform a ev d w)"
proof -
  obtain s where s: "idle v" "vs v = ss s" "session_log v" using assms(1) by (rule session_invE)
  then show ?thesis
    using assms session_log_quietly [OF s(3) assms(2,3)] by (intro event_log [of _ s]) simp_all
qed

lemma queue_update_inv:
  assumes "session_inv v" shows "session_log (v\<lparr>queue := q\<rparr>)"
  using assms by (auto simp: session_inv_def intro!: session_log_quietly [of v])

lemma run_task_log:
  assumes "session_inv v"
  shows "session_log (run_task a t (v\<lparr>queue := q\<rparr>))"
proof -
  obtain s where s: "idle v" "vs v = ss s" "session_log v" using assms by (rule session_invE)
  note event = quiet_then_event_log [OF assms]
  note stay = session_log_quietly [OF s(3)]
  have base: "quietly v (v\<lparr>queue := q\<rparr>)" by auto
  have log: "session_log (v\<lparr>queue := q\<rparr>)" using assms by (rule queue_update_inv)
  show ?thesis
  proof (cases t)
    case (T_complete_request r)
    then show ?thesis using s log by (auto intro!: complete_request_log [of _ s])
  next
    case (T_abandon_endpoint ep)
    have "session_log (v\<lparr>queue := q, upstream_config := u\<rparr>)" for u by (auto intro!: stay)
    with T_abandon_endpoint show ?thesis
      by (auto simp: abandon_endpoint_task_def Let_def set_endpoints_def intro!: event)
  next
    case T_force_reconnect
    then show ?thesis
      using log by (auto simp: force_reconnect_task_def session_error_def intro!: event)
  next
    case (T_connect c r)
    then show ?thesis by (auto simp: quietly_def intro!: event exI [of _ "[C_update_parameters]"])
  next
    case (T_network_change st)
    then show ?thesis by (auto simp: quietly_def intro!: event exI [of _ "[C_network_change]"])
  next
    case (T_update_exclusions m e)
    then show ?thesis by (auto intro!: stay quietly_emit base)
  next
    case (T_reset_connections uid)
    then show ?thesis by (auto intro!: stay quietly_emit base)
  next
    case T_connection_stats
    then show ?thesis by (auto intro!: stay quietly_emit base)
  next
    case T_sleep
    then show ?thesis by (auto intro!: stay quietly_emit quietly_submit base)
  next
    case T_sleep_completed
    then show ?thesis by (auto intro!: stay quietly_emit base)
  next
    case T_wake
    then show ?thesis by (auto intro!: stay quietly_emit base)
  next
    case (T_client_packets ps)
    then show ?thesis by (auto intro!: stay quietly_emit base)
  qed (auto simp: session_error_def intro!: event)
qed

lemma run_front_inv:
  assumes "session_inv v"
  shows "session_inv (run_front a v)"
proof (cases "queue v")
  case Nil
  then show ?thesis using assms by (simp add: run_front_def)
next
  case (Cons t ts)
  then have "session_log (run_front a v)" using run_task_log [OF assms] by (simp add: run_front_def)
  then show ?thesis using assms run_front_control by (simp add: session_inv_def)
qed

lemma pinger_handler_log:
  assumes "session_inv v"
  shows "session_log (pinger_handler a r (v\<lparr>pinger := PingerReported\<rparr>))"
  by (auto simp: pinger_handler_def Let_def forget_endpoint_def select_endpoint_def
      intro!: quiet_then_event_log [OF assms] quietly_emit)

lemma client_handler_log:
  assumes "session_inv v"
  shows "session_log (client_handler a e v)"
proof -
  obtain s where "session_log v" using assms by (rule session_invE)
  then have "quiet c \<Longrightarrow> session_log (emit c v)" for c
    by (auto intro!: session_log_quietly [of v] quietly_emit)
  then show ?thesis by (cases e) (auto intro!: quiet_then_event_log [OF assms])
qed

lemma expire_fold:
  "\<exists>xs. calls (fold expire_request rs v) = xs @ calls v \<and> length xs = length rs \<and>
     (\<forall>c \<in> set xs. if kill_switch_on v then \<exists>i. c = C_reject_request i
                 else \<exists>i. c = C_complete_request i (Some VPN_CA_FORCE_BYPASS)) \<and>
     (kill_switch_on v \<longrightarrow> bypassed_connection_ids (fold expire_request rs v) = bypassed_connection_ids v)"
proof (induction rs arbitrary: v)
  case Nil
  then show ?case by simp
next
  case (Cons r rs)
  obtain xs where xs: "calls (fold expire_request rs (expire_request r v)) = xs @ calls (expire_request r v)"
    "length xs = length rs"
    "\<forall>c \<in> set xs. if kill_switch_on (expire_request r v) then \<exists>i. c = C_reject_request i
       else \<exists>i. c = C_complete_request i (Some VPN_CA_FORCE_BYPASS)"
    "kill_switch_on (expire_request r v) \<longrightarrow>
       bypassed_connection_ids (fold expire_request rs (expire_request r v)) =
       bypassed_connection_ids (expire_request r v)"
    using Cons.IH by blast
  let ?c = "if kill_switch_on v then C_reject_request (req_id r)
            else C_complete_request (req_id r) (Some VPN_CA_FORCE_BYPASS)"
  have "calls (expire_request r v) = ?c # calls v" "kill_switch_on (expire_request r v) = kill_switch_on v"
    "kill_switch_on v \<Longrightarrow> bypassed_connection_ids (expire_request r v) = bypassed_connection_ids v"
    by (simp_all add: expire_request_def)
  with xs show ?case by (intro exI [of _ "xs @ [?c]"]) auto
qed

lemma answers_readings:
  assumes "\<forall>c \<in> set xs. (\<exists>i. c = C_reject_request i) \<or> (\<exists>i y. c = C_complete_request i y)"
  shows "reported (xs @ cs) = reported cs" "follows_diagram (xs @ cs) = follows_diagram cs"
    "unanswered (xs @ cs) = unanswered cs - int (length xs)"
  using assms by (induction xs) auto

lemma no_leak_rejects: "\<forall>c \<in> set xs. \<exists>i. c = C_reject_request i \<Longrightarrow> no_leak (xs @ cs) = no_leak cs"
  by (induction xs) auto

lemma window_timer_log:
  assumes "session_log v"
  shows "session_log (postponement_window_timer_cb v)"
proof -
  let ?v = "v\<lparr>postponement_window_timer := None\<rparr>"
  obtain xs where xs: "calls (fold expire_request (postponed_requests v) ?v) = xs @ calls v"
    "length xs = length (postponed_requests v)"
    "\<forall>c \<in> set xs. if kill_switch_on v then \<exists>i. c = C_reject_request i
       else \<exists>i. c = C_complete_request i (Some VPN_CA_FORCE_BYPASS)"
    "kill_switch_on v \<longrightarrow> bypassed_connection_ids (fold expire_request (postponed_requests v) ?v) =
       bypassed_connection_ids v"
    using expire_fold [of "postponed_requests v" ?v] by auto
  from xs(3) have answers: "\<forall>c \<in> set xs. (\<exists>i. c = C_reject_request i) \<or> (\<exists>i y. c = C_complete_request i y)"
    by (metis (full_types))
  show ?thesis
    using assms xs no_leak_rejects [of xs]
    by (auto simp: postponement_window_timer_cb_def session_log_def log_inv_def answers_readings [OF answers])
qed

lemma stop_log: "session_log v \<Longrightarrow> session_log (vpn_stop_cleanup v)"
  using disconnect_quietly(1) [of "emit C_client_finalize v"]
  by (auto simp: vpn_stop_cleanup_def drop_tasks_def session_log_def log_inv_def fsm_reset_def quietly_def quiet_readings)

lemma run_tasks_inv: "session_inv v \<Longrightarrow> session_inv (run_tasks a n v)"
  by (induction n arbitrary: v) (simp_all add: run_front_inv)

lemma submitted_log:
  assumes "session_log v"
  shows "session_log (submit t v)" "session_log (submit_unchecked t v)" "session_log (submit_if_active t v)"
    "quiet c \<Longrightarrow> session_log (emit c v)" "session_log (submit t (v\<lparr>executor_running := e, loop_alive := l\<rparr>))"
  by (auto simp: submit_unchecked_def submit_if_active_def
      intro!: session_log_quietly [OF assms] quietly_submit quietly_emit)

lemma vpn_stop_log:
  assumes "session_inv v"
  shows "session_log (vpn_stop a n v)"
proof -
  have "session_inv (submit T_shutdown v)"
    using assms by (simp add: session_inv_def submitted_control submitted_log)
  then have "session_inv (run_tasks a n (submit T_shutdown v))" by (rule run_tasks_inv)
  then show ?thesis using assms by (simp add: vpn_stop_def stop_log session_inv_def)
qed

lemma recovery_task_log: "session_inv v \<Longrightarrow> session_log (recovery_task_cb a v)"
  unfolding recovery_task_cb_def
  by (rule quiet_then_event_log) (auto simp: begin_attempt_def)

lemma cancel_exclusions_log: "session_log v \<Longrightarrow> session_log (cancel_exclusions_task v)"
  by (rule session_log_quietly) (auto simp: cancel_exclusions_task_def)

lemma loop_failure_log: "session_inv v \<Longrightarrow> session_log (event_loop_failure a v)"
  unfolding event_loop_failure_def
  by (rule quiet_then_event_log) (auto simp: session_error_def)

lemma vpn_step_log:
  assumes "vpn_step v w" "session_inv v"
  shows "session_log w"
proof -
  obtain s where log: "session_log v" using assms(2) by (rule session_invE)
  show ?thesis
    using assms(1)
  proof cases
    case (step_task a)
    then show ?thesis using run_front_inv [OF assms(2)] by (simp add: session_inv_def)
  next
    case (step_time t)
    then show ?thesis using log by (auto intro!: session_log_quietly [OF log])
  qed (use assms(2) log in \<open>auto simp: vpn_connect_def vpn_listen_def Let_def vpn_force_reconnect_def
      vpn_force_disconnect_def vpn_complete_connect_request_def vpn_update_exclusions_def
      vpn_reset_connections_def vpn_notify_network_change_def vpn_request_endpoint_connection_stats_def
      vpn_abandon_endpoint_def vpn_notify_sleep_def vpn_notify_wake_def
      vpn_process_client_packets_def simp del: client_handler.simps
      intro: recovery_task_log window_timer_log pinger_handler_log client_handler_log submitted_log
        vpn_stop_log cancel_exclusions_log loop_failure_log\<close>)
qed

lemma vpn_reachable_inv: "vpn_reachable v \<Longrightarrow> session_inv v"
proof (induction rule: vpn_reachable.induct)
  case (reach_init k t)
  show ?case
    using vpn_reachable_control [OF vpn_reachable.reach_init]
    by (simp add: session_inv_def session_log_def log_inv_def Vpn_new_def)
next
  case (reach_step v w)
  then show ?case using vpn_step_control vpn_step_log by (simp add: session_inv_def)
qed

end
