(* ===== verification/Vpn_Properties.thy ===== *)
theory Vpn_Properties
  imports Vpn_Log
begin

text \<open>
  The properties of the session manager and concrete runs of it: an application that connects
  to a location with two endpoints, with the answers of a system in which everything works.
\<close>

section \<open>Sample runs\<close>

definition sample_endpoint :: "u8 \<Rightarrow> VpnEndpoint" where
  "sample_endpoint n =
     \<lparr>ep_address = \<lparr>sa_family = 2, sa_bytes = [10, 0, 0, n]\<rparr>, ep_name = Some ''vpn.example'',
      ep_remote_id = None, ep_additional_data = [], ep_tls_client_random = [],
      ep_tls_client_random_mask = [], ep_has_ipv6 = True, ep_preferred_protocol = VPN_UP_HTTP2\<rparr>"

definition sample_config :: VpnUpstreamConfig where
  "sample_config =
     upstream_config_zero\<lparr>
       location := \<lparr>loc_id = Some ''loc'', loc_endpoints = [sample_endpoint 1, sample_endpoint 2],
                    loc_relays = []\<rparr>,
       username := Some ''user'', password := Some ''secret''\<rparr>"

definition sample_answers :: Answers where
  "sample_answers =
     \<lparr>connect_result = no_error, listen_result = no_error, has_quic_connector = False,
      complete_immediately = (\<lambda>_. False), finalize_action = req_action,
      same_address = (\<lambda>x y. x = y), addr_valid = (\<lambda>_. True), addr_is_ipv4 = (\<lambda>_. True),
      addr_is_ipv6 = (\<lambda>_. False), addr_port = (\<lambda>_. 443)\<rparr>"

definition sample_ping :: LocationsPingerResult where
  "sample_ping = \<lparr>pr_ping_ms = 10, pr_endpoint = sample_endpoint 1, pr_relay = None, pr_is_quic = False\<rparr>"

text \<open>The session after \<open>vpn_connect\<close> with a single attempt, and after the ping.\<close>

definition run_pinging :: "VpnConnectRetryPolicy \<Rightarrow> Vpn" where
  "run_pinging p =
     run_front sample_answers (snd (vpn_connect sample_answers True sample_config p (Vpn_new True 1)))"

definition run_client_connecting :: "VpnConnectRetryPolicy \<Rightarrow> Vpn" where
  "run_client_connecting p = pinger_handler sample_answers sample_ping ((run_pinging p)\<lparr>pinger := PingerReported\<rparr>)"

definition run_connected :: Vpn where
  "run_connected =
     client_handler sample_answers EVENT_CONNECTED (run_client_connecting VPN_CRP_FALL_INTO_RECOVERY)"

definition run_recovering :: Vpn where
  "run_recovering = client_handler sample_answers EVENT_DISCONNECTED run_connected"

definition run_gave_up :: Vpn where
  "run_gave_up =
     run_front sample_answers (vpn_force_reconnect (run_client_connecting (VPN_CRP_SEVERAL_ATTEMPTS 1)))"

lemma reach_pinging: "queue (snd (vpn_connect sample_answers True sample_config p (Vpn_new True 1))) \<noteq> [] \<Longrightarrow>
    vpn_reachable (run_pinging p)"
  unfolding run_pinging_def
  by (rule reach_step [OF reach_step [OF reach_init step_connect] step_task])

lemma queued_connect: "queue (snd (vpn_connect sample_answers True sample_config p (Vpn_new True 1))) \<noteq> []"
proof -
  have "code (validate_upstream_config sample_answers sample_config) = VPN_EC_NOERROR" by code_simp
  then show ?thesis by (simp add: vpn_connect_def Let_def Vpn_new_def)
qed

lemma pinging_state:
  "pinger (run_pinging (VPN_CRP_SEVERAL_ATTEMPTS 1)) = PingerRunning"
  "pinger (run_pinging VPN_CRP_FALL_INTO_RECOVERY) = PingerRunning"
  by code_simp+

lemma reach_client_connecting:
  "pinger (run_pinging p) = PingerRunning \<Longrightarrow> vpn_reachable (run_client_connecting p)"
  unfolding run_client_connecting_def
  by (rule reach_step [OF reach_pinging [OF queued_connect] step_ping_result])

lemma connecting_state:
  "client_state (run_client_connecting (VPN_CRP_SEVERAL_ATTEMPTS 1)) = CLIS_CONNECTING"
  "client_state (run_client_connecting VPN_CRP_FALL_INTO_RECOVERY) = CLIS_CONNECTING"
  by code_simp+

lemma reach_connected: "vpn_reachable run_connected"
  unfolding run_connected_def
  by (rule reach_step [OF reach_client_connecting [OF pinging_state(2)] step_client_connected])
    (rule connecting_state)

lemma reach_recovering: "vpn_reachable run_recovering"
  unfolding run_recovering_def by (rule reach_step [OF reach_connected step_client_event]) simp

lemma reach_gave_up: "vpn_reachable run_gave_up"
proof -
  have "queue (vpn_force_reconnect (run_client_connecting (VPN_CRP_SEVERAL_ATTEMPTS 1))) \<noteq> []" by code_simp
  then show ?thesis
    unfolding run_gave_up_def
    by (rule reach_step [OF reach_step [OF reach_client_connecting [OF pinging_state(1)] step_force_reconnect] step_task])
qed

section \<open>Whole sessions\<close>

text \<open>
  Claim C1: the session never gets stuck. In every reachable state the machine is between
  transitions and in one of the six session states. While it is connecting or recovering, a
  pinger is running, the client is connecting, or the retry or the failure of the client is
  queued. While it waits for recovery, the next attempt is scheduled or the shutdown after the
  last attempt is queued. While it is connected, the client is.
\<close>

theorem session_never_stuck:
  assumes "vpn_reachable v"
  shows "\<exists>s. m_current_state (fsm v) = ss s \<and> \<not> m_recursive (fsm v) \<and> progress s v"
  using vpn_reachable_control [OF assms] by (auto simp: control_inv_def)

theorem session_never_stuck_witness:
  "\<exists>s. m_current_state (fsm run_recovering) = ss s \<and> \<not> m_recursive (fsm run_recovering) \<and>
       progress s run_recovering"
  by (rule session_never_stuck [OF reach_recovering])

text \<open>
  Claim C2: the states that the application is told follow the state diagram: every raised
  state is a successor of the one before it, the first one leaves the disconnected state, and
  the last one is the state the machine is in.
\<close>

theorem session_states_reported:
  assumes "vpn_reachable v"
  shows "follows_diagram (calls v) \<and> reported (calls v) = m_current_state (fsm v)"
  using vpn_reachable_inv [OF assms] by (simp add: session_inv_def session_log_def log_inv_def)

theorem session_states_reported_witness:
  "follows_diagram (calls run_recovering) \<and> reported (calls run_recovering) = ss VPN_SS_WAITING_RECOVERY"
proof -
  have "m_current_state (fsm run_recovering) = ss VPN_SS_WAITING_RECOVERY" by code_simp
  with session_states_reported [OF reach_recovering] show ?thesis by simp
qed

text \<open>
  Claim C3: with the kill switch on, no connection is let past the tunnel by the session
  manager itself: every request that is completed with a forced bypass had the forced bypass
  as its final action, and the list of connections bypassed during recovery stays empty.
\<close>

theorem kill_switch_no_leak:
  assumes "vpn_reachable v" "kill_switch_on v"
  shows "no_leak (calls v) \<and> bypassed_connection_ids v = []"
  using vpn_reachable_inv [OF assms(1)] assms(2) by (simp add: session_inv_def session_log_def log_inv_def)

theorem kill_switch_no_leak_witness:
  "kill_switch_on run_recovering \<and> no_leak (calls run_recovering) \<and> bypassed_connection_ids run_recovering = []"
proof -
  have "kill_switch_on run_recovering" by code_simp
  with kill_switch_no_leak [OF reach_recovering this] show ?thesis by simp
qed


text \<open>A request that arrives right after the connection was lost.\<close>

definition run_postponed :: Vpn where
  "run_postponed =
     run_front sample_answers
       (vpn_complete_connect_request
         \<lparr>req_id = 7, req_action = Some VPN_CA_DEFAULT, req_appname = ''app'', req_uid = 0\<rparr> run_recovering)"

lemma reach_postponed: "vpn_reachable run_postponed"
proof -
  have "queue (vpn_complete_connect_request
         \<lparr>req_id = 7, req_action = Some VPN_CA_DEFAULT, req_appname = ''app'', req_uid = 0\<rparr> run_recovering) \<noteq> []"
    by code_simp
  then show ?thesis
    unfolding run_postponed_def
    by (rule reach_step [OF reach_step [OF reach_recovering step_complete_request] step_task])
qed


text \<open>
  Claim C6: a failed location ping never makes the location unavailable. The flag
  \<open>ping_failure_induces_location_unavailable\<close>, which is set when the current endpoint is
  abandoned, is cleared by the disconnection that follows and again before the next ping
  starts, so that the pinger's failure is always reported as a plain, non-fatal error.
\<close>

theorem ping_failure_never_unavailable:
  assumes "vpn_reachable v" "pinger v = PingerRunning" "pr_ping_ms r < 0"
  shows "pinger_handler a r (v\<lparr>pinger := PingerReported\<rparr>) =
     perform a CE_PING_FAIL (ErrData (mk_error VPN_EC_ERROR ''Failed to ping location''))
       (v\<lparr>pinger := PingerReported\<rparr>)"
proof -
  have "selected_endpoint v = None" "\<not> ping_failure_induces_location_unavailable v"
    using vpn_reachable_control [OF assms(1)] assms(2) by (auto simp: control_inv_def pinger_ok_def)
  moreover from this have "forget_endpoint (v\<lparr>pinger := PingerReported\<rparr>) = v\<lparr>pinger := PingerReported\<rparr>"
    by (cases v) (simp add: forget_endpoint_def)
  ultimately show ?thesis
    using assms(3) by (simp add: pinger_handler_def ping_failure_error_def Let_def)
qed

theorem ping_failure_never_unavailable_witness:
  "pinger_handler sample_answers (sample_ping\<lparr>pr_ping_ms := -1\<rparr>)
     ((run_pinging VPN_CRP_FALL_INTO_RECOVERY)\<lparr>pinger := PingerReported\<rparr>) =
   perform sample_answers CE_PING_FAIL (ErrData (mk_error VPN_EC_ERROR ''Failed to ping location''))
     ((run_pinging VPN_CRP_FALL_INTO_RECOVERY)\<lparr>pinger := PingerReported\<rparr>)"
  by (rule ping_failure_never_unavailable [OF reach_pinging [OF queued_connect] pinging_state(2)]) simp


end
