(* ===== verification/Vpn_Behaviour.thy ===== *)
theory Vpn_Behaviour
  imports Vpn_Properties
begin

text \<open>
  What the session manager does with a configuration, a lost connection, a change of the
  network, an abandoned endpoint and a connection request: the functional behaviour of its
  operations, branch by branch.
\<close>

section \<open>Recovery timing\<close>

lemma time_to_next_nonneg: "0 \<le> time_to_next_attempt v"
  by (auto simp: time_to_next_attempt_def Let_def le_max_iff_disj)

lemma time_to_next_gap:
  assumes "last_recovery_fire_ts v \<noteq> 0" "last_recovery_fire_ts v \<le> clock v"
  shows "last_recovery_fire_ts v + ns_of_ms VPN_MIN_RECOVERY_FIRE_GAP_MS \<le>
         clock v + ns_of_ms (time_to_next_attempt v)"
proof -
  let ?since = "duration_cast_ms (clock v - last_recovery_fire_ts v)"
  have since: "ns_of_ms ?since \<le> clock v - last_recovery_fire_ts v" "0 \<le> ?since"
    using assms(2) duration_cast_ms_le [of "clock v - last_recovery_fire_ts v"]
    by (simp, simp add: duration_cast_ms_def)
  have "VPN_MIN_RECOVERY_FIRE_GAP_MS - ?since \<le> time_to_next_attempt v"
  proof (cases "?since < VPN_MIN_RECOVERY_FIRE_GAP_MS")
    case True
    then show ?thesis using assms(1) since(2) by (simp add: time_to_next_attempt_def Let_def max_absorb1)
  next
    case False
    then show ?thesis using time_to_next_nonneg [of v] by simp
  qed
  then have "ns_of_ms (VPN_MIN_RECOVERY_FIRE_GAP_MS - ?since) \<le> ns_of_ms (time_to_next_attempt v)"
    by (simp add: ns_of_ms_def)
  then show ?thesis using since(1) by (simp add: ns_of_ms_def algebra_simps)
qed



text \<open>
  Claim C9: when the attempts are used up, the only effect is to queue the shutdown, and the
  shutdown ends the session: it is reported as disconnected with the error that the location is
  unavailable, the pinger and the client are stopped and no attempt stays scheduled.
\<close>

theorem recovery_gives_up:
  assumes "max_attempts (recovery_settings (upstream_config v)) \<le> rec_attempts (recovery v)"
    and "\<not> m_recursive (fsm v)" "m_current_state (fsm v) = ss s" "s \<noteq> VPN_SS_DISCONNECTED"
  shows "initiate_recovery v = v\<lparr>queue := queue v @ [T_attempts_exhausted]\<rparr> \<and>
    (let w = run_task a T_attempts_exhausted v
     in m_current_state (fsm w) = ss VPN_SS_DISCONNECTED \<and> client_state w = CLIS_DISCONNECTED \<and>
        pinger w = PingerNone \<and> recovery w = recovery_init \<and>
        (\<exists>e. hd (calls w) = C_state_changed e \<and> ev_state e = ss VPN_SS_DISCONNECTED \<and>
             code (ev_error e) = VPN_EC_LOCATION_UNAVAILABLE))"
proof -
  let ?u = "session_error VPN_EC_LOCATION_UNAVAILABLE ''Maximum number of recovery attempts has been made''
         (v\<lparr>recovery := recovery_init\<rparr>)"
  have w: "run_task a T_attempts_exhausted v = enter VPN_SS_DISCONNECTED do_disconnect NoData ?u"
    using assms(2-4) by (simp add: on_shutdown [of _ s])
  show ?thesis
    using assms(1) unfolding w
    by (simp add: initiate_recovery_def submit_def enter_def do_disconnect_def Let_def)
      (simp add: raise_state_def session_in_def state_event_def session_error_def error_value_or_none_def Let_def)
qed

theorem recovery_gives_up_witness:
  "code (ev_error (case hd (calls (run_task sample_answers T_attempts_exhausted
     (run_recovering\<lparr>recovery := (recovery run_recovering)\<lparr>rec_attempts := 30\<rparr>\<rparr>)))
     of C_state_changed e \<Rightarrow> e)) = VPN_EC_LOCATION_UNAVAILABLE"
proof -
  let ?v = "run_recovering\<lparr>recovery := (recovery run_recovering)\<lparr>rec_attempts := 30\<rparr>\<rparr>"
  have "max_attempts (recovery_settings (upstream_config ?v)) \<le> rec_attempts (recovery ?v)"
    "\<not> m_recursive (fsm ?v)" "m_current_state (fsm ?v) = ss VPN_SS_WAITING_RECOVERY"
    "VPN_SS_WAITING_RECOVERY \<noteq> VPN_SS_DISCONNECTED"
    by code_simp+
  from recovery_gives_up [OF this, of sample_answers] show ?thesis by (auto simp: Let_def)
qed

text \<open>
  The waits before the attempts of an outage in which every attempt fails at once: the attempt
  starts when it is due, and its failure schedules the next one.
\<close>

fun recovery_waits :: "nat \<Rightarrow> Vpn \<Rightarrow> millis list" where
  "recovery_waits 0 v = []"
| "recovery_waits (Suc n) v =
     (let w = initiate_recovery v
      in if T_attempts_exhausted \<in> set (queue w) then []
         else case rec_task (recovery w) of
                None \<Rightarrow> []
              | Some due \<Rightarrow>
                  to_next (rec_time (recovery w)) # recovery_waits n (begin_attempt (w\<lparr>clock := due\<rparr>)))"

definition outage_start :: Vpn where
  "outage_start =
     (Vpn_new True 1000000000)\<lparr>upstream_config := update_upstream_config sample_config\<rparr>"

text \<open>The same waits, computed from the timing alone.\<close>

definition next_wait :: "nanos \<Rightarrow> nanos \<Rightarrow> RecoveryTime \<Rightarrow> millis" where
  "next_wait now fired t =
     (let elapsed = (if start_ts t \<noteq> 0 then max (duration_cast_ms (now - attempt_start_ts t)) 0 else 0);
          ttn = (if between_attempts t \<ge> elapsed then between_attempts t - elapsed else 0);
          since = max (duration_cast_ms (now - fired)) 0
      in if fired \<noteq> 0 \<and> since < 2000 then max ttn (2000 - since) else ttn)"

fun timing_waits ::
  "nat \<Rightarrow> VpnUpstreamSessionRecoverySettings \<Rightarrow> nanos \<Rightarrow> nanos \<Rightarrow> RecoveryTime \<Rightarrow> int \<Rightarrow> millis list"
and timing_wait_then ::
  "nat \<Rightarrow> VpnUpstreamSessionRecoverySettings \<Rightarrow> nanos \<Rightarrow> RecoveryTime \<Rightarrow> int \<Rightarrow> millis \<Rightarrow> nanos \<Rightarrow> millis list"
where
  "timing_waits 0 st now fired t k = []"
| "timing_waits (Suc n) st now fired t k =
     (if uint (max_attempts st) \<le> k then []
      else timing_wait_then n st now t k (next_wait now fired t)
             (now + ns_of_ms (timer_ms (next_wait now fired t))))"
| "timing_wait_then n st now t k w due =
     w # timing_waits n st due due ((advance_recovery_time st now w t)\<lparr>attempt_start_ts := due\<rparr>) (k + 1)"

lemma timing_waits_numeral:
  "timing_waits (numeral m) st now fired t k =
     (if uint (max_attempts st) \<le> k then []
      else timing_wait_then (pred_numeral m) st now t k (next_wait now fired t)
             (now + ns_of_ms (timer_ms (next_wait now fired t))))"
  by (simp add: numeral_eq_Suc)

lemma to_next_advance [simp]: "to_next (advance_recovery_time st now w t) = w"
  by (simp add: advance_recovery_time_def Let_def)

lemma recovery_waits_timing:
  "T_attempts_exhausted \<notin> set (queue v) \<Longrightarrow>
   recovery_waits n v =
     timing_waits n (recovery_settings (upstream_config v)) (clock v) (last_recovery_fire_ts v)
       (rec_time (recovery v)) (uint (rec_attempts (recovery v)))"
proof (induction n arbitrary: v)
  case 0
  then show ?case by simp
next
  case (Suc n)
  let ?st = "recovery_settings (upstream_config v)"
  have wait: "time_to_next_attempt v = next_wait (clock v) (last_recovery_fire_ts v) (rec_time (recovery v))"
    by (simp add: time_to_next_attempt_def next_wait_def recovery_elapsed_def
        VPN_MIN_RECOVERY_FIRE_GAP_MS_def Let_def)
  show ?case
  proof (cases "rec_attempts (recovery v) \<ge> max_attempts ?st")
    case True
    then show ?thesis by (simp add: initiate_recovery_def submit_def word_le_def)
  next
    case False
    then have "uint (rec_attempts (recovery v) + 1) = uint (rec_attempts (recovery v)) + 1"
    proof -
      have "uint (rec_attempts (recovery v)) + 1 < 2 ^ 32"
        using False uint_lt2p [of "max_attempts ?st"] by (simp add: word_le_def)
      then show ?thesis by (simp add: uint_plus_if')
    qed
    with False Suc show ?thesis
      by (simp add: initiate_recovery_def begin_attempt_def wait word_le_def)
  qed
qed

lemma default_backoff:
  "scale_millis 1000 VPN_DEFAULT_RECOVERY_BACKOFF_RATE = 1300"
  "scale_millis 1300 VPN_DEFAULT_RECOVERY_BACKOFF_RATE = 1690"
  "scale_millis 1690 VPN_DEFAULT_RECOVERY_BACKOFF_RATE = 2197"
  "scale_millis 2197 VPN_DEFAULT_RECOVERY_BACKOFF_RATE = 2856"
  "scale_millis 2856 VPN_DEFAULT_RECOVERY_BACKOFF_RATE = 3713"
  by code_simp+

lemma default_recovery_settings:
  "recovery_settings (upstream_config outage_start) =
     \<lparr>backoff_rate = VPN_DEFAULT_RECOVERY_BACKOFF_RATE, location_update_period_ms = 10000, max_attempts = 30\<rparr>"
  by (simp add: outage_start_def update_upstream_config_def sample_config_def upstream_config_zero_def
    update_recovery_settings_def or_default_def VPN_DEFAULT_RECOVERY_LOCATION_UPDATE_PERIOD_MS_def VPN_DEFAULT_RECOVERY_ATTEMPTS_def Let_def)

lemmas timing_evaluation =
  next_wait_def duration_cast_ms_def ns_of_ms_def timer_ms_id advance_recovery_time_def
  recovery_init_def recovery_time_init_def VPN_DEFAULT_INITIAL_RECOVERY_INTERVAL_MS_def
  default_backoff Let_def

lemma default_waits:
  "recovery_waits 31 outage_start =
     [0, 2000, 2000, 2000, 2197, 2856, 2000, 2000, 2000, 2000, 2197, 2000, 2000, 2000, 2000, 2197,
      2000, 2000, 2000, 2000, 2197, 2000, 2000, 2000, 2000, 2197, 2000, 2000, 2000, 2000]"
proof -
  have "queue outage_start = []" "clock outage_start = 1000000000" "last_recovery_fire_ts outage_start = 0"
    "recovery outage_start = recovery_init"
    by (simp_all add: outage_start_def Vpn_new_def)
  then have start: "recovery_waits 31 outage_start =
      timing_waits 31 (recovery_settings (upstream_config outage_start)) 1000000000 0 recovery_time_init 0"
    by (simp add: recovery_waits_timing recovery_init_def del: recovery_waits.simps)
  show ?thesis
    unfolding start default_recovery_settings
    by (simp add: timing_evaluation timing_waits_numeral)
qed

text \<open>
  the default settings spend at most a minute on recovery. Starting from a fresh
  outage with the default backoff rate and number of attempts, thirty attempts that each fail
  at once are scheduled, the first one immediately, and together they wait for less than
  sixty seconds.
\<close>

theorem default_recovery_within_a_minute:
  "length (recovery_waits 31 outage_start) = 30 \<and> hd (recovery_waits 31 outage_start) = 0 \<and>
   sum_list (recovery_waits 31 outage_start) < 60000"
  unfolding default_waits by simp

section \<open>Errors of the client\<close>

text \<open>
  a fatal error while the session is connecting ends it and is reported. With no
  earlier error pending, the session becomes disconnected, the client and the pinger are
  stopped, and the error of the raised state is the error of the client.
\<close>

theorem fatal_error_while_connecting:
  assumes "\<not> m_recursive (fsm v)" "m_current_state (fsm v) = ss VPN_SS_CONNECTING"
    and "pending_error v = None" "is_fatal_error_code (code e)"
  shows "let w = client_handler a (EVENT_ERROR e) v
     in m_current_state (fsm w) = ss VPN_SS_DISCONNECTED \<and> client_state w = CLIS_DISCONNECTED \<and>
        pinger w = PingerNone \<and>
        (\<exists>x. hd (calls w) = C_state_changed x \<and> ev_state x = ss VPN_SS_DISCONNECTED \<and> ev_error x = e)"
proof -
  have nz: "code e \<noteq> VPN_EC_NOERROR" using assms(4) by (auto simp: is_fatal_error_code_def error_codes)
  have fatal: "is_fatal_error u (ErrData e)" for u using assms(4) by (simp add: is_fatal_error_def)
  let ?u = "v\<lparr>client_state := CLIS_DISCONNECTED\<rparr>"
  have w: "client_handler a (EVENT_ERROR e) v = enter VPN_SS_DISCONNECTED complete_connect (ErrData e) ?u"
    using assms(1,2) fatal by (simp add: on_client_disconnected [of _ VPN_SS_CONNECTING])
  have c: "complete_connect ?u (ErrData e) =
      (disconnect ?u)\<lparr>pending_error := Some e, recovery := recovery_init\<rparr>"
    using assms(3) nz fatal
    by (simp add: complete_connect_def check_health_if_ok_def note_attempts_exceeded_def
        fail_with_error_def has_error_def)
  show ?thesis
    unfolding w
    by (simp add: enter_def c Let_def)
      (simp add: raise_state_def session_in_def state_event_def error_value_or_none_def Let_def)
qed

theorem fatal_error_while_connecting_witness:
  "m_current_state (fsm (client_handler sample_answers
     (EVENT_ERROR (mk_error VPN_EC_AUTH_REQUIRED ''Auth required''))
     (run_client_connecting VPN_CRP_FALL_INTO_RECOVERY))) = ss VPN_SS_DISCONNECTED"
proof -
  let ?v = "run_client_connecting VPN_CRP_FALL_INTO_RECOVERY"
  have "\<not> m_recursive (fsm ?v)" "m_current_state (fsm ?v) = ss VPN_SS_CONNECTING"
    "pending_error ?v = None" "is_fatal_error_code (code (mk_error VPN_EC_AUTH_REQUIRED ''Auth required''))"
    by code_simp+
  from fatal_error_while_connecting [OF this, of sample_answers] show ?thesis by (simp add: Let_def)
qed

text \<open>
  Claim C10: in every later state the fatal error is lost. When the session is connected,
  recovering, waiting for recovery or waiting for the network and no error is pending, a fatal
  error of the client disconnects the session, but the raised state carries no error: the
  action \<open>do_disconnect\<close> ignores the event data.
\<close>

theorem fatal_error_not_reported:
  assumes "\<not> m_recursive (fsm v)" "m_current_state (fsm v) = ss s"
    and "s \<noteq> VPN_SS_DISCONNECTED" "s \<noteq> VPN_SS_CONNECTING"
    and "pending_error v = None" "is_fatal_error_code (code e)"
  shows "let w = client_handler a (EVENT_ERROR e) v
     in m_current_state (fsm w) = ss VPN_SS_DISCONNECTED \<and>
        (\<exists>x. hd (calls w) = C_state_changed x \<and> ev_state x = ss VPN_SS_DISCONNECTED \<and> ev_error x = no_error)"
proof -
  let ?u = "v\<lparr>client_state := CLIS_DISCONNECTED\<rparr>"
  have "is_fatal_error ?u (ErrData e)" using assms(6) by (simp add: is_fatal_error_def)
  then have w: "client_handler a (EVENT_ERROR e) v = enter VPN_SS_DISCONNECTED do_disconnect (ErrData e) ?u"
    using assms(1-4) by (cases s) (simp_all add: on_client_disconnected)
  show ?thesis
    unfolding w using assms(5)
    by (simp add: enter_def do_disconnect_def Let_def)
      (simp add: raise_state_def session_in_def state_event_def error_value_or_none_def Let_def)
qed

theorem fatal_error_not_reported_witness:
  "(case hd (calls (client_handler sample_answers
      (EVENT_ERROR (mk_error VPN_EC_AUTH_REQUIRED ''Auth required'')) run_connected))
    of C_state_changed x \<Rightarrow> ev_error x) = no_error"
proof -
  have "\<not> m_recursive (fsm run_connected)" "m_current_state (fsm run_connected) = ss VPN_SS_CONNECTED"
    "VPN_SS_CONNECTED \<noteq> VPN_SS_DISCONNECTED" "VPN_SS_CONNECTED \<noteq> VPN_SS_CONNECTING"
    "pending_error run_connected = None"
    "is_fatal_error_code (code (mk_error VPN_EC_AUTH_REQUIRED ''Auth required''))"
    by code_simp+
  from fatal_error_not_reported [OF this, of sample_answers] show ?thesis by (auto simp: Let_def)
qed

section \<open>Changes of the network\<close>

text \<open>
  losing the network parks the session. From every state in which the session is up
  or trying to be (connecting with attempts left, connected, waiting for recovery, recovering)
  the notification moves it to waiting for the network, with the pinger and the client stopped
  and the recovery, its attempt counter included, reset.
\<close>

theorem network_loss_parks_session:
  assumes "\<not> m_recursive (fsm v)" "m_current_state (fsm v) = ss s"
    and "s \<in> {VPN_SS_CONNECTING, VPN_SS_CONNECTED, VPN_SS_WAITING_RECOVERY, VPN_SS_RECOVERING}"
    and "s = VPN_SS_CONNECTING \<Longrightarrow> connect_retry_info v \<noteq> ConnectSeveralAttempts 0"
  shows "let w = run_task a (T_network_change VPN_NS_NOT_CONNECTED) v
     in m_current_state (fsm w) = ss VPN_SS_WAITING_FOR_NETWORK \<and> pinger w = PingerNone \<and>
        client_state w = CLIS_DISCONNECTED \<and> recovery w = recovery_init \<and> queue w = queue v"
proof -
  let ?u = "(emit C_network_change v)\<lparr>network_changed_before_recovery := True\<rparr>"
  have lost: "network_lost ?u (NetData VPN_NS_NOT_CONNECTED)" by (simp add: network_lost_def)
  have attempts: "s = VPN_SS_CONNECTING \<Longrightarrow> \<not> no_connect_attempts ?u (NetData VPN_NS_NOT_CONNECTED)"
    using assms(4) by (auto simp: no_connect_attempts_def split: ConnectRetryInfo.splits)
  have "run_task a (T_network_change VPN_NS_NOT_CONNECTED) v =
      enter VPN_SS_WAITING_FOR_NETWORK do_disconnect (NetData VPN_NS_NOT_CONNECTED) ?u"
    using assms(1-3) lost attempts by (cases s) (simp_all add: on_network_change)
  then show ?thesis by (simp add: Let_def do_disconnect_def)
qed

theorem network_loss_parks_session_witness:
  "m_current_state (fsm (run_task sample_answers (T_network_change VPN_NS_NOT_CONNECTED) run_connected)) =
     ss VPN_SS_WAITING_FOR_NETWORK"
proof -
  have "\<not> m_recursive (fsm run_connected)" "m_current_state (fsm run_connected) = ss VPN_SS_CONNECTED"
    by code_simp+
  then show ?thesis
    using network_loss_parks_session [of run_connected VPN_SS_CONNECTED sample_answers] by (simp add: Let_def)
qed

text \<open>
  A notification that the network is available does not disturb a session that is
  connecting with attempts left or recovering: the only effects are the notification of the
  client and the mark that the network has changed.
\<close>

lemma network_available_keeps_trying:
  assumes "\<not> m_recursive (fsm v)" "m_current_state (fsm v) = ss s"
    and "s = VPN_SS_RECOVERING \<or>
         s = VPN_SS_CONNECTING \<and> (case connect_retry_info v of ConnectSeveralAttempts n \<Rightarrow> n > 0
                                                     | ConnectFallIntoRecovery \<Rightarrow> True)"
  shows "run_task a (T_network_change VPN_NS_CONNECTED) v =
    v\<lparr>calls := C_network_change # calls v, network_changed_before_recovery := True\<rparr>"
proof -
  let ?u = "(emit C_network_change v)\<lparr>network_changed_before_recovery := True\<rparr>"
  have "\<not> network_lost ?u (NetData VPN_NS_CONNECTED)" by (simp add: network_lost_def)
  moreover have "s = VPN_SS_CONNECTING \<Longrightarrow> \<not> no_connect_attempts ?u (NetData VPN_NS_CONNECTED)"
    using assms(3) by (auto simp: no_connect_attempts_def split: ConnectRetryInfo.splits)
  ultimately show ?thesis
    using assms by (auto simp: on_network_change emit_def)
qed

lemma network_available_keeps_trying_example:
  "run_task sample_answers (T_network_change VPN_NS_CONNECTED) (run_client_connecting VPN_CRP_FALL_INTO_RECOVERY) =
    (run_client_connecting VPN_CRP_FALL_INTO_RECOVERY)
      \<lparr>calls := C_network_change # calls (run_client_connecting VPN_CRP_FALL_INTO_RECOVERY),
       network_changed_before_recovery := True\<rparr>"
proof -
  let ?v = "run_client_connecting VPN_CRP_FALL_INTO_RECOVERY"
  have "\<not> m_recursive (fsm ?v)" "m_current_state (fsm ?v) = ss VPN_SS_CONNECTING"
    "connect_retry_info ?v = ConnectFallIntoRecovery"
    by code_simp+
  then show ?thesis using network_available_keeps_trying [of ?v VPN_SS_CONNECTING sample_answers] by simp
qed

text \<open>
  Claim C11: during the last connection attempt the same notification aborts the connection.
  The row for used-up attempts comes before the test for a lost network, so that a network
  that is available disconnects the session with the error that the initial connection failed.
\<close>

theorem network_available_aborts_last_attempt:
  assumes "\<not> m_recursive (fsm v)" "m_current_state (fsm v) = ss VPN_SS_CONNECTING"
    and "connect_retry_info v = ConnectSeveralAttempts 0" "pending_error v = None"
  shows "let w = run_task a (T_network_change VPN_NS_CONNECTED) v
     in m_current_state (fsm w) = ss VPN_SS_DISCONNECTED \<and> client_state w = CLIS_DISCONNECTED \<and>
        (\<exists>x. hd (calls w) = C_state_changed x \<and> ev_state x = ss VPN_SS_DISCONNECTED \<and>
             code (ev_error x) = VPN_EC_INITIAL_CONNECT_FAILED)"
proof -
  let ?u = "(emit C_network_change v)\<lparr>network_changed_before_recovery := True\<rparr>"
  let ?d = "NetData VPN_NS_CONNECTED"
  have none: "no_connect_attempts x d" if "connect_retry_info x = ConnectSeveralAttempts 0" for x d
    using that by (simp add: no_connect_attempts_def)
  have w: "run_task a (T_network_change VPN_NS_CONNECTED) v =
      enter VPN_SS_DISCONNECTED fail_connect_with_no_attempts ?d ?u"
    using assms none by (simp add: on_network_change [of _ VPN_SS_CONNECTING])
  have c: "\<exists>m. fail_connect_with_no_attempts ?u ?d =
      (disconnect ?u)\<lparr>pending_error := Some (mk_error VPN_EC_INITIAL_CONNECT_FAILED m), recovery := recovery_init\<rparr>"
    using assms(3,4) none
    by (auto simp: fail_connect_with_no_attempts_def complete_connect_def check_health_if_ok_def
        note_attempts_exceeded_def fail_with_error_def has_error_def error_codes)
  then show ?thesis
    unfolding w
    by (auto simp: enter_def Let_def)
      (auto simp: raise_state_def session_in_def state_event_def error_value_or_none_def Let_def)
qed

theorem network_available_aborts_last_attempt_witness:
  "m_current_state (fsm (run_task sample_answers (T_network_change VPN_NS_CONNECTED)
     (run_client_connecting (VPN_CRP_SEVERAL_ATTEMPTS 1)))) = ss VPN_SS_DISCONNECTED"
proof -
  let ?v = "run_client_connecting (VPN_CRP_SEVERAL_ATTEMPTS 1)"
  have "\<not> m_recursive (fsm ?v)" "m_current_state (fsm ?v) = ss VPN_SS_CONNECTING"
    "connect_retry_info ?v = ConnectSeveralAttempts 0" "pending_error ?v = None"
    by code_simp+
  from network_available_aborts_last_attempt [OF this, of sample_answers] show ?thesis by (simp add: Let_def)
qed

section \<open>Connection attempts\<close>

text \<open>
  Claim C12: abandoning the current endpoint during the last connection attempt wraps the
  attempt counter. The session stays in the connecting state and queues a retry, and the
  unsigned counter of the attempts left goes from zero to its largest value.
\<close>

theorem abandon_wraps_attempts:
  assumes "\<not> m_recursive (fsm v)" "m_current_state (fsm v) = ss VPN_SS_CONNECTING"
    and "connect_retry_info v = ConnectSeveralAttempts 0" "is_selected a ep v"
    and "\<exists>i \<in> set (remove_endpoint a ep (loc_endpoints (location (upstream_config v)))).
           sa_family (ep_address ep) = sa_family (ep_address i)"
  shows "let w = run_task a (T_abandon_endpoint ep) v
     in connect_retry_info w = ConnectSeveralAttempts (2 ^ 64 - 1) \<and>
        m_current_state (fsm w) = ss VPN_SS_CONNECTING \<and> queue w = queue v @ [T_retry_connect]"
proof -
  let ?eps = "remove_endpoint a ep (loc_endpoints (location (upstream_config v)))"
  let ?u = "(set_endpoints ?eps (v\<lparr>selected_endpoint := None\<rparr>))
      \<lparr>pending_error := Some (mk_error VPN_EC_ERROR ''Current endpoint is abandoned''),
       ping_failure_induces_location_unavailable := True\<rparr>"
  have "\<not> is_fatal_error ?u NoData"
    by (simp add: is_fatal_error_def is_fatal_error_code_def error_value_or_none_def error_codes)
  moreover have "run_task a (T_abandon_endpoint ep) v = perform a CE_ABANDON_ENDPOINT NoData ?u"
    using assms(4,5) by (auto simp: abandon_endpoint_task_def Let_def)
  ultimately have "run_task a (T_abandon_endpoint ep) v = retry_connect ?u NoData"
    using assms(1,2) by (simp add: on_abandon_endpoint [of _ VPN_SS_CONNECTING])
  then show ?thesis
    using assms(2,3) by (simp add: Let_def retry_connect_def use_connect_attempt_def set_endpoints_def)
qed

theorem abandon_wraps_attempts_witness:
  "connect_retry_info (run_task sample_answers (T_abandon_endpoint (sample_endpoint 1))
     (run_client_connecting (VPN_CRP_SEVERAL_ATTEMPTS 1))) = ConnectSeveralAttempts (2 ^ 64 - 1)"
proof -
  let ?v = "run_client_connecting (VPN_CRP_SEVERAL_ATTEMPTS 1)"
  have "\<not> m_recursive (fsm ?v)" "m_current_state (fsm ?v) = ss VPN_SS_CONNECTING"
    "connect_retry_info ?v = ConnectSeveralAttempts 0" "is_selected sample_answers (sample_endpoint 1) ?v"
    "\<exists>i \<in> set (remove_endpoint sample_answers (sample_endpoint 1) (loc_endpoints (location (upstream_config ?v)))).
       sa_family (ep_address (sample_endpoint 1)) = sa_family (ep_address i)"
    by code_simp+
  from abandon_wraps_attempts [OF this] show ?thesis by (simp add: Let_def)
qed

section \<open>Configuration\<close>

text \<open>
  the configuration that the session works with is normalised. Every timeout, the
  location update period and the number of recovery attempts are positive, the backoff rate is
  at least one, a health check never takes longer than the connection timeout, fields that were
  valid keep their value, and normalising again changes nothing.
\<close>

theorem update_upstream_config_normalises:
  "let n = update_upstream_config c; r = recovery_settings n
   in location_ping_timeout_ms n > 0 \<and> timeout_ms n > 0 \<and> health_check_timeout_ms n > 0 \<and>
      health_check_timeout_ms n \<le> timeout_ms n \<and> backoff_rate r \<ge> 1 \<and>
      location_update_period_ms r > 0 \<and> max_attempts r > 0 \<and>
      location n = location c \<and> main_protocol n = main_protocol c \<and>
      username n = username c \<and> password n = password c \<and>
      update_upstream_config n = n"
proof -
  have pos: "or_default x d > 0" "or_default (or_default x d) d = or_default x d" if "d \<noteq> 0" for x d
    using that by (simp_all add: or_default_def word_gt_0)
  have hc: "or_default (min x y) d = min x y" if "x > 0" "y > 0" for x y d
    using that by (auto simp: or_default_def min_def)
  have nz: "DEFAULT_LOCATION_PING_TIMEOUT_MS \<noteq> 0" "VPN_DEFAULT_ENDPOINT_UPSTREAM_TIMEOUT_MS \<noteq> 0"
    "VPN_DEFAULT_HEALTH_CHECK_TIMEOUT_MS \<noteq> 0" "VPN_DEFAULT_RECOVERY_LOCATION_UPDATE_PERIOD_MS \<noteq> 0"
    "VPN_DEFAULT_RECOVERY_ATTEMPTS \<noteq> 0"
    by code_simp+
  have rate: "\<not> VPN_DEFAULT_RECOVERY_BACKOFF_RATE < 1" by (simp add: VPN_DEFAULT_RECOVERY_BACKOFF_RATE_def)
  show ?thesis
    using rate pos [OF nz(1)] pos [OF nz(2)] pos [OF nz(3)] pos [OF nz(4)] pos [OF nz(5)]
    by (simp add: update_upstream_config_def update_recovery_settings_def Let_def hc)
qed

lemma validate_endpoints_ok:
  "code (validate_endpoints a n eps) = VPN_EC_NOERROR \<longleftrightarrow>
     (\<forall>ep \<in> set eps. ep_name ep \<noteq> None \<and> (n > 1 \<longrightarrow> sa_family (ep_address ep) \<noteq> 0) \<and>
        check_address a (ep_address ep) = None)"
  by (induction eps) (auto simp: error_codes)

text \<open>What the interface asks of a configuration.\<close>

definition acceptable_config :: "Answers \<Rightarrow> VpnUpstreamConfig \<Rightarrow> bool" where
  "acceptable_config a cfg \<longleftrightarrow>
     (let eps = loc_endpoints (location cfg)
      in eps \<noteq> [] \<and> username cfg \<noteq> None \<and> password cfg \<noteq> None \<and>
         (\<forall>ep \<in> set eps. ep_name ep \<noteq> None \<and> (length eps > 1 \<longrightarrow> sa_family (ep_address ep) \<noteq> 0) \<and>
            (addr_valid a (ep_address ep) \<longrightarrow>
               (addr_is_ipv4 a (ep_address ep) \<or> addr_is_ipv6 a (ep_address ep)) \<and>
               addr_port a (ep_address ep) > 0)))"

lemma validate_acceptable:
  "code (validate_upstream_config a cfg) = VPN_EC_NOERROR \<longleftrightarrow> acceptable_config a cfg"
proof -
  have check: "check_address a x = None \<longleftrightarrow>
      (addr_valid a x \<longrightarrow> (addr_is_ipv4 a x \<or> addr_is_ipv6 a x) \<and> addr_port a x > 0)" for x
    by (auto simp: check_address_def)
  have "VPN_EC_INVALID_SETTINGS \<noteq> VPN_EC_NOERROR" by (simp add: error_codes)
  then show ?thesis
    by (auto simp: validate_upstream_config_def acceptable_config_def Let_def validate_endpoints_ok check)
qed

text \<open>
  \<open>vpn_connect\<close> accepts a configuration exactly when it has an endpoint, a user name
  and a password, every endpoint has a name, every endpoint of a location with several of them
  has an address, and every address that is set is an IP address with a port. It then starts
  the session only if none is running, by queueing the connection as the last task; otherwise
  the object is unchanged.
\<close>

theorem vpn_connect_accepts:
  "let (e, w) = vpn_connect a started cfg policy v
   in (code e = VPN_EC_NOERROR \<longleftrightarrow> acceptable_config a cfg \<and> \<not> executor_running v \<and> started) \<and>
      w = (if code e = VPN_EC_NOERROR
           then v\<lparr>queue := queue v @ [T_connect cfg (retry_info_of policy)],
                  executor_running := True, loop_alive := True\<rparr> else v)"
proof -
  have "VPN_EC_ERROR \<noteq> VPN_EC_NOERROR" "VPN_EC_EVENT_LOOP_FAILURE \<noteq> VPN_EC_NOERROR"
    by (simp_all add: error_codes)
  then show ?thesis
    by (simp add: vpn_connect_def Let_def submit_def validate_acceptable)
qed

section \<open>Abandoned endpoints\<close>

lemma abandon_actions_config:
  "upstream_config (complete_connect v d) = upstream_config v"
  "upstream_config (retry_connect v d) = upstream_config v"
  "upstream_config (do_disconnect v d) = upstream_config v"
  "upstream_config (prepare_for_recovery v d) = upstream_config v"
  by (auto simp: complete_connect_def check_health_if_ok_def note_attempts_exceeded_def fail_with_error_def
      retry_connect_def use_connect_attempt_def do_disconnect_def prepare_for_recovery_def
      initiate_recovery_def note_error_def split: ConnectRetryInfo.splits)

text \<open>
  abandoning an endpoint removes exactly the endpoints equal to it from the location
  and keeps the others in their order; when no endpoint of its address family remains, the
  whole location is emptied and, in a session that is up, the session ends.
\<close>

theorem abandon_endpoint_removes:
  assumes "\<not> m_recursive (fsm v)" "m_current_state (fsm v) = ss s"
  shows "let eps = filter (\<lambda>i. vpn_endpoint_equals a ep i \<noteq> Some True)
                     (loc_endpoints (location (upstream_config v)));
             remains = (\<exists>i \<in> set eps. sa_family (ep_address ep) = sa_family (ep_address i));
             w = run_task a (T_abandon_endpoint ep) v
     in loc_endpoints (location (upstream_config w)) = (if remains then eps else []) \<and>
        (\<not> remains \<and> s \<in> {VPN_SS_CONNECTED, VPN_SS_WAITING_RECOVERY, VPN_SS_RECOVERING} \<longrightarrow>
           m_current_state (fsm w) = ss VPN_SS_DISCONNECTED)"
proof -
  define eps where "eps = filter (\<lambda>i. vpn_endpoint_equals a ep i \<noteq> Some True) (loc_endpoints (location (upstream_config v)))"
  define w where "w = set_endpoints eps (if is_selected a ep v then v\<lparr>selected_endpoint := None\<rparr> else v)"
  define x where "x = set_endpoints [] (w\<lparr>pending_error := Some (exhausted_error eps (sa_family (ep_address ep)))\<rparr>)"
  define y where "y = w\<lparr>pending_error := Some (mk_error VPN_EC_ERROR ''Current endpoint is abandoned''),
                   ping_failure_induces_location_unavailable := True\<rparr>"
  have removed: "remove_endpoint a ep (loc_endpoints (location (upstream_config v))) = eps"
    by (simp add: remove_endpoint_def swap_remove_if_eq_filter eps_def)
  have task: "run_task a (T_abandon_endpoint ep) v =
      (if \<not> (\<exists>i \<in> set eps. sa_family (ep_address ep) = sa_family (ep_address i))
       then perform a CE_ABANDON_ENDPOINT NoData x
       else if \<not> is_selected a ep v then w else perform a CE_ABANDON_ENDPOINT NoData y)"
    unfolding run_task.simps abandon_endpoint_task_def removed Let_def x_def y_def w_def by (rule refl)
  have keep: "upstream_config (perform a CE_ABANDON_ENDPOINT d u) = upstream_config u"
    if "idle u" "vs u = ss s" for d u
    using that by (cases s) (auto simp: on_abandon_endpoint abandon_actions_config)
  have ends: "vs (perform a CE_ABANDON_ENDPOINT NoData u) = ss VPN_SS_DISCONNECTED"
    if "idle u" "vs u = ss s" "is_fatal_error u NoData"
      "s \<in> {VPN_SS_CONNECTED, VPN_SS_WAITING_RECOVERY, VPN_SS_RECOVERING}" for u
    using that by (cases s) (auto simp: on_abandon_endpoint)
  have fields: "idle x" "vs x = ss s" "idle y" "vs y = ss s" "loc_endpoints (location (upstream_config w)) = eps"
    "loc_endpoints (location (upstream_config x)) = []" "upstream_config y = upstream_config w"
    using assms by (simp_all add: x_def y_def w_def set_endpoints_def)
  have "is_fatal_error x NoData"
    by (simp add: x_def set_endpoints_def is_fatal_error_def is_fatal_error_code_def error_value_or_none_def
        exhausted_error_def)
  with fields show ?thesis
    unfolding task eps_def [symmetric] Let_def by (simp add: keep ends)
qed

theorem abandon_endpoint_removes_witness:
  "loc_endpoints (location (upstream_config
     (run_task sample_answers (T_abandon_endpoint (sample_endpoint 1)) run_connected))) = [sample_endpoint 2]"
proof -
  have st: "\<not> m_recursive (fsm run_connected)" "m_current_state (fsm run_connected) = ss VPN_SS_CONNECTED"
    by code_simp+
  have "filter (\<lambda>i. vpn_endpoint_equals sample_answers (sample_endpoint 1) i \<noteq> Some True)
      (loc_endpoints (location (upstream_config run_connected))) = [sample_endpoint 2]"
    by code_simp
  then show ?thesis
    using abandon_endpoint_removes [OF st, of sample_answers "sample_endpoint 1"]
    by (simp add: Let_def sample_endpoint_def)
qed

section \<open>The transition table\<close>

text \<open>
  The table of the session machine passes the validation, so that the machine is
  constructed in the disconnected state and does not abort.
\<close>

lemma session_table_valid:
  "Fsm_new (ss VPN_SS_DISCONNECTED) (TRANSITION_TABLE a) =
     Some \<lparr>m_current_state = 0, m_recursive = False\<rparr>"
  by (simp add: Fsm_new_def validate_transition_table_def TRANSITION_TABLE_def entry_def
      ANY_SOURCE_STATE_def SAME_TARGET_STATE_def ss.simps ce.simps)

section \<open>Certificates and relays\<close>

text \<open>
  The certificate callback accepts exactly when the application asked to skip the
  verification, or the application accepted the chain and the certificate matches the
  identity that is asked for: the host name, read as an address when it is one, or else the
  address of the host when it has one.
\<close>

lemma ssl_verify_accepts:
  "ssl_verify_callback r host ip is_address cert_ip cert_name cert_addr af = 1 \<longleftrightarrow>
     r = VPN_SKIP_VERIFICATION_FLAG \<or>
     r = 0 \<and> (case host of
                Some n \<Rightarrow> if is_address n then cert_ip n else cert_name n
              | None \<Rightarrow> (case ip of Some x \<Rightarrow> sa_family x = af \<or> cert_addr x | None \<Rightarrow> True))"
  by (auto simp: ssl_verify_callback_def Let_def split: option.splits)

text \<open>
  Connecting through a relay does not weaken the identity check: the connection goes
  to the relay's address with the relay's data, and the certificate is still checked against
  the address of the selected endpoint. Without a relay both are the endpoint's own address.
\<close>

lemma relay_keeps_identity:
  "let c = make_client_upstream_config a cfg sel
   in ec_verification_address c = ep_address (sel_endpoint sel) \<and>
      ep_address (ec_endpoint c) =
        (case sel_relay sel of None \<Rightarrow> ep_address (sel_endpoint sel) | Some r \<Rightarrow> rl_address r) \<and>
      ep_additional_data (ec_endpoint c) =
        (case sel_relay sel of None \<Rightarrow> ep_additional_data (sel_endpoint sel) | Some r \<Rightarrow> rl_additional_data r) \<and>
      ep_name (ec_endpoint c) = ep_name (sel_endpoint sel) \<and>
      ec_protocol c \<noteq> VPN_UP_AUTO \<and> (main_protocol cfg \<noteq> VPN_UP_AUTO \<longrightarrow> ec_protocol c = main_protocol cfg)"
  by (cases "main_protocol cfg"; simp add: make_client_upstream_config_def Let_def split: option.splits)

end
