(* ===== verification/Wire_Utils.thy ===== *)
theory Wire_Utils
  imports Prelude
begin

unbundle bit_operations_syntax

text \<open>
  The wire format helpers of \<^verbatim>\<open>core/include/vpn/internal/wire_utils.h\<close>: a writer that fills a
  buffer and a reader that consumes one, both in network byte order, and the padded form of an
  IP address that every multiplexed packet uses.

  The socket address class is not part of the repository. The record \<open>sa_ops\<close> holds the
  operations of it that the code calls, and \<open>sa_laws\<close> what their documentation promises; a
  pair of the address bytes and the port is an instance.
\<close>

section \<open>Socket addresses\<close>

record 'sa sa_ops =
  so_addr :: "'sa \<Rightarrow> bytes"
  so_port :: "'sa \<Rightarrow> u16"
  so_is_ipv4 :: "'sa \<Rightarrow> bool"
  so_is_ipv6 :: "'sa \<Rightarrow> bool"
  so_make :: "bytes \<Rightarrow> u16 \<Rightarrow> 'sa"
  so_set_port :: "u16 \<Rightarrow> 'sa \<Rightarrow> 'sa"

definition sa_laws :: "'sa sa_ops \<Rightarrow> bool" where
  "sa_laws ops \<longleftrightarrow>
     (\<forall>b p. length b = 4 \<or> length b = 16 \<longrightarrow>
        so_addr ops (so_make ops b p) = b \<and> so_port ops (so_make ops b p) = p \<and>
        so_is_ipv4 ops (so_make ops b p) = (length b = 4) \<and>
        so_is_ipv6 ops (so_make ops b p) = (length b = 16)) \<and>
     (\<forall>a. so_is_ipv4 ops a \<longrightarrow> length (so_addr ops a) = 4) \<and>
     (\<forall>a. so_is_ipv6 ops a \<longrightarrow> length (so_addr ops a) = 16) \<and>
     (\<forall>a p. so_is_ipv4 ops a \<or> so_is_ipv6 ops a \<longrightarrow>
        so_set_port ops p a = so_make ops (so_addr ops a) p \<and>
        so_make ops (so_addr ops a) (so_port ops a) = a)"

definition so_is_ip :: "'sa sa_ops \<Rightarrow> 'sa \<Rightarrow> bool" where
  "so_is_ip ops a \<longleftrightarrow> so_is_ipv4 ops a \<or> so_is_ipv6 ops a"

definition plain_ops :: "(bytes \<times> u16) sa_ops" where
  "plain_ops =
     \<lparr>so_addr = fst, so_port = snd, so_is_ipv4 = (\<lambda>a. length (fst a) = 4),
      so_is_ipv6 = (\<lambda>a. length (fst a) = 16), so_make = Pair, so_set_port = (\<lambda>p a. (fst a, p))\<rparr>"

lemma plain_ops_laws: "sa_laws plain_ops"
  by (simp add: sa_laws_def plain_ops_def)

section \<open>Network byte order\<close>

definition bytes_of_u16 :: "u16 \<Rightarrow> bytes" where
  "bytes_of_u16 v = [ucast (drop_bit 8 v), ucast v]"

definition bytes_of_u32 :: "u32 \<Rightarrow> bytes" where
  "bytes_of_u32 v = [ucast (drop_bit 24 v), ucast (drop_bit 16 v), ucast (drop_bit 8 v), ucast v]"

definition u16_of_bytes :: "byte \<Rightarrow> byte \<Rightarrow> u16" where
  "u16_of_bytes a b = push_bit 8 (ucast a) OR ucast b"

definition u32_of_bytes :: "byte \<Rightarrow> byte \<Rightarrow> byte \<Rightarrow> byte \<Rightarrow> u32" where
  "u32_of_bytes a b c d =
     push_bit 24 (ucast a) OR push_bit 16 (ucast b) OR push_bit 8 (ucast c) OR ucast d"

lemma u16_of_bytes_of_u16: "u16_of_bytes (ucast (drop_bit 8 v)) (ucast v) = v"
  unfolding u16_of_bytes_def
  by (rule bit_word_eqI) (auto simp: bit_simps)

lemma u32_of_bytes_of_u32:
  "u32_of_bytes (ucast (drop_bit 24 v)) (ucast (drop_bit 16 v)) (ucast (drop_bit 8 v)) (ucast v) = v"
  unfolding u32_of_bytes_def
proof (rule bit_word_eqI, goal_cases)
  case (1 n)
  then show ?case
    by (cases "n < 8"; cases "n < 16"; cases "n < 24"; simp add: bit_simps not_less less_diff_conv2; auto)
qed

lemma length_bytes_of [simp]: "length (bytes_of_u16 v) = 2" "length (bytes_of_u32 w) = 4"
  by (simp_all add: bytes_of_u16_def bytes_of_u32_def)

section \<open>The writer\<close>

text \<open>
  The buffer in two parts: what has been written and what is left of it. A failed assertion is
  \<open>None\<close>.
\<close>

record Writer =
  w_done :: bytes
  w_rest :: bytes

definition writer_new :: "nat \<Rightarrow> Writer" where
  "writer_new n = \<lparr>w_done = [], w_rest = replicate n 0\<rparr>"

definition writer_buffer :: "Writer \<Rightarrow> bytes" where
  "writer_buffer w = w_done w @ w_rest w"

definition put_data :: "bytes \<Rightarrow> Writer \<Rightarrow> Writer option" where
  "put_data d w =
     (if length d \<le> length (w_rest w)
      then Some \<lparr>w_done = w_done w @ d, w_rest = drop (length d) (w_rest w)\<rparr> else None)"

definition put_u8 :: "byte \<Rightarrow> Writer \<Rightarrow> Writer option" where
  "put_u8 v w = put_data [v] w"

definition put_u16 :: "u16 \<Rightarrow> Writer \<Rightarrow> Writer option" where
  "put_u16 v w = put_data (bytes_of_u16 v) w"

definition put_u32 :: "u32 \<Rightarrow> Writer \<Rightarrow> Writer option" where
  "put_u32 v w = put_data (bytes_of_u32 v) w"

definition put_ip :: "'sa sa_ops \<Rightarrow> 'sa \<Rightarrow> Writer \<Rightarrow> Writer option" where
  "put_ip ops a w = put_data (so_addr ops a) w"

definition put_ip_padded :: "'sa sa_ops \<Rightarrow> 'sa \<Rightarrow> Writer \<Rightarrow> Writer option" where
  "put_ip_padded ops a w =
     do {
       w \<leftarrow> (if so_is_ipv4 ops a then put_data (replicate 12 0) w else Some w);
       put_ip ops a w
     }"

section \<open>The reader\<close>

definition reader_drain :: "nat \<Rightarrow> bytes \<Rightarrow> bytes" where
  "reader_drain n r = drop (min n (length r)) r"

fun get_u8 :: "bytes \<Rightarrow> (byte \<times> bytes) option" where
  "get_u8 (a # r) = Some (a, r)"
| "get_u8 _ = None"

fun get_u16 :: "bytes \<Rightarrow> (u16 \<times> bytes) option" where
  "get_u16 (a # b # r) = Some (u16_of_bytes a b, r)"
| "get_u16 _ = None"

fun get_u32 :: "bytes \<Rightarrow> (u32 \<times> bytes) option" where
  "get_u32 (a # b # c # d # r) = Some (u32_of_bytes a b c d, r)"
| "get_u32 _ = None"

definition get_ip :: "'sa sa_ops \<Rightarrow> bool \<Rightarrow> bytes \<Rightarrow> ('sa \<times> bytes) option" where
  "get_ip ops inet r =
     (let n = (if inet then 4 else 16)
      in if length r < n then None else Some (so_make ops (take n r) 0, drop n r))"

definition in6addr_loopback :: bytes where
  "in6addr_loopback = replicate 15 0 @ [1]"

definition get_ip_padded :: "'sa sa_ops \<Rightarrow> bytes \<Rightarrow> ('sa \<times> bytes) option" where
  "get_ip_padded ops r =
     (if length r < 16 then None
      else if list_all (\<lambda>i. i = 0) (take 12 r) \<and> take 16 r \<noteq> in6addr_loopback
      then get_ip ops True (drop 12 r)
      else get_ip ops False r)"

definition get_bytes :: "nat \<Rightarrow> bytes \<Rightarrow> (bytes \<times> bytes) option" where
  "get_bytes n r = (if length r < n then None else Some (take n r, drop n r))"

section \<open>Round trips\<close>

lemma get_u8_put [wire_simps]: "get_u8 ([v] @ r) = Some (v, r)"
  by simp

lemma get_u16_put [wire_simps]: "get_u16 (bytes_of_u16 v @ r) = Some (v, r)"
  by (simp add: bytes_of_u16_def u16_of_bytes_of_u16)

lemma get_u32_put [wire_simps]: "get_u32 (bytes_of_u32 v @ r) = Some (v, r)"
  by (simp add: bytes_of_u32_def u32_of_bytes_of_u32)

text \<open>Reading from a buffer that is long enough.\<close>

lemma get_u16_long: "2 \<le> length r \<Longrightarrow> \<exists>p. get_u16 r = Some (p, drop 2 r)"
  by (cases r rule: get_u16.cases) auto

lemma get_u32_long: "4 \<le> length r \<Longrightarrow> \<exists>p. get_u32 r = Some (p, drop 4 r)"
  by (cases r rule: get_u32.cases) auto

lemma get_ip_padded_long: "16 \<le> length r \<Longrightarrow> \<exists>a. get_ip_padded ops r = Some (a, drop 16 r)"
  by (auto simp: get_ip_padded_def get_ip_def)

text \<open>The bytes of a padded address.\<close>

definition padded_ip :: "'sa sa_ops \<Rightarrow> 'sa \<Rightarrow> bytes" where
  "padded_ip ops a = (if so_is_ipv4 ops a then replicate 12 0 else []) @ so_addr ops a"

lemma length_padded_ip:
  "sa_laws ops \<Longrightarrow> so_is_ip ops a \<Longrightarrow> length (padded_ip ops a) = 16"
  by (auto simp: padded_ip_def sa_laws_def so_is_ip_def)

lemma put_data_Some: "put_data d \<lparr>w_done = x, w_rest = d' @ y\<rparr> = Some \<lparr>w_done = x @ d, w_rest = y\<rparr>"
  if "length d' = length d"
  using that by (simp add: put_data_def)

lemma put_ip_padded_eq:
  assumes "length (padded_ip ops a) \<le> length (w_rest w)"
  shows "put_ip_padded ops a w =
    Some \<lparr>w_done = w_done w @ padded_ip ops a, w_rest = drop (length (padded_ip ops a)) (w_rest w)\<rparr>"
  using assms by (auto simp: put_ip_padded_def put_ip_def put_data_def padded_ip_def add.commute)

text \<open>
  The addresses that do not survive: the IPv4 address 0.0.0.1, whose padded form is the IPv6
  loopback address, and the IPv6 addresses with twelve leading zero bytes other than it.
\<close>

definition ambiguous_ip :: "bytes \<Rightarrow> bool" where
  "ambiguous_ip b \<longleftrightarrow>
     b = [0, 0, 0, 1] \<or>
     length b = 16 \<and> list_all (\<lambda>i. i = 0) (take 12 b) \<and> b \<noteq> in6addr_loopback"

lemma list_all_zero: "list_all (\<lambda>i. i = 0) xs \<longleftrightarrow> xs = replicate (length xs) (0 :: byte)"
  by (induction xs) auto

lemma get_ip_padded_v4:
  assumes "length b = 4"
  shows "get_ip_padded ops (replicate 12 0 @ b @ r) =
    (if b = [0, 0, 0, 1] then Some (so_make ops (replicate 12 0 @ b) 0, r) else Some (so_make ops b 0, r))"
proof -
  have "in6addr_loopback = replicate 12 0 @ [0, 0, 0, 1]"
    by (simp add: in6addr_loopback_def eval_nat_numeral)
  note loopback = this
  have "take 16 (replicate 12 0 @ b @ r) = in6addr_loopback \<longleftrightarrow> b = [0, 0, 0, 1]"
    using assms by (simp add: loopback)
  then show ?thesis
    using assms by (simp add: get_ip_padded_def get_ip_def list_all_zero)
qed

lemma get_ip_padded_v6:
  assumes "length b = 16"
  shows "get_ip_padded ops (b @ r) =
    (if ambiguous_ip b then Some (so_make ops (drop 12 b) 0, r) else Some (so_make ops b 0, r))"
proof -
  have "b \<noteq> [0, 0, 0, 1]" using assms by auto
  then show ?thesis using assms by (auto simp: get_ip_padded_def get_ip_def ambiguous_ip_def)
qed

lemma padded_ip_ok:
  assumes "sa_laws ops" "so_is_ip ops a" "\<not> ambiguous_ip (so_addr ops a)"
  shows "get_ip_padded ops (padded_ip ops a @ r) = Some (so_set_port ops 0 a, r)"
proof (cases "so_is_ipv4 ops a")
  case True
  then have "length (so_addr ops a) = 4" "so_set_port ops 0 a = so_make ops (so_addr ops a) 0"
    using assms(1) by (auto simp: sa_laws_def)
  then show ?thesis
    using True assms(3) get_ip_padded_v4 [of "so_addr ops a"] by (simp add: padded_ip_def ambiguous_ip_def)
next
  case False
  then have "length (so_addr ops a) = 16" "so_set_port ops 0 a = so_make ops (so_addr ops a) 0"
    using assms(1,2) by (auto simp: sa_laws_def so_is_ip_def)
  then show ?thesis
    using False assms(3) get_ip_padded_v6 [of "so_addr ops a"] by (simp add: padded_ip_def)
qed

lemma padded_ip_lost:
  assumes "sa_laws ops" "so_is_ip ops a" "ambiguous_ip (so_addr ops a)"
  shows "\<exists>b. get_ip_padded ops (padded_ip ops a @ r) = Some (b, r) \<and> so_is_ipv4 ops b = so_is_ipv6 ops a"
proof (cases "so_is_ipv4 ops a")
  case True
  then have len: "length (so_addr ops a) = 4" using assms(1) by (auto simp: sa_laws_def)
  then have "so_addr ops a = [0, 0, 0, 1]" using assms(3) by (auto simp: ambiguous_ip_def)
  moreover have "\<not> so_is_ipv6 ops a" using assms(1) len unfolding sa_laws_def by force
  ultimately show ?thesis
    using True len assms(1) get_ip_padded_v4 [of "so_addr ops a" ops r]
    by (simp add: padded_ip_def) (simp add: sa_laws_def)
next
  case False
  then have "length (so_addr ops a) = 16" "so_is_ipv6 ops a"
    using assms(1,2) by (auto simp: sa_laws_def so_is_ip_def)
  then show ?thesis
    using False assms get_ip_padded_v6 [of "so_addr ops a" ops r]
    by (simp add: padded_ip_def) (simp add: sa_laws_def)
qed

text \<open>An IP address that survives the padded form.\<close>

definition good_address :: "'sa sa_ops \<Rightarrow> 'sa \<Rightarrow> bool" where
  "good_address ops a \<longleftrightarrow> so_is_ip ops a \<and> \<not> ambiguous_ip (so_addr ops a)"

lemma set_port_back:
  assumes "sa_laws ops" "so_is_ip ops a"
  shows "so_set_port ops (so_port ops a) (so_set_port ops 0 a) = a"
proof -
  have a: "so_set_port ops 0 a = so_make ops (so_addr ops a) 0"
    "so_make ops (so_addr ops a) (so_port ops a) = a" "length (so_addr ops a) = 4 \<or> length (so_addr ops a) = 16"
    using assms by (auto simp: sa_laws_def so_is_ip_def)
  then have "so_is_ipv4 ops (so_set_port ops 0 a) \<or> so_is_ipv6 ops (so_set_port ops 0 a)"
    "so_addr ops (so_set_port ops 0 a) = so_addr ops a"
    using assms(1) unfolding sa_laws_def by auto
  then have "so_set_port ops (so_port ops a) (so_set_port ops 0 a) = so_make ops (so_addr ops a) (so_port ops a)"
    using assms(1) unfolding sa_laws_def by auto
  with a show ?thesis by simp
qed

text \<open>Writing into a fresh buffer.\<close>

lemma put_data_zeros:
  "length d \<le> k \<Longrightarrow> put_data d \<lparr>w_done = x, w_rest = replicate k 0\<rparr> =
     Some \<lparr>w_done = x @ d, w_rest = replicate (k - length d) 0\<rparr>"
  by (simp add: put_data_def)

lemma put_byte_zeros:
  "put_data [v] \<lparr>w_done = x, w_rest = 0 # replicate k 0\<rparr> = Some \<lparr>w_done = x @ [v], w_rest = replicate k 0\<rparr>"
  by (simp add: put_data_def)

lemma put_ip_zeros:
  "length (padded_ip ops a) = 16 \<Longrightarrow> 16 \<le> k \<Longrightarrow> put_ip_padded ops a \<lparr>w_done = x, w_rest = replicate k 0\<rparr> =
     Some \<lparr>w_done = x @ padded_ip ops a, w_rest = replicate (k - 16) 0\<rparr>"
  by (simp add: put_ip_padded_eq)



end
