(* ===== verification/Memory_Buffer.thy ===== *)
theory Memory_Buffer
  imports Prelude
begin

text \<open>
  The byte buffers that keep downloaded data until the application side accepts it: the
  interface \<open>DataBuffer\<close> (\<^verbatim>\<open>core/include/vpn/internal/data_buffer.h\<close>) as a
  locale whose laws say that a buffer is a byte queue, and its in-memory implementation
  \<open>MemoryBuffer\<close> (\<^verbatim>\<open>core/src/memory_buffer.cpp\<close>), a queue of chunks with a
  running total. Sizes are natural numbers: the total is bounded by the process memory.
\<close>

section \<open>MemoryBuffer\<close>

record MemoryBuffer =
  m_total_size :: nat
  m_chunks :: "bytes list"

definition memory_buffer_new :: MemoryBuffer where
  "memory_buffer_new = \<lparr>m_total_size = 0, m_chunks = []\<rparr>"

definition mb_init :: "MemoryBuffer \<Rightarrow> string option" where
  "mb_init b = None"

definition mb_size :: "MemoryBuffer \<Rightarrow> nat" where
  "mb_size b = m_total_size b"

definition mb_push :: "MemoryBuffer \<Rightarrow> bytes \<Rightarrow> string option \<times> MemoryBuffer" where
  "mb_push b data =
     (None, if data \<noteq> []
            then b\<lparr>m_total_size := m_total_size b + length data, m_chunks := m_chunks b @ [data]\<rparr>
            else b)"

definition mb_peek :: "MemoryBuffer \<Rightarrow> string option \<times> bytes" where
  "mb_peek b = (None, case m_chunks b of [] \<Rightarrow> [] | front # _ \<Rightarrow> front)"

text \<open>
  The loop of \<open>drain\<close>. \<open>None\<close> is a failed assertion: the loop wants more bytes than
  the chunks hold.
\<close>

function drain_chunks :: "nat \<Rightarrow> bytes list \<Rightarrow> bytes list option" where
  "drain_chunks len chunks =
     (if 0 < len then
        (case chunks of
           [] \<Rightarrow> None
         | front # rest \<Rightarrow>
             let to_remove = min (length front) len in
             if to_remove = length front
             then drain_chunks (len - to_remove) rest
             else drain_chunks (len - to_remove) (drop to_remove front # rest))
      else Some chunks)"
  by pat_completeness auto
termination
  by (relation "measures [\<lambda>(n, cs). length cs, \<lambda>(n, cs). n]") (auto simp: min_def split: if_splits)

declare drain_chunks.simps [simp del]

definition mb_drain :: "MemoryBuffer \<Rightarrow> nat \<Rightarrow> MemoryBuffer option" where
  "mb_drain b len =
     (if len \<le> m_total_size b
      then map_option (\<lambda>cs. b\<lparr>m_total_size := m_total_size b - len, m_chunks := cs\<rparr>)
             (drain_chunks len (m_chunks b))
      else None)"

lemmas mb_defs [buf_defs] =
  memory_buffer_new_def mb_init_def mb_size_def mb_push_def mb_peek_def mb_drain_def

section \<open>Invariant and abstraction\<close>

definition mb_inv :: "MemoryBuffer \<Rightarrow> bool" where
  "mb_inv b \<longleftrightarrow> m_total_size b = length (concat (m_chunks b)) \<and> [] \<notin> set (m_chunks b)"

definition mb_bytes :: "MemoryBuffer \<Rightarrow> bytes" where
  "mb_bytes b = concat (m_chunks b)"

lemma drain_chunks_concat:
  "n \<le> length (concat cs) \<Longrightarrow> [] \<notin> set cs \<Longrightarrow>
   \<exists>cs'. drain_chunks n cs = Some cs' \<and> concat cs' = drop n (concat cs) \<and> [] \<notin> set cs'"
proof (induction n cs rule: drain_chunks.induct)
  case (1 n cs)
  show ?case
  proof (cases "0 < n")
    case False
    then show ?thesis using "1.prems" by (simp add: drain_chunks.simps)
  next
    case pos: True
    with "1.prems" obtain front rest where cs: "cs = front # rest" by (cases cs) auto
    define k where "k = min (length front) n"
    show ?thesis
    proof (cases "k = length front")
      case True
      have "\<exists>cs'. drain_chunks (n - k) rest = Some cs' \<and>
              concat cs' = drop (n - k) (concat rest) \<and> [] \<notin> set cs'"
        using "1.IH"(1) [OF pos cs refl] True "1.prems" cs by (simp add: k_def)
      moreover have "drain_chunks n cs = drain_chunks (n - k) rest"
        using pos cs True by (simp add: drain_chunks.simps [of n "front # rest"] k_def [symmetric])
      moreover have "length front \<le> n" using True by (simp add: k_def)
      ultimately show ?thesis using cs True by auto
    next
      case False
      then have k: "k = n" "n < length front" by (auto simp: k_def)
      have "drain_chunks n cs = Some (drop n front # rest)"
        using pos cs False k
        by (simp add: drain_chunks.simps [of n "front # rest"] drain_chunks.simps [of 0])
      then show ?thesis using cs k "1.prems" by simp
    qed
  qed
qed

section \<open>The interface\<close>

text \<open>
  What a client of \<open>DataBuffer\<close> relies on: pushing appends as long as there is room, a peek shows a
  prefix that is not empty while there is data, draining up to the shown amount removes it from the front, the
  reported size is the number of stored bytes. \<open>content\<close> is the abstract byte queue, and \<open>room\<close> says how
  much a buffer can hold. A peek may change the state of the buffer, and \<open>None\<close> is a failed assertion.
\<close>

datatype BufferCall = PushBytes bytes | TakeBytes nat

fun pushed_bytes :: "BufferCall list \<Rightarrow> bytes" where
  "pushed_bytes [] = []"
| "pushed_bytes (PushBytes d # cs) = d @ pushed_bytes cs"
| "pushed_bytes (TakeBytes n # cs) = pushed_bytes cs"

text \<open>A client that pushes, and that takes some of the shown bytes; the result is what it took, if nothing failed.\<close>

fun buffer_run ::
    "('b \<Rightarrow> bytes \<Rightarrow> string option \<times> 'b) \<Rightarrow> ('b \<Rightarrow> (string option \<times> bytes \<times> 'b) option) \<Rightarrow> ('b \<Rightarrow> nat \<Rightarrow> 'b option)
     \<Rightarrow> BufferCall list \<Rightarrow> 'b \<Rightarrow> (bytes \<times> 'b) option" where
  "buffer_run push peek drain [] b = Some ([], b)"
| "buffer_run push peek drain (PushBytes d # cs) b =
    (case push b d of
       (None, b') \<Rightarrow> buffer_run push peek drain cs b'
     | (Some err, b') \<Rightarrow> None)"
| "buffer_run push peek drain (TakeBytes n # cs) b =
    (case peek b of
       Some (None, d, b') \<Rightarrow>
         (case drain b' (min n (length d)) of
            Some b'' \<Rightarrow> map_option (map_prod (\<lambda>out. take n d @ out) id) (buffer_run push peek drain cs b'')
          | None \<Rightarrow> None)
     | _ \<Rightarrow> None)"

locale data_buffer =
  fixes push :: "'b \<Rightarrow> bytes \<Rightarrow> string option \<times> 'b"
    and peek :: "'b \<Rightarrow> (string option \<times> bytes \<times> 'b) option"
    and drain :: "'b \<Rightarrow> nat \<Rightarrow> 'b option"
    and size_of :: "'b \<Rightarrow> nat option"
    and content :: "'b \<Rightarrow> bytes"
    and invar :: "'b \<Rightarrow> bool"
    and room :: "nat \<Rightarrow> bool"
  assumes room_less: "room n \<Longrightarrow> m \<le> n \<Longrightarrow> room m"
    and push_law: "invar b \<Longrightarrow> room (length (content b) + length d) \<Longrightarrow>
          \<exists>b'. push b d = (None, b') \<and> content b' = content b @ d \<and> invar b'"
    and peek_law: "invar b \<Longrightarrow> \<exists>d r b'. peek b = Some (None, d, b') \<and> invar b' \<and> content b' = content b
          \<and> content b = d @ r \<and> (content b \<noteq> [] \<longrightarrow> d \<noteq> [])
          \<and> (\<forall>n\<le>length d. \<exists>b''. drain b' n = Some b'' \<and> content b'' = drop n (content b) \<and> invar b'')"
    and size_law: "invar b \<Longrightarrow> size_of b = Some (length (content b))"
begin

text \<open>What goes in comes out once and in order.\<close>

lemma run_fifo:
  "invar b \<Longrightarrow> room (length (content b) + length (pushed_bytes cs)) \<Longrightarrow>
   \<exists>out b'. buffer_run push peek drain cs b = Some (out, b') \<and> invar b' \<and> out @ content b' = content b @ pushed_bytes cs"
proof (induction cs arbitrary: b)
  case Nil
  then show ?case by simp
next
  case (Cons c cs)
  show ?case
  proof (cases c)
    case (PushBytes d)
    obtain b' where b': "push b d = (None, b')" "content b' = content b @ d" "invar b'"
      using push_law [OF Cons.prems(1), of d] room_less [OF Cons.prems(2)] PushBytes by auto
    then show ?thesis using Cons.IH [OF b'(3)] Cons.prems(2) PushBytes by (simp add: add.assoc)
  next
    case (TakeBytes n)
    obtain d r b' where b': "peek b = Some (None, d, b')" "content b = d @ r"
      "\<forall>n\<le>length d. \<exists>b''. drain b' n = Some b'' \<and> content b'' = drop n (content b) \<and> invar b''"
      using peek_law [OF Cons.prems(1)] by blast
    then obtain b'' where b'': "drain b' (min n (length d)) = Some b''" "invar b''"
      "content b'' = drop (min n (length d)) (content b)" by (metis min.cobounded2)
    have whole: "content b = take n d @ content b''" using b'(2) b''(3) by (cases "n \<le> length d") auto
    have "room (length (content b'') + length (pushed_bytes cs))"
      using room_less [OF Cons.prems(2)] whole TakeBytes by simp
    then obtain out b3 where "buffer_run push peek drain cs b'' = Some (out, b3)" "invar b3"
      "out @ content b3 = content b'' @ pushed_bytes cs" using Cons.IH [OF b''(2)] by blast
    then show ?thesis using b'(1) b''(1) whole TakeBytes by simp
  qed
qed

end

lemma mb_drain_bytes:
  assumes "mb_inv b" "n \<le> length (mb_bytes b)"
  shows "\<exists>b'. mb_drain b n = Some b' \<and> mb_bytes b' = drop n (mb_bytes b) \<and> mb_inv b'"
  using drain_chunks_concat [of n "m_chunks b"] assms by (auto simp: mb_drain_def mb_bytes_def mb_inv_def)

lemma mb_peek_bytes:
  assumes "mb_inv b"
  shows "\<exists>r. mb_bytes b = snd (mb_peek b) @ r \<and> (mb_bytes b \<noteq> [] \<longrightarrow> snd (mb_peek b) \<noteq> [])" "fst (mb_peek b) = None"
  using assms by (auto simp: mb_peek_def mb_bytes_def mb_inv_def split: list.splits)

lemma mb_push_bytes:
  "mb_inv b \<Longrightarrow> \<exists>b'. mb_push b d = (None, b') \<and> mb_bytes b' = mb_bytes b @ d \<and> mb_inv b'"
  by (auto simp: buf_defs mb_inv_def mb_bytes_def)

lemma mb_size_bytes: "mb_inv b \<Longrightarrow> mb_size b = length (mb_bytes b)"
  by (simp add: buf_defs mb_inv_def mb_bytes_def)

interpretation mb: data_buffer mb_push "\<lambda>b. Some (fst (mb_peek b), snd (mb_peek b), b)" mb_drain "\<lambda>b. Some (mb_size b)"
    mb_bytes mb_inv "\<lambda>_. True"
proof (unfold_locales, goal_cases)
  case (2 b d)
  then show ?case by (simp add: mb_push_bytes)
next
  case (3 b)
  obtain r where r: "mb_bytes b = snd (mb_peek b) @ r" "mb_bytes b \<noteq> [] \<longrightarrow> snd (mb_peek b) \<noteq> []"
    using mb_peek_bytes(1) [OF 3] by blast
  have "\<exists>b''. mb_drain b n = Some b'' \<and> mb_bytes b'' = drop n (mb_bytes b) \<and> mb_inv b''"
    if "n \<le> length (snd (mb_peek b))" for n
    by (rule mb_drain_bytes [OF 3]) (use that r(1) in simp)
  then show ?case
    by (intro exI [of _ "snd (mb_peek b)"] exI [of _ r] exI [of _ b]) (use 3 r mb_peek_bytes(2) [OF 3] in simp)
qed (simp_all add: mb_size_bytes)

end
