(* ===== verification/Files.thy ===== *)
theory Files
  imports Prelude
begin

text \<open>
  Files of the operating system as the program uses them: an array of bytes that a write at a position
  overwrites and extends. A read or a write of the system may transfer less than it was asked to and may fail; what
  it answers is decided outside, by a function from the number of the call to its result. Integers are
  stored in the byte order of the machine, little endian on every supported platform.
\<close>

type_synonym File = bytes
type_synonym Answer = "nat \<Rightarrow> int"

text \<open>Bytes put at a position; a gap is filled with zeros.\<close>

definition overwrite :: "nat \<Rightarrow> bytes \<Rightarrow> File \<Rightarrow> File" where
  "overwrite pos d f = take pos f @ replicate (pos - length f) 0 @ d @ drop (pos + length d) f"

text \<open>Every call of the system makes progress, be it by one byte only.\<close>

definition healthy :: "Answer \<Rightarrow> bool" where
  "healthy ans \<longleftrightarrow> (\<forall>i. 0 < ans i)"

lemma healthy_not_negative [simp]: "healthy ans \<Longrightarrow> \<not> ans i < 0"
  by (simp add: healthy_def less_imp_le not_less)

lemma length_overwrite [simp]: "length (overwrite pos d f) = max (length f) (pos + length d)"
  by (auto simp: overwrite_def)

lemma nth_overwrite:
  "i < max (length f) (pos + length d) \<Longrightarrow>
   overwrite pos d f ! i = (if i < pos then if i < length f then f ! i else 0
                            else if i < pos + length d then d ! (i - pos) else f ! i)"
  by (auto simp: overwrite_def nth_append min_def not_less)

lemma overwrite_split:
  assumes "n \<le> length d" "0 < n"
  shows "overwrite (pos + n) (drop n d) (overwrite pos (take n d) f) = overwrite pos d f"
proof (rule nth_equalityI)
  show "length (overwrite (pos + n) (drop n d) (overwrite pos (take n d) f)) = length (overwrite pos d f)"
    using assms by auto
next
  fix i assume i: "i < length (overwrite (pos + n) (drop n d) (overwrite pos (take n d) f))"
  then show "overwrite (pos + n) (drop n d) (overwrite pos (take n d) f) ! i = overwrite pos d f ! i"
    using assms by (auto simp: nth_overwrite)
qed

text \<open>The bytes of a region after a write.\<close>

definition region :: "nat \<Rightarrow> nat \<Rightarrow> File \<Rightarrow> bytes" where
  "region pos n f = take n (drop pos f)"

lemma region_overwrite_same [simp]: "region pos (length d) (overwrite pos d f) = d"
proof (rule nth_equalityI)
  show len: "length (region pos (length d) (overwrite pos d f)) = length d" by (simp add: region_def)
  show "region pos (length d) (overwrite pos d f) ! i = d ! i"
    if "i < length (region pos (length d) (overwrite pos d f))" for i
    using that len by (simp add: region_def nth_overwrite)
qed

lemma region_overwrite_other:
  assumes "pos + n \<le> length f" "pos + n \<le> p \<or> p + length d \<le> pos"
  shows "region pos n (overwrite p d f) = region pos n f"
proof (rule nth_equalityI)
  show "length (region pos n (overwrite p d f)) = length (region pos n f)" using assms(1) by (auto simp: region_def)
  show "region pos n (overwrite p d f) ! i = region pos n f ! i" if "i < length (region pos n (overwrite p d f))" for i
    using that assms by (auto simp: region_def nth_overwrite)
qed

section \<open>Stored integers\<close>

fun store :: "nat \<Rightarrow> int \<Rightarrow> bytes" where
  "store 0 x = []"
| "store (Suc n) x = of_int (x mod 256) # store n (x div 256)"

fun load :: "bytes \<Rightarrow> int" where
  "load [] = 0"
| "load (b # bs) = uint b + 256 * load bs"

lemma length_store [simp]: "length (store n x) = n"
  by (induction n arbitrary: x) simp_all

lemma load_store: "0 \<le> x \<Longrightarrow> x < 256 ^ n \<Longrightarrow> load (store n x) = x"
proof (induction n arbitrary: x)
  case 0
  then show ?case by simp
next
  case (Suc n)
  have "x div 256 < 256 ^ n" using Suc.prems by (simp add: div_less_iff_less_mult mult.commute)
  moreover have "uint (of_int (x mod 256) :: byte) = x mod 256" by (simp add: uint_word_of_int)
  ultimately show ?case using Suc by (simp add: pos_imp_zdiv_nonneg_iff)
qed

definition store32 :: "u32 \<Rightarrow> bytes" where
  "store32 x = store 4 (uint x)"

definition store64 :: "u64 \<Rightarrow> bytes" where
  "store64 x = store 8 (uint x)"

definition load32 :: "bytes \<Rightarrow> u32" where
  "load32 bs = of_int (load bs)"

definition load64 :: "bytes \<Rightarrow> u64" where
  "load64 bs = of_int (load bs)"

lemma load32_store32 [simp]: "load32 (store32 x) = x"
  using unsigned_less [of x, where ?'a = int] by (simp add: load32_def store32_def load_store)

lemma load64_store64 [simp]: "load64 (store64 x) = x"
  using unsigned_less [of x, where ?'a = int] by (simp add: load64_def store64_def load_store)

lemma length_store32 [simp]: "length (store32 x) = 4" "length (store64 y) = 8"
  by (simp_all add: store32_def store64_def)

end
