(* ===== verification/Memfile_Buffer.thy ===== *)
theory Memfile_Buffer
  imports Memory_Buffer Files
begin

text \<open>
  The byte buffer that spills into a file (\<^verbatim>\<open>core/src/memfile_buffer.cpp\<close>): up to a threshold the bytes stay in a memory
  buffer, what exceeds it is appended to a file, from which the memory buffer is refilled as it is
  drained.

  The state holds the buffer together with the files at its path and at the path of the
  temporary copy; a call of the system is answered by the parameter \<open>ans\<close>, as for the other files. An operation whose
  result is \<open>None\<close> has failed an assertion or has undefined behaviour.
\<close>

section \<open>State\<close>

record MemfileBuffer =
  m_mem_buffer :: MemoryBuffer
  m_threshold :: nat
  m_max_file_size :: u64
  m_fd :: bool
  m_read_offset :: nat
  path_file :: "File option"
  tmp_file :: "File option"
  io_calls :: nat

definition memfile_new :: "nat \<Rightarrow> u64 \<Rightarrow> MemfileBuffer" where
  "memfile_new mem_threshold max_file_size =
    \<lparr>m_mem_buffer = memory_buffer_new, m_threshold = mem_threshold, m_max_file_size = max_file_size, m_fd = False,
     m_read_offset = 0, path_file = None, tmp_file = None, io_calls = 0\<rparr>"

abbreviation the_file :: "MemfileBuffer \<Rightarrow> File" where
  "the_file s \<equiv> (case path_file s of None \<Rightarrow> [] | Some f \<Rightarrow> f)"

definition called :: "nat \<Rightarrow> MemfileBuffer \<Rightarrow> MemfileBuffer" where
  "called n s = s\<lparr>io_calls := io_calls s + n\<rparr>"

definition get_free_mem_space :: "MemfileBuffer \<Rightarrow> nat" where
  "get_free_mem_space s = m_threshold s - mb_size (m_mem_buffer s)"

definition mf_init :: "MemfileBuffer \<Rightarrow> string option" where
  "mf_init s = mb_init (m_mem_buffer s)"

text \<open>The size of the open file, negative on failure.\<close>

definition get_size :: "Answer \<Rightarrow> MemfileBuffer \<Rightarrow> int" where
  "get_size ans s = (if ans (io_calls s) < 0 then -1 else int (length (the_file s)))"

definition mf_size :: "Answer \<Rightarrow> MemfileBuffer \<Rightarrow> nat option \<times> MemfileBuffer" where
  "mf_size ans s =
    (if m_fd s
     then (if int (m_read_offset s) \<le> get_size ans s
           then Some (mb_size (m_mem_buffer s) + (nat (max (get_size ans s) 0) - m_read_offset s)) else None, called 1 s)
     else (if m_read_offset s = 0 then Some (mb_size (m_mem_buffer s)) else None, s))"

section \<open>Refilling the memory\<close>

text \<open>The loop reads until the chunk is complete; it moves the read offset with every read.\<close>

function refill_loop :: "Answer \<Rightarrow> nat \<Rightarrow> nat \<Rightarrow> nat \<Rightarrow> File \<Rightarrow> string option \<times> nat \<times> nat" where
  "refill_loop ans i left off f =
    (if left = 0 then (None, off, i)
     else if ans i < 0 then (Some ''Failed to read file content'', off, Suc i)
     else let ret = nat (min (ans i) (int (min left (length f - off))))
          in if ret = 0 then (Some ''Unexpected EOF while reading file content'', off, Suc i)
             else refill_loop ans (Suc i) (left - ret) (off + ret) f)"
  by pat_completeness auto
termination by (relation "measure (\<lambda>(ans, i, left, off, f). left)") auto

declare refill_loop.simps [simp del]

definition refill :: "Answer \<Rightarrow> nat \<Rightarrow> MemfileBuffer \<Rightarrow> string option \<times> MemfileBuffer" where
  "refill ans to_read s =
    (if ans (io_calls s) < 0 then (Some ''Failed to set file offset'', called 1 s)
     else case refill_loop ans (Suc (io_calls s)) to_read (m_read_offset s) (the_file s) of
            (Some err, off, i) \<Rightarrow> (Some err, s\<lparr>m_read_offset := off, io_calls := i\<rparr>)
          | (None, off, i) \<Rightarrow>
              (case mb_push (m_mem_buffer s) (region (m_read_offset s) to_read (the_file s)) of
                 (err, m) \<Rightarrow> (err, s\<lparr>m_mem_buffer := m, m_read_offset := off, io_calls := i\<rparr>)))"

definition transfer_file2mem :: "Answer \<Rightarrow> MemfileBuffer \<Rightarrow> (string option \<times> MemfileBuffer) option" where
  "transfer_file2mem ans s =
    (if \<not> m_fd s then Some (None, s)
     else if get_free_mem_space s = 0 then Some (None, s)
     else let fsize = get_size ans s; s1 = called 1 s
          in if fsize = 0 then Some (None, s1)
             else if fsize < 0 then Some (Some ''Failed to get file size'', s1)
             else if fsize < int (m_read_offset s) then None
             else if fsize = int (m_read_offset s) then Some (None, s1)
             else Some (refill ans (min (get_free_mem_space s) (nat fsize - m_read_offset s)) s1))"

section \<open>Filling the memory\<close>

definition transfer_mem2mem :: "MemfileBuffer \<Rightarrow> bytes \<Rightarrow> bytes \<times> MemfileBuffer" where
  "transfer_mem2mem s data =
    (let free_space = get_free_mem_space s
     in if free_space = 0 then (data, s)
        else let chunk = (if length data \<le> free_space then data else take free_space data)
             in case mb_push (m_mem_buffer s) chunk of
                  (None, m) \<Rightarrow> (drop (length chunk) data, s\<lparr>m_mem_buffer := m\<rparr>)
                | (Some err, m) \<Rightarrow> (data, s\<lparr>m_mem_buffer := m\<rparr>))"

text \<open>
  The overload for a vector swaps the data away when it fits and then erases as many elements as the chunk has
  from the front of the vector, which is empty by then.
\<close>

definition transfer_mem2mem_vector :: "MemfileBuffer \<Rightarrow> bytes \<Rightarrow> (bytes \<times> MemfileBuffer) option" where
  "transfer_mem2mem_vector s data =
    (let free_space = get_free_mem_space s
     in if free_space = 0 then Some (data, s)
        else let (chunk, left) = (if length data \<le> free_space then (data, []) else (take free_space data, data))
             in case mb_push (m_mem_buffer s) chunk of
                  (None, m) \<Rightarrow> if length chunk \<le> length left then Some (drop (length chunk) left, s\<lparr>m_mem_buffer := m\<rparr>) else None
                | (Some err, m) \<Rightarrow> Some (left, s\<lparr>m_mem_buffer := m\<rparr>))"

section \<open>Stripping the file\<close>

text \<open>Both loops transfer to and from the start of the block, whatever was transferred before.\<close>

function block_read :: "Answer \<Rightarrow> nat \<Rightarrow> nat \<Rightarrow> nat \<Rightarrow> File \<Rightarrow> bytes \<Rightarrow> bytes option \<times> nat" where
  "block_read ans i left pos src block =
    (if left = 0 then (Some block, i)
     else if ans i < 0 then (None, Suc i)
     else let r = nat (min (ans i) (int (min left (length src - pos))))
          in if r = 0 then (None, Suc i)
             else block_read ans (Suc i) (left - r) (pos + r) src (overwrite 0 (region pos r src) block))"
  by pat_completeness auto
termination by (relation "measure (\<lambda>(ans, i, left, pos, src, block). left)") auto

function block_write :: "Answer \<Rightarrow> nat \<Rightarrow> nat \<Rightarrow> bytes \<Rightarrow> File \<Rightarrow> bool \<times> nat \<times> File" where
  "block_write ans i left block dst =
    (if left = 0 then (True, i, dst)
     else if ans i \<le> 0 then (False, Suc i, dst)
     else let r = nat (min (ans i) (int left))
          in block_write ans (Suc i) (left - r) block (dst @ take r block))"
  by pat_completeness auto
termination by (relation "measure (\<lambda>(ans, i, left, block, dst). left)") auto

declare block_read.simps [simp del] block_write.simps [simp del]

definition transfer_file2file :: "Answer \<Rightarrow> nat \<Rightarrow> nat \<Rightarrow> nat \<Rightarrow> File \<Rightarrow> File \<Rightarrow> string option \<times> nat \<times> File" where
  "transfer_file2file ans i sz pos src dst =
    (if sz = 0 then (None, i, dst)
     else case block_read ans i sz pos src (replicate sz 0) of
            (None, j) \<Rightarrow> (Some ''Failed to read file content'', j, dst)
          | (Some block, j) \<Rightarrow>
              (case block_write ans j sz block dst of
                 (True, k, dst') \<Rightarrow> (None, k, dst')
               | (False, k, dst') \<Rightarrow> (Some ''Failed to write file content'', k, dst')))"

definition need_to_strip_file :: "MemfileBuffer \<Rightarrow> nat \<Rightarrow> nat \<Rightarrow> bool" where
  "need_to_strip_file s fsize data_size \<longleftrightarrow>
    m_max_file_size s < of_nat fsize + of_nat data_size
    \<or> (0 < m_read_offset s
       \<and> (m_max_file_size s * 3 div 10 < of_nat (m_read_offset s)
          \<or> of_nat fsize * 3 div 10 < (of_nat (m_read_offset s) :: u64)
          \<or> m_max_file_size s * 8 div 10 < of_nat fsize))"

text \<open>The part of the function after the label: on an error the old file is put back and opened again.\<close>

definition strip_exit :: "Answer \<Rightarrow> string option \<Rightarrow> MemfileBuffer \<Rightarrow> string option \<times> MemfileBuffer" where
  "strip_exit ans err s =
    (case err of
       None \<Rightarrow> (None, s\<lparr>tmp_file := None\<rparr>)
     | Some e \<Rightarrow>
         if ans (io_calls s) < 0
         then (Some e, s\<lparr>m_fd := False, path_file := None, tmp_file := None, io_calls := io_calls s + 1\<rparr>)
         else (Some e, s\<lparr>m_fd := 0 \<le> ans (io_calls s + 1), path_file := tmp_file s, tmp_file := None,
                         io_calls := io_calls s + 2\<rparr>))"

definition strip_copy :: "Answer \<Rightarrow> nat \<Rightarrow> MemfileBuffer \<Rightarrow> string option \<times> MemfileBuffer" where
  "strip_copy ans fsize s =
    (if ans (io_calls s) < 0 then strip_exit ans (Some ''Failed to open file'') (called 1 s)
     else let s1 = s\<lparr>path_file := Some [], m_fd := True, io_calls := io_calls s + 1\<rparr>
          in if ans (io_calls s1) < 0 then strip_exit ans (Some ''Failed to open temp file'') (called 1 s1)
             else if ans (io_calls s1 + 1) < 0 then strip_exit ans (Some ''Failed to set file offset'') (called 2 s1)
             else case transfer_file2file ans (io_calls s1 + 2) (fsize - m_read_offset s1) (m_read_offset s1)
                         (the (tmp_file s1)) [] of
                    (Some e, i, f) \<Rightarrow>
                      strip_exit ans (Some (''Failed to transfer file content: '' @ e)) (s1\<lparr>path_file := Some f, io_calls := i\<rparr>)
                  | (None, i, f) \<Rightarrow>
                      strip_exit ans None (s1\<lparr>path_file := Some f, m_read_offset := 0, io_calls := i\<rparr>))"

definition strip_file :: "Answer \<Rightarrow> MemfileBuffer \<Rightarrow> string option \<times> MemfileBuffer" where
  "strip_file ans s =
    (let fsize = get_size ans s; s1 = called 1 s
     in if fsize < 0 then (Some ''Failed to get file size'', s1)
        else if nat fsize < m_read_offset s then (Some ''File size is less than the read offset'', s1)
        else let s2 = s1\<lparr>m_fd := False, io_calls := io_calls s1 + 1\<rparr>
             in if ans (io_calls s1) < 0 then (Some ''Failed to rename file'', s2)
                else strip_copy ans (nat fsize) (s2\<lparr>tmp_file := path_file s2, path_file := None\<rparr>))"

section \<open>Writing\<close>

definition append_to_file :: "Answer \<Rightarrow> bytes \<Rightarrow> MemfileBuffer \<Rightarrow> string option \<times> MemfileBuffer" where
  "append_to_file ans data s =
    (let fsize = get_size ans s; s1 = called 1 s
     in if fsize < 0 then (Some ''Failed to get file size'', s1)
        else if unat (m_max_file_size s) \<le> nat fsize then (Some ''File reached its capacity'', s1)
        else let to_write = take (min (length data) (unat (m_max_file_size s) - nat fsize)) data;
                 r = min (ans (io_calls s1)) (int (length to_write))
             in if to_write \<noteq> [] \<and> r \<le> 0 then (Some ''Failed to write data'', called 1 s1)
                else (None, (called 1 s1)\<lparr>path_file := Some (the_file s @ take (nat r) to_write)\<rparr>))"

definition write_in_file :: "Answer \<Rightarrow> bytes \<Rightarrow> MemfileBuffer \<Rightarrow> string option \<times> MemfileBuffer" where
  "write_in_file ans data s =
    (if data = [] then (None, s)
     else if \<not> m_fd s \<and> ans (io_calls s) < 0 then (Some ''Failed to open file'', called 1 s)
     else let s1 = (if m_fd s then s else s\<lparr>m_fd := True, path_file := Some (the_file s), io_calls := io_calls s + 1\<rparr>);
              fsize = get_size ans s1; s2 = called 1 s1
          in if fsize < 0 then (Some ''Failed to get file size'', s2)
             else if need_to_strip_file s2 (nat fsize) (length data)
             then (case strip_file ans s2 of
                     (Some err, s3) \<Rightarrow> (Some (''Failed to strip file: '' @ err), s3)
                   | (None, s3) \<Rightarrow> append_to_file ans data s3)
             else append_to_file ans data s2)"

section \<open>The operations of the interface\<close>

definition mf_push :: "Answer \<Rightarrow> MemfileBuffer \<Rightarrow> bytes \<Rightarrow> string option \<times> MemfileBuffer" where
  "mf_push ans s data = (case transfer_mem2mem s data of (left, s1) \<Rightarrow> write_in_file ans left s1)"

definition mf_push_vector :: "Answer \<Rightarrow> MemfileBuffer \<Rightarrow> bytes \<Rightarrow> (string option \<times> MemfileBuffer) option" where
  "mf_push_vector ans s data =
    map_option (\<lambda>(left, s1). write_in_file ans left s1) (transfer_mem2mem_vector s data)"

definition mf_peek :: "Answer \<Rightarrow> MemfileBuffer \<Rightarrow> (string option \<times> bytes \<times> MemfileBuffer) option" where
  "mf_peek ans s =
    map_option (\<lambda>(err, s1). case err of Some e \<Rightarrow> (Some e, [], s1) | None \<Rightarrow> (fst (mb_peek (m_mem_buffer s1)), snd (mb_peek (m_mem_buffer s1)), s1))
      (transfer_file2mem ans s)"

definition mf_drain :: "Answer \<Rightarrow> MemfileBuffer \<Rightarrow> nat \<Rightarrow> MemfileBuffer option" where
  "mf_drain ans s len =
    (case mb_drain (m_mem_buffer s) len of
       None \<Rightarrow> None
     | Some m \<Rightarrow> map_option snd (transfer_file2mem ans (s\<lparr>m_mem_buffer := m\<rparr>)))"

section \<open>Complete transfers\<close>

text \<open>A system that transfers all bytes it is asked to.\<close>

definition complete_io :: "Answer \<Rightarrow> bool" where
  "complete_io ans \<longleftrightarrow> (\<forall>i. 2 ^ 64 \<le> ans i)"

lemma complete_positive [simp]: "complete_io ans \<Longrightarrow> \<not> ans i < 0" "complete_io ans \<Longrightarrow> \<not> ans i \<le> 0"
  by (auto simp: complete_io_def not_less not_le intro: order_trans [of _ "2 ^ 64"] less_le_trans [of _ "2 ^ 64"])

lemma complete_amount: "complete_io ans \<Longrightarrow> n < 2 ^ 64 \<Longrightarrow> nat (min (ans i) (int n)) = n"
proof -
  assume a: "complete_io ans" "n < 2 ^ 64"
  then have "int n \<le> ans i" using order_trans [of "int n" "2 ^ 64" "ans i"] by (simp add: complete_io_def)
  then show ?thesis by (simp add: min_def)
qed

lemma refill_loop_complete:
  assumes "complete_io ans" "off + left \<le> length f" "length f < 2 ^ 64"
  shows "\<exists>i'. refill_loop ans i left off f = (None, off + left, i')"
proof (cases "left = 0")
  case True
  then show ?thesis by (simp add: refill_loop.simps)
next
  case False
  have n: "nat (min (ans i) (int (min left (length f - off)))) = left"
    using complete_amount [OF assms(1), of left i] assms by (simp add: min_absorb1)
  show ?thesis using False assms(1) n
    by (subst refill_loop.simps) (simp add: Let_def refill_loop.simps [of ans _ 0])
qed

lemma overwrite_whole: "length d = length b \<Longrightarrow> overwrite 0 d b = d"
  by (simp add: overwrite_def)

lemma block_read_complete:
  assumes "complete_io ans" "pos + left \<le> length src" "length src < 2 ^ 64" "length block = left" "0 < left"
  shows "\<exists>i'. block_read ans i left pos src block = (Some (region pos left src), i')"
proof -
  have n: "nat (min (ans i) (int (min left (length src - pos)))) = left"
    using complete_amount [OF assms(1), of left i] assms(2,3) by (simp add: min_absorb1)
  have "overwrite 0 (region pos left src) block = region pos left src"
    using assms(2,4) by (intro overwrite_whole) (simp add: region_def)
  then show ?thesis using assms(1,5) n
    by (subst block_read.simps) (simp add: Let_def block_read.simps [of ans _ 0])
qed

lemma block_write_complete:
  assumes "complete_io ans" "0 < left" "left < 2 ^ 64"
  shows "\<exists>i'. block_write ans i left block dst = (True, i', dst @ take left block)"
  using assms complete_amount [OF assms(1,3), of i]
  by (subst block_write.simps) (simp add: Let_def block_write.simps [of ans _ 0])

lemma transfer_file2file_complete:
  assumes "complete_io ans" "pos + sz \<le> length src" "length src < 2 ^ 64"
  shows "\<exists>i'. transfer_file2file ans i sz pos src [] = (None, i', region pos sz src)"
proof (cases "sz = 0")
  case True
  then show ?thesis by (simp add: transfer_file2file_def region_def)
next
  case False
  then obtain j where "block_read ans i sz pos src (replicate sz 0) = (Some (region pos sz src), j)"
    using block_read_complete [OF assms, of "replicate sz 0" i] by auto
  moreover obtain k where "block_write ans j sz (region pos sz src) [] = (True, k, [] @ take sz (region pos sz src))"
    using block_write_complete [OF assms(1), of sz j "region pos sz src" "[]"] False assms(2,3) by auto
  moreover have "take sz (region pos sz src) = region pos sz src" by (simp add: region_def)
  ultimately show ?thesis using False by (simp add: transfer_file2file_def)
qed

section \<open>The buffer is a queue\<close>

definition unread :: "MemfileBuffer \<Rightarrow> bytes" where
  "unread s = drop (m_read_offset s) (the_file s)"

definition mf_bytes :: "MemfileBuffer \<Rightarrow> bytes" where
  "mf_bytes s = mb_bytes (m_mem_buffer s) @ unread s"

text \<open>The parts of the state agree; the limits of the buffer are given.\<close>

definition mf_ok :: "nat \<Rightarrow> u64 \<Rightarrow> MemfileBuffer \<Rightarrow> bool" where
  "mf_ok T M s \<longleftrightarrow> m_threshold s = T \<and> m_max_file_size s = M \<and> mb_inv (m_mem_buffer s)
     \<and> length (mb_bytes (m_mem_buffer s)) \<le> T \<and> (m_fd s \<longleftrightarrow> path_file s \<noteq> None)
     \<and> m_read_offset s \<le> length (the_file s) \<and> length (the_file s) \<le> unat M"

text \<open>What is in the file was pushed after all that is in the memory: bytes wait in the file only while the memory is full.\<close>

definition mf_inv :: "nat \<Rightarrow> u64 \<Rightarrow> MemfileBuffer \<Rightarrow> bool" where
  "mf_inv T M s \<longleftrightarrow> mf_ok T M s \<and> (unread s \<noteq> [] \<longrightarrow> length (mb_bytes (m_mem_buffer s)) = T)"

lemma u64_bound: "unat (M :: u64) < 2 ^ 64"
  using unsigned_less [of M, where ?'a = nat] by simp

lemma mf_ok_file: "mf_ok T M s \<Longrightarrow> length (the_file s) < 2 ^ 64"
  using u64_bound [of M] by (simp add: mf_ok_def)

lemma free_space: "mf_ok T M s \<Longrightarrow> get_free_mem_space s = T - length (mb_bytes (m_mem_buffer s))"
  by (simp add: get_free_mem_space_def mf_ok_def mb_size_bytes)

lemma refill_complete:
  assumes "complete_io ans" "mf_ok T M s" "n \<le> length (unread s)" "n \<le> get_free_mem_space s"
  shows "\<exists>s'. refill ans n s = (None, s') \<and> mf_ok T M s' \<and> mf_bytes s' = mf_bytes s \<and> unread s' = drop n (unread s)
    \<and> mb_bytes (m_mem_buffer s') = mb_bytes (m_mem_buffer s) @ take n (unread s)"
proof -
  have ok: "m_read_offset s + n \<le> length (the_file s)"
    using assms(2,3) by (auto simp: mf_ok_def unread_def)
  obtain i where i: "refill_loop ans (Suc (io_calls s)) n (m_read_offset s) (the_file s) = (None, m_read_offset s + n, i)"
    using refill_loop_complete [OF assms(1) ok mf_ok_file [OF assms(2)]] by blast
  obtain m where m: "mb_push (m_mem_buffer s) (region (m_read_offset s) n (the_file s)) = (None, m)" "mb_inv m"
    "mb_bytes m = mb_bytes (m_mem_buffer s) @ region (m_read_offset s) n (the_file s)"
    using mb_push_bytes assms(2) unfolding mf_ok_def by blast
  define s' where "s' = s\<lparr>m_mem_buffer := m, m_read_offset := m_read_offset s + n, io_calls := i\<rparr>"
  have "refill ans n s = (None, s')" using i m(1) assms(1) by (simp add: refill_def s'_def)
  moreover have un: "unread s' = drop n (unread s)" by (simp add: unread_def s'_def add.commute)
  moreover have mem: "mb_bytes (m_mem_buffer s') = mb_bytes (m_mem_buffer s) @ take n (unread s)"
    using m(3) by (simp add: s'_def unread_def region_def)
  moreover have "mf_bytes s' = mf_bytes s" using un mem by (simp add: mf_bytes_def)
  moreover have "mf_ok T M s'"
    using assms(2,4) ok m(2) mem free_space [OF assms(2)] by (auto simp: mf_ok_def s'_def)
  ultimately show ?thesis by blast
qed

lemma called_simps [simp]:
  "m_mem_buffer (called n s) = m_mem_buffer s" "m_threshold (called n s) = m_threshold s"
  "m_max_file_size (called n s) = m_max_file_size s" "m_fd (called n s) = m_fd s" "m_read_offset (called n s) = m_read_offset s"
  "path_file (called n s) = path_file s" "tmp_file (called n s) = tmp_file s" "io_calls (called n s) = io_calls s + n"
  by (simp_all add: called_def)

lemma mf_called [simp]:
  "mf_ok T M (called n s) = mf_ok T M s" "unread (called n s) = unread s" "mf_bytes (called n s) = mf_bytes s"
  "get_free_mem_space (called n s) = get_free_mem_space s"
  by (simp_all add: mf_ok_def unread_def mf_bytes_def get_free_mem_space_def)

lemma transfer_file2mem_complete:
  assumes "complete_io ans" "mf_ok T M s"
  shows "\<exists>s'. transfer_file2mem ans s = Some (None, s') \<and> mf_inv T M s' \<and> mf_bytes s' = mf_bytes s
    \<and> (\<exists>k. mb_bytes (m_mem_buffer s') = mb_bytes (m_mem_buffer s) @ k)"
proof -
  have size: "get_size ans s = int (length (the_file s))" using assms(1) by (simp add: get_size_def)
  have le: "m_read_offset s \<le> length (the_file s)" using assms(2) by (simp add: mf_ok_def)
  consider "\<not> m_fd s" | "m_fd s" "get_free_mem_space s = 0" | "m_fd s" "get_free_mem_space s \<noteq> 0" "unread s = []"
    | "m_fd s" "get_free_mem_space s \<noteq> 0" "unread s \<noteq> []" by blast
  then show ?thesis
  proof cases
    case 1
    then have "unread s = []" using assms(2) by (simp add: unread_def mf_ok_def)
    then show ?thesis using 1 assms(2) by (simp add: transfer_file2mem_def mf_inv_def)
  next
    case 2
    then show ?thesis using assms(2) free_space [OF assms(2)]
      by (auto simp: transfer_file2mem_def mf_inv_def mf_ok_def)
  next
    case 3
    then have "length (the_file s) = m_read_offset s" using le by (simp add: unread_def)
    then have "transfer_file2mem ans s = Some (None, called 1 s)"
      using 3 size by (auto simp: transfer_file2mem_def Let_def)
    then show ?thesis using assms(2) 3(3) by (simp add: mf_inv_def)
  next
    case 4
    define n where "n = min (get_free_mem_space s) (length (the_file s) - m_read_offset s)"
    have lt: "m_read_offset s < length (the_file s)" "the_file s \<noteq> []" using 4(3) by (auto simp: unread_def)
    then have "transfer_file2mem ans s = Some (refill ans n (called 1 s))"
      using 4 size by (simp add: transfer_file2mem_def Let_def n_def)
    moreover obtain s' where "refill ans n (called 1 s) = (None, s')" "mf_ok T M s'" "mf_bytes s' = mf_bytes s"
      "unread s' = drop n (unread s)" "mb_bytes (m_mem_buffer s') = mb_bytes (m_mem_buffer s) @ take n (unread s)"
      using refill_complete [OF assms(1), of T M "called 1 s" n] assms(2) by (auto simp: n_def unread_def)
    moreover have "length (mb_bytes (m_mem_buffer s')) = T" if "unread s' \<noteq> []"
      using that calculation(5,6) free_space [OF assms(2)] assms(2) by (auto simp: n_def unread_def mf_ok_def min_def split: if_splits)
    ultimately show ?thesis by (auto simp: mf_inv_def)
  qed
qed

lemma strip_file_complete:
  assumes "complete_io ans" "mf_ok T M s" "m_fd s"
  shows "\<exists>s'. strip_file ans s = (None, s') \<and> mf_ok T M s' \<and> m_fd s' \<and> the_file s' = unread s \<and> unread s' = unread s
    \<and> m_mem_buffer s' = m_mem_buffer s"
proof -
  obtain f where f: "path_file s = Some f" using assms(2,3) by (auto simp: mf_ok_def)
  have le: "m_read_offset s \<le> length f" "length f < 2 ^ 64"
    using assms(2) f mf_ok_file [OF assms(2)] by (simp_all add: mf_ok_def)
  define i where "i = Suc (Suc (Suc (Suc (Suc (io_calls s)))))"
  obtain j where j: "transfer_file2file ans i (length f - m_read_offset s) (m_read_offset s) f [] = (None, j, unread s)"
    using transfer_file2file_complete [OF assms(1), of "m_read_offset s" "length f - m_read_offset s" f i] le f
    by (auto simp: unread_def region_def)
  define s' where "s' = s\<lparr>m_fd := True, path_file := Some (unread s), tmp_file := None, m_read_offset := 0, io_calls := j\<rparr>"
  have "strip_file ans s = (None, s')"
    using assms(1) f le(1) j
    by (simp add: strip_file_def strip_copy_def strip_exit_def get_size_def Let_def s'_def i_def called_def)
  moreover have "mf_ok T M s'" using assms(2) f by (auto simp: mf_ok_def s'_def unread_def)
  ultimately show ?thesis by (simp add: s'_def unread_def)
qed

lemma append_to_file_complete:
  assumes "complete_io ans" "mf_ok T M s" "m_fd s" "data \<noteq> []" "length (the_file s) + length data \<le> unat M"
  shows "\<exists>s'. append_to_file ans data s = (None, s') \<and> mf_ok T M s' \<and> unread s' = unread s @ data
    \<and> m_mem_buffer s' = m_mem_buffer s"
proof -
  have M: "m_max_file_size s = M" "m_read_offset s \<le> length (the_file s)" using assms(2) by (simp_all add: mf_ok_def)
  have "0 < length data" using assms(4) by simp
  then have room: "\<not> unat M \<le> length (the_file s)" "min (length data) (unat M - length (the_file s)) = length data"
    using assms(5) by linarith+
  have "length data < 2 ^ 64" using assms(5) u64_bound [of M] by linarith
  then have n: "nat (min (ans (io_calls s + 1)) (int (length data))) = length data"
    by (rule complete_amount [OF assms(1)])
  then have pos: "0 < min (ans (io_calls s + 1)) (int (length data))" using assms(4) by (metis length_greater_0_conv zero_less_nat_eq)
  define s' where "s' = (called 1 (called 1 s))\<lparr>path_file := Some (the_file s @ data)\<rparr>"
  have "append_to_file ans data s = (None, s')"
    using assms(1,4) M room n pos by (simp add: append_to_file_def get_size_def Let_def s'_def)
  moreover have "mf_ok T M s'" using assms(2,3,5) by (auto simp: mf_ok_def s'_def)
  moreover have "unread s' = unread s @ data" using M(2) by (simp add: unread_def s'_def)
  ultimately show ?thesis by (simp add: s'_def)
qed

lemma strip_needed:
  assumes "fsize + length data < 2 ^ 64" "\<not> need_to_strip_file s fsize (length data)"
  shows "fsize + length data \<le> unat (m_max_file_size s)"
proof -
  have "(of_nat (fsize + length data) :: u64) \<le> m_max_file_size s"
    using assms(2) by (simp add: need_to_strip_file_def not_less)
  moreover have "unat (of_nat (fsize + length data) :: u64) = fsize + length data"
    using assms(1) by (simp add: unat_of_nat take_bit_eq_mod del: of_nat_add)
  ultimately show ?thesis by (simp add: word_le_nat_alt del: of_nat_add)
qed

lemma write_in_file_complete:
  assumes "complete_io ans" "mf_ok T M s" "unat M < 2 ^ 63" "length (unread s) + length data \<le> unat M"
  shows "\<exists>s'. write_in_file ans data s = (None, s') \<and> mf_ok T M s' \<and> unread s' = unread s @ data
    \<and> m_mem_buffer s' = m_mem_buffer s"
proof (cases "data = []")
  case True
  then show ?thesis using assms(2) by (simp add: write_in_file_def)
next
  case False
  define s1 where "s1 = (if m_fd s then s else s\<lparr>m_fd := True, path_file := Some (the_file s), io_calls := io_calls s + 1\<rparr>)"
  define s2 where "s2 = called 1 s1"
  have s2: "mf_ok T M s2" "m_fd s2" "unread s2 = unread s" "m_mem_buffer s2 = m_mem_buffer s" "the_file s2 = the_file s"
    using assms(2) by (auto simp: s1_def s2_def mf_ok_def unread_def)
  have size: "get_size ans s1 = int (length (the_file s2))" using assms(1) by (simp add: get_size_def s2_def)
  have step: "write_in_file ans data s = (if need_to_strip_file s2 (length (the_file s2)) (length data)
      then (case strip_file ans s2 of (Some err, s3) \<Rightarrow> (Some (''Failed to strip file: '' @ err), s3)
            | (None, s3) \<Rightarrow> append_to_file ans data s3)
      else append_to_file ans data s2)"
    using False assms(1) size unfolding write_in_file_def Let_def s1_def [symmetric] s2_def [symmetric] by simp
  show ?thesis
  proof (cases "need_to_strip_file s2 (length (the_file s2)) (length data)")
    case True
    obtain s3 where s3: "strip_file ans s2 = (None, s3)" "mf_ok T M s3" "m_fd s3" "the_file s3 = unread s"
      "unread s3 = unread s" "m_mem_buffer s3 = m_mem_buffer s"
      using strip_file_complete [OF assms(1) s2(1,2)] s2 by auto
    then have "length (the_file s3) + length data \<le> unat M" using assms(4) by simp
    from append_to_file_complete [OF assms(1) s3(2,3) False this] show ?thesis using step True s3 by simp
  next
    case no: False
    have "length (the_file s2) + length data < 2 ^ 64" using s2(1) assms(3,4) by (simp add: mf_ok_def)
    then have "length (the_file s2) + length data \<le> unat M" using strip_needed [OF _ no] s2(1) by (simp add: mf_ok_def)
    from append_to_file_complete [OF assms(1) s2(1,2) False this] show ?thesis using step no s2 by simp
  qed
qed

lemma mem2mem_complete:
  assumes "mf_ok T M s"
  shows "\<exists>s'. transfer_mem2mem s data = (drop (get_free_mem_space s) data, s') \<and> mf_ok T M s' \<and> unread s' = unread s
    \<and> mb_bytes (m_mem_buffer s') = mb_bytes (m_mem_buffer s) @ take (get_free_mem_space s) data"
proof -
  define chunk where "chunk = take (get_free_mem_space s) data"
  have chunk: "(if length data \<le> get_free_mem_space s then data else take (get_free_mem_space s) data) = chunk"
    "drop (length chunk) data = drop (get_free_mem_space s) data" by (auto simp: chunk_def min_def)
  obtain m where m: "mb_push (m_mem_buffer s) chunk = (None, m)" "mb_inv m" "mb_bytes m = mb_bytes (m_mem_buffer s) @ chunk"
    using mb_push_bytes assms unfolding mf_ok_def by blast
  have "length (mb_bytes (m_mem_buffer s) @ chunk) \<le> T" using assms free_space [OF assms] by (auto simp: chunk_def mf_ok_def)
  then have "mf_ok T M (s\<lparr>m_mem_buffer := m\<rparr>)" using assms m by (auto simp: mf_ok_def)
  moreover have "transfer_mem2mem s data = (drop (get_free_mem_space s) data, s\<lparr>m_mem_buffer := m\<rparr>)" if "get_free_mem_space s \<noteq> 0"
    using that m(1) chunk by (simp add: transfer_mem2mem_def Let_def)
  ultimately show ?thesis using m(3) assms
    by (cases "get_free_mem_space s = 0") (auto simp: transfer_mem2mem_def unread_def chunk_def)
qed

lemma mf_push_complete:
  assumes "complete_io ans" "unat M < 2 ^ 63" "mf_inv T M s" "length (mf_bytes s) + length data \<le> T + unat M"
  shows "\<exists>s'. mf_push ans s data = (None, s') \<and> mf_bytes s' = mf_bytes s @ data \<and> mf_inv T M s'"
proof -
  have ok: "mf_ok T M s" using assms(3) by (simp add: mf_inv_def)
  define free where "free = get_free_mem_space s"
  have free: "free = T - length (mb_bytes (m_mem_buffer s))" "length (mb_bytes (m_mem_buffer s)) \<le> T"
    using free_space [OF ok] ok by (simp_all add: free_def mf_ok_def)
  obtain s1 where s1: "transfer_mem2mem s data = (drop free data, s1)" "mf_ok T M s1" "unread s1 = unread s"
    "mb_bytes (m_mem_buffer s1) = mb_bytes (m_mem_buffer s) @ take free data"
    using mem2mem_complete [OF ok] unfolding free_def by blast
  have full: "free = 0" if "unread s \<noteq> []" using that assms(3) free by (simp add: mf_inv_def)
  have "length (unread s1) + length (drop free data) \<le> unat M"
    using assms(4) free full s1(3) ok by (cases "unread s = []") (auto simp: mf_bytes_def mf_ok_def)
  then obtain s' where s': "write_in_file ans (drop free data) s1 = (None, s')" "mf_ok T M s'"
    "unread s' = unread s @ drop free data" "m_mem_buffer s' = m_mem_buffer s1"
    using write_in_file_complete [OF assms(1) s1(2) assms(2)] s1(3) by metis
  have "mf_bytes s' = mf_bytes s @ data"
    using s'(3,4) s1(4) full by (cases "unread s = []") (auto simp: mf_bytes_def)
  moreover have "mf_inv T M s'"
    using s' s1(4) free full by (cases "unread s = []") (auto simp: mf_inv_def)
  ultimately show ?thesis using s1(1) s'(1) by (simp add: mf_push_def)
qed

lemma mf_drain_complete:
  assumes "complete_io ans" "mf_inv T M s" "n \<le> length (mb_bytes (m_mem_buffer s))"
  shows "\<exists>s'. mf_drain ans s n = Some s' \<and> mf_bytes s' = drop n (mf_bytes s) \<and> mf_inv T M s'"
proof -
  have ok: "mf_ok T M s" using assms(2) by (simp add: mf_inv_def)
  then obtain m where m: "mb_drain (m_mem_buffer s) n = Some m" "mb_inv m" "mb_bytes m = drop n (mb_bytes (m_mem_buffer s))"
    using mb_drain_bytes [OF _ assms(3)] unfolding mf_ok_def by blast
  have "mf_ok T M (s\<lparr>m_mem_buffer := m\<rparr>)" using ok m(2,3) by (auto simp: mf_ok_def)
  moreover have "mf_bytes (s\<lparr>m_mem_buffer := m\<rparr>) = drop n (mf_bytes s)"
    using m(3) assms(3) by (simp add: mf_bytes_def unread_def)
  ultimately show ?thesis using transfer_file2mem_complete [OF assms(1)] m(1) unfolding mf_drain_def by fastforce
qed

lemma mf_peek_complete:
  assumes "complete_io ans" "mf_inv T M s" "0 < T"
  shows "\<exists>d r s'. mf_peek ans s = Some (None, d, s') \<and> mf_inv T M s' \<and> mf_bytes s' = mf_bytes s
    \<and> mf_bytes s = d @ r \<and> (mf_bytes s \<noteq> [] \<longrightarrow> d \<noteq> []) \<and> length d \<le> length (mb_bytes (m_mem_buffer s'))"
proof -
  obtain s' where s': "transfer_file2mem ans s = Some (None, s')" "mf_inv T M s'" "mf_bytes s' = mf_bytes s"
    using transfer_file2mem_complete [OF assms(1), of T M s] assms(2) by (auto simp: mf_inv_def)
  have inv: "mb_inv (m_mem_buffer s')" using s'(2) by (simp add: mf_inv_def mf_ok_def)
  obtain r where r: "mb_bytes (m_mem_buffer s') = snd (mb_peek (m_mem_buffer s')) @ r"
    "mb_bytes (m_mem_buffer s') \<noteq> [] \<longrightarrow> snd (mb_peek (m_mem_buffer s')) \<noteq> []"
    using mb_peek_bytes(1) [OF inv] by blast
  have "mb_bytes (m_mem_buffer s') \<noteq> []" if "mf_bytes s \<noteq> []"
    using that s'(2) assms(3) unfolding s'(3) [symmetric] by (auto simp: mf_bytes_def mf_inv_def)
  moreover have "mf_peek ans s = Some (None, snd (mb_peek (m_mem_buffer s')), s')"
    using s'(1) mb_peek_bytes(2) [OF inv] by (simp add: mf_peek_def)
  moreover have "mf_bytes s = snd (mb_peek (m_mem_buffer s')) @ (r @ unread s')"
    using r(1) s'(3) by (simp add: mf_bytes_def)
  moreover have "length (snd (mb_peek (m_mem_buffer s'))) \<le> length (mb_bytes (m_mem_buffer s'))" using r(1) by (metis le_add1 length_append)
  ultimately show ?thesis using s'(2,3) r(2) by blast
qed

lemma mf_size_complete: "complete_io ans \<Longrightarrow> mf_inv T M s \<Longrightarrow> fst (mf_size ans s) = Some (length (mf_bytes s))"
  by (auto simp: mf_size_def get_size_def mf_inv_def mf_ok_def mf_bytes_def unread_def mb_size_bytes)

locale complete_disk =
  fixes ans :: Answer and T :: nat and M :: u64
  assumes complete: "complete_io ans" and threshold: "0 < T" and file_limit: "unat M < 2 ^ 63"

sublocale complete_disk \<subseteq> mf: data_buffer "mf_push ans" "mf_peek ans" "mf_drain ans" "\<lambda>s. fst (mf_size ans s)"
    mf_bytes "mf_inv T M" "\<lambda>n. n \<le> T + unat M"
proof (unfold_locales, goal_cases)
  case (2 b d)
  then show ?case using mf_push_complete [OF complete file_limit] by blast
next
  case (3 b)
  then obtain d r b' where b': "mf_peek ans b = Some (None, d, b')" "mf_inv T M b'" "mf_bytes b' = mf_bytes b"
      "mf_bytes b = d @ r" "mf_bytes b \<noteq> [] \<longrightarrow> d \<noteq> []" "length d \<le> length (mb_bytes (m_mem_buffer b'))"
    using mf_peek_complete [OF complete _ threshold] by blast
  have "\<exists>b''. mf_drain ans b' n = Some b'' \<and> mf_bytes b'' = drop n (mf_bytes b) \<and> mf_inv T M b''" if "n \<le> length d" for n
    using mf_drain_complete [OF complete b'(2), of n] that b'(3,6) by simp
  then show ?case using b'(1-5) by blast
next
  case (4 b)
  then show ?case using mf_size_complete [OF complete] by blast
qed simp

context complete_disk
begin

lemmas fifo = mf.run_fifo

end

interpretation ample: complete_disk "\<lambda>_. 2 ^ 64" 65536 4194304
  by unfold_locales (simp_all add: complete_io_def)

text \<open>
  Claim C37: The buffer that spills into a file is a byte queue. As long as every transfer is complete and no more bytes are pushed than
  the memory threshold and the file limit allow together, no operation fails, and whatever the order of pushes and
  takes, the bytes taken followed by the bytes still stored are the bytes pushed, in order: none is lost, repeated or overtaken when
  bytes wait in the file, when the memory is refilled and when the read part of the file is
  stripped.
\<close>

theorem memfile_buffer_is_queue:
  assumes "complete_io ans" "0 < T" "unat M < 2 ^ 63" "length (pushed_bytes cs) \<le> T + unat M"
  shows "\<exists>out s'. buffer_run (mf_push ans) (mf_peek ans) (mf_drain ans) cs (memfile_new T M) = Some (out, s')
    \<and> out @ mf_bytes s' = pushed_bytes cs \<and> fst (mf_size ans s') = Some (length (mf_bytes s'))"
proof -
  have disk: "complete_disk ans T M" using assms by (simp add: complete_disk_def)
  have new: "mf_inv T M (memfile_new T M)" "mf_bytes (memfile_new T M) = []"
    by (simp_all add: mf_inv_def mf_ok_def memfile_new_def unread_def mf_bytes_def memory_buffer_new_def mb_inv_def mb_bytes_def)
  obtain out s' where "buffer_run (mf_push ans) (mf_peek ans) (mf_drain ans) cs (memfile_new T M) = Some (out, s')"
    "mf_inv T M s'" "out @ mf_bytes s' = pushed_bytes cs"
    using complete_disk.fifo [OF disk new(1), of cs] new(2) assms(4) by auto
  then show ?thesis using mf_size_complete [OF assms(1)] by blast
qed

theorem memfile_buffer_is_queue_witness:
  "\<exists>out s'. buffer_run (mf_push (\<lambda>_. 2 ^ 64)) (mf_peek (\<lambda>_. 2 ^ 64)) (mf_drain (\<lambda>_. 2 ^ 64))
      [PushBytes [1, 2, 3, 4, 5], TakeBytes 2, PushBytes [6], TakeBytes 1] (memfile_new 2 10) = Some (out, s')
    \<and> out @ mf_bytes s' = [1, 2, 3, 4, 5, 6] \<and> fst (mf_size (\<lambda>_. 2 ^ 64) s') = Some (length (mf_bytes s'))"
  using memfile_buffer_is_queue [of "\<lambda>_. 2 ^ 64" 2 10 "[PushBytes [1, 2, 3, 4, 5], TakeBytes 2, PushBytes [6], TakeBytes 1]"]
  by (simp add: complete_io_def)

section \<open>Transfers that fail\<close>

text \<open>All calls are answered in full, except some.\<close>

definition except_at :: "(nat \<times> int) list \<Rightarrow> Answer" where
  "except_at xs = (\<lambda>i. case map_of xs i of Some a \<Rightarrow> a | None \<Rightarrow> 2 ^ 64)"

definition mf_reads :: "Answer \<Rightarrow> nat \<Rightarrow> u64 \<Rightarrow> BufferCall list \<Rightarrow> bytes option" where
  "mf_reads ans T M cs = map_option fst (buffer_run (mf_push ans) (mf_peek ans) (mf_drain ans) cs (memfile_new T M))"


text \<open>The overload for a vector is undefined whenever the data fits into the free memory.\<close>

lemma push_vector_undefined:
  "data \<noteq> [] \<Longrightarrow> length data \<le> get_free_mem_space s \<Longrightarrow> mf_push_vector ans s data = None"
  by (cases "get_free_mem_space s") (auto simp: mf_push_vector_def transfer_mem2mem_vector_def mb_push_def Let_def)

end
