(* ===== verification/Ring_Buffer.thy ===== *)
theory Ring_Buffer
  imports Files
begin

text \<open>
  The persistent ring buffer (\<^verbatim>\<open>trusttunnel/src/persistent_ring_buffer.cpp\<close>): a file that keeps the last
  records of a log. It starts with a header of 32 bytes; slots of one fixed size follow, each with a
  marker, the length of its record and the record. Appending writes the next slot and then the header;
  reading starts at a sequence number and reads the slots up to the newest. Every call opens the
  file anew, so the whole state is the file, which may not exist.

  The calls of the operating system are numbered, and the answers they give are a parameter:
  a negative one is a failure, any other one bounds how much a read or a write transfers. Positions in the file are
  unbounded numbers, which is exact for every buffer that fits in a file.
\<close>

section \<open>Reading and writing at a position\<close>

function write_loop :: "Answer \<Rightarrow> nat \<Rightarrow> nat \<Rightarrow> bytes \<Rightarrow> File \<Rightarrow> bool \<times> nat \<times> File" where
  "write_loop ans i pos d f =
    (if d = [] then (True, i, f)
     else if ans i \<le> 0 then (False, Suc i, f)
     else let n = min (nat (ans i)) (length d)
          in write_loop ans (Suc i) (pos + n) (drop n d) (overwrite pos (take n d) f))"
  by pat_completeness auto
termination by (relation "measure (\<lambda>(ans, i, pos, d, f). length d)") auto

definition write_at :: "Answer \<Rightarrow> nat \<Rightarrow> nat \<Rightarrow> bytes \<Rightarrow> File \<Rightarrow> bool \<times> nat \<times> File" where
  "write_at ans i pos d f = (if ans i < 0 then (False, Suc i, f) else write_loop ans (Suc i) pos d f)"

function read_at :: "Answer \<Rightarrow> nat \<Rightarrow> nat \<Rightarrow> nat \<Rightarrow> File \<Rightarrow> bytes option \<times> nat" where
  "read_at ans i sz pos f =
    (if sz = 0 then (Some [], i)
     else if ans i < 0 then (None, Suc i)
     else let n = min (nat (ans i)) (min sz (length f - pos))
          in if n = 0 then (None, Suc i)
             else case read_at ans (Suc i) (sz - n) (pos + n) f of
                    (None, j) \<Rightarrow> (None, j)
                  | (Some rest, j) \<Rightarrow> (Some (region pos n f @ rest), j))"
  by pat_completeness auto
termination by (relation "measure (\<lambda>(ans, i, sz, pos, f). sz)") auto

declare write_loop.simps [simp del] read_at.simps [simp del]

section \<open>The layout of the file\<close>

definition FILE_MAGIC :: u32 where
  "FILE_MAGIC = 0x514c5242"

definition FILE_VERSION :: u32 where
  "FILE_VERSION = 1"

definition SLOT_MARKER :: byte where
  "SLOT_MARKER = 82"

definition HEADER_SIZE :: nat where
  "HEADER_SIZE = 32"

record Header =
  magic :: u32
  version :: u32
  capacity :: u32
  max_record_bytes :: u32
  write_slot :: u32
  count :: u32
  next_sequence :: u64

definition header_bytes :: "Header \<Rightarrow> bytes" where
  "header_bytes h = store32 (magic h) @ store32 (version h) @ store32 (capacity h) @ store32 (max_record_bytes h)
    @ store32 (write_slot h) @ store32 (count h) @ store64 (next_sequence h)"

definition header_of :: "bytes \<Rightarrow> Header" where
  "header_of bs = \<lparr>magic = load32 (region 0 4 bs), version = load32 (region 4 4 bs),
     capacity = load32 (region 8 4 bs), max_record_bytes = load32 (region 12 4 bs),
     write_slot = load32 (region 16 4 bs), count = load32 (region 20 4 bs), next_sequence = load64 (region 24 8 bs)\<rparr>"

section \<open>The buffer file\<close>

record BufferFile =
  m_max_records :: u32
  m_max_record_bytes :: u32

definition slot_size :: "BufferFile \<Rightarrow> nat" where
  "slot_size b = 1 + 4 + unat (m_max_record_bytes b)"

definition slot_offset :: "BufferFile \<Rightarrow> nat \<Rightarrow> nat" where
  "slot_offset b index = HEADER_SIZE + index * slot_size b"

definition header_valid :: "BufferFile \<Rightarrow> Header \<Rightarrow> bool" where
  "header_valid b h \<longleftrightarrow> magic h = FILE_MAGIC \<and> version h = FILE_VERSION \<and> capacity h = m_max_records b
    \<and> max_record_bytes h = m_max_record_bytes b \<and> write_slot h < capacity h
    \<and> count h \<le> capacity h \<and> ucast (count h) \<le> next_sequence h"

definition read_header :: "Answer \<Rightarrow> nat \<Rightarrow> BufferFile \<Rightarrow> File \<Rightarrow> Header option \<times> nat" where
  "read_header ans i b f =
    (case read_at ans i HEADER_SIZE 0 f of
       (None, j) \<Rightarrow> (None, j)
     | (Some bs, j) \<Rightarrow> (if header_valid b (header_of bs) then Some (header_of bs) else None, j))"

definition write_header :: "Answer \<Rightarrow> nat \<Rightarrow> Header \<Rightarrow> File \<Rightarrow> bool \<times> nat \<times> File" where
  "write_header ans i h f = write_at ans i 0 (header_bytes h) f"

definition slot_bytes :: "BufferFile \<Rightarrow> bytes \<Rightarrow> bytes" where
  "slot_bytes b r = SLOT_MARKER # store32 (of_nat (length r)) @ r
     @ replicate (unat (m_max_record_bytes b) - length r) 0"

definition write_slot_at :: "Answer \<Rightarrow> nat \<Rightarrow> BufferFile \<Rightarrow> u32 \<Rightarrow> bytes \<Rightarrow> File \<Rightarrow> bool \<times> nat \<times> File" where
  "write_slot_at ans i b slot_index r f = write_at ans i (slot_offset b (unat slot_index)) (slot_bytes b r) f"

definition slot_record :: "BufferFile \<Rightarrow> bytes \<Rightarrow> bytes option" where
  "slot_record b slot =
    (if slot ! 0 \<noteq> SLOT_MARKER then None
     else let l = load32 (region 1 4 slot)
          in if m_max_record_bytes b < l then None else Some (region 5 (unat l) slot))"

definition read_slot :: "Answer \<Rightarrow> nat \<Rightarrow> BufferFile \<Rightarrow> u32 \<Rightarrow> File \<Rightarrow> bytes option \<times> nat" where
  "read_slot ans i b slot_index f =
    (case read_at ans i (slot_size b) (slot_offset b (unat slot_index)) f of
       (None, j) \<Rightarrow> (None, j)
     | (Some slot, j) \<Rightarrow> (slot_record b slot, j))"

section \<open>The operations\<close>

lemma unat_less_Suc: "(a::u64) < b \<Longrightarrow> unat (a + 1) = Suc (unat a)"
  using unsigned_less [of b, where ?'a = nat] by (simp add: unat_word_ariths word_less_nat_alt)

lemma word_distance_decreases: "(a::u64) < b \<Longrightarrow> unat (b - (a + 1)) < unat (b - a)"
proof -
  assume lt: "a < b"
  then have "unat a < unat b" by (simp add: word_less_nat_alt)
  moreover have "a + 1 \<le> b" using lt unat_less_Suc [OF lt] by (simp add: word_le_nat_alt word_less_nat_alt)
  ultimately show ?thesis using lt unat_less_Suc [OF lt] by (simp add: unat_sub)
qed

text \<open>The file of a buffer and the number of the next call of the system.\<close>

record Disk =
  file_at :: "File option"
  calls :: nat

definition new_header :: "BufferFile \<Rightarrow> Header" where
  "new_header b = \<lparr>magic = FILE_MAGIC, version = FILE_VERSION, capacity = m_max_records b,
     max_record_bytes = m_max_record_bytes b, write_slot = 0, count = 0, next_sequence = 0\<rparr>"

definition next_header :: "Header \<Rightarrow> Header" where
  "next_header h = h\<lparr>write_slot := (write_slot h + 1) mod capacity h,
     count := min (count h + 1) (capacity h), next_sequence := next_sequence h + 1\<rparr>"

definition append_slot :: "Answer \<Rightarrow> nat \<Rightarrow> BufferFile \<Rightarrow> Header \<Rightarrow> bytes \<Rightarrow> File \<Rightarrow> bool \<times> nat \<times> File" where
  "append_slot ans i b h r f =
    (case write_slot_at ans i b (write_slot h) r f of
       (False, j, f') \<Rightarrow> (False, j, f')
     | (True, j, f') \<Rightarrow> write_header ans j (next_header h) f')"

definition append_open :: "Answer \<Rightarrow> nat \<Rightarrow> BufferFile \<Rightarrow> bytes \<Rightarrow> File \<Rightarrow> bool \<times> nat \<times> File" where
  "append_open ans i b r f =
    (case read_header ans i b f of
       (None, j) \<Rightarrow> (False, j, f)
     | (Some h, j) \<Rightarrow> append_slot ans j b h r f)"

definition append_created :: "Answer \<Rightarrow> nat \<Rightarrow> BufferFile \<Rightarrow> bytes \<Rightarrow> bool \<times> nat \<times> File" where
  "append_created ans i b r =
    (case write_header ans i (new_header b) [] of
       (False, j, f) \<Rightarrow> (False, j, f)
     | (True, j, f) \<Rightarrow> append_open ans j b r f)"

definition append_record :: "Answer \<Rightarrow> BufferFile \<Rightarrow> bytes \<Rightarrow> Disk \<Rightarrow> bool \<times> Disk" where
  "append_record ans b r d =
    (if unat (m_max_record_bytes b) < length r then (False, d)
     else if ans (calls d) < 0 then (False, d\<lparr>calls := Suc (calls d)\<rparr>)
     else case (case file_at d of None \<Rightarrow> append_created ans (Suc (calls d)) b r
                | Some f \<Rightarrow> append_open ans (Suc (calls d)) b r f) of
            (ok, j, f) \<Rightarrow> (ok, \<lparr>file_at = Some f, calls = j\<rparr>))"

record RingBufferReadResult =
  records :: "bytes list"
  read_next_sequence :: u64

function read_loop :: "Answer \<Rightarrow> nat \<Rightarrow> BufferFile \<Rightarrow> Header \<Rightarrow> u64 \<Rightarrow> File \<Rightarrow> bytes list option \<times> nat" where
  "read_loop ans i b h seq f =
    (if \<not> seq < next_sequence h then (Some [], i)
     else case read_slot ans i b (ucast (seq mod ucast (capacity h))) f of
            (None, j) \<Rightarrow> (None, j)
          | (Some r, j) \<Rightarrow>
              (case read_loop ans j b h (seq + 1) f of
                 (None, k) \<Rightarrow> (None, k)
               | (Some rs, k) \<Rightarrow> (Some (r # rs), k)))"
  by pat_completeness auto
termination
proof (relation "measure (\<lambda>(ans, i, b, h, seq, f). unat (next_sequence h - seq))", goal_cases)
  case 1
  then show ?case by simp
next
  case (2 ans i b h seq f)
  then have "seq < next_sequence h" by simp
  then show ?case by (simp add: word_distance_decreases)
qed

declare read_loop.simps [simp del]

definition clamp :: "u64 \<Rightarrow> u64 \<Rightarrow> u64 \<Rightarrow> u64" where
  "clamp v lo hi = (if v < lo then lo else if hi < v then hi else v)"

definition start_sequence :: "Header \<Rightarrow> u64 option \<Rightarrow> u64" where
  "start_sequence h n =
    (let earliest_retained = next_sequence h - ucast (count h)
     in clamp (case n of None \<Rightarrow> earliest_retained | Some s \<Rightarrow> s) earliest_retained (next_sequence h))"

definition read_open :: "Answer \<Rightarrow> nat \<Rightarrow> BufferFile \<Rightarrow> u64 option \<Rightarrow> File \<Rightarrow> RingBufferReadResult option \<times> nat" where
  "read_open ans i b n f =
    (case read_header ans i b f of
       (None, j) \<Rightarrow> (None, j)
     | (Some h, j) \<Rightarrow>
         (case read_loop ans j b h (start_sequence h n) f of
            (None, k) \<Rightarrow> (None, k)
          | (Some rs, k) \<Rightarrow> (Some \<lparr>records = rs, read_next_sequence = next_sequence h\<rparr>, k)))"

definition read_since :: "Answer \<Rightarrow> BufferFile \<Rightarrow> u64 option \<Rightarrow> Disk \<Rightarrow> RingBufferReadResult option \<times> Disk" where
  "read_since ans b n d =
    (case file_at d of
       None \<Rightarrow> (Some \<lparr>records = [], read_next_sequence = 0\<rparr>, d)
     | Some f \<Rightarrow>
         if ans (calls d) < 0 then (None, d\<lparr>calls := Suc (calls d)\<rparr>)
         else case read_open ans (Suc (calls d)) b n f of (r, j) \<Rightarrow> (r, d\<lparr>calls := j\<rparr>))"

definition read_all :: "Answer \<Rightarrow> BufferFile \<Rightarrow> Disk \<Rightarrow> RingBufferReadResult option \<times> Disk" where
  "read_all ans b d = read_since ans b None d"

definition clear_buffer :: "Answer \<Rightarrow> Disk \<Rightarrow> bool \<times> Disk" where
  "clear_buffer ans d =
    (if ans (calls d) < 0 then (False, d\<lparr>calls := Suc (calls d)\<rparr>)
     else (True, \<lparr>file_at = None, calls = Suc (calls d)\<rparr>))"

section \<open>Reads and writes of the system\<close>

lemma no_transfer [simp]: "write_loop ans i pos [] f = (True, i, f)" "read_at ans i 0 pos f = (Some [], i)"
  by (simp_all add: write_loop.simps read_at.simps)

lemma write_loop_complete:
  assumes "healthy ans" "d \<noteq> []"
  shows "\<exists>j. write_loop ans i pos d f = (True, j, overwrite pos d f)"
  using assms
proof (induction ans i pos d f rule: write_loop.induct)
  case (1 ans i pos d f)
  define n where "n = min (nat (ans i)) (length d)"
  have a: "0 < ans i" using 1(2) by (simp add: healthy_def)
  have n: "0 < n" "n \<le> length d" using a 1(3) by (auto simp: n_def)
  have step: "write_loop ans i pos d f = write_loop ans (Suc i) (pos + n) (drop n d) (overwrite pos (take n d) f)"
    using a 1(3) by (subst write_loop.simps) (simp add: n_def Let_def)
  show ?case
  proof (cases "drop n d = []")
    case True
    then show ?thesis using step by simp
  next
    case False
    then show ?thesis
      using 1(1) [OF 1(3) _ n_def 1(2)] a step overwrite_split [OF n(2) n(1)] by auto
  qed
qed

text \<open>A write that fails has written a first part of the data.\<close>

lemma write_loop_part:
  "write_loop ans i pos d f = (ok, j, f') \<Longrightarrow>
   \<exists>m\<le>length d. f' = (if m = 0 then f else overwrite pos (take m d) f) \<and> (ok \<longrightarrow> m = length d)"
proof (induction ans i pos d f rule: write_loop.induct)
  case (1 ans i pos d f)
  define n where "n = min (nat (ans i)) (length d)"
  consider "d = []" | "d \<noteq> []" "ans i \<le> 0" | "d \<noteq> []" "0 < ans i" by linarith
  then show ?case
  proof cases
    case 3
    then have n: "0 < n" "n \<le> length d" by (auto simp: n_def)
    have "write_loop ans (Suc i) (pos + n) (drop n d) (overwrite pos (take n d) f) = (ok, j, f')"
      using 1(2) 3 by (subst (asm) write_loop.simps) (simp add: n_def Let_def)
    then obtain m where m: "m \<le> length (drop n d)" "ok \<longrightarrow> m = length (drop n d)"
      "f' = (if m = 0 then overwrite pos (take n d) f
             else overwrite (pos + n) (take m (drop n d)) (overwrite pos (take n d) f))"
      using 1(1) [OF 3(1) _ n_def] 3(2) by auto
    have "overwrite (pos + n) (drop n (take (n + m) d)) (overwrite pos (take n (take (n + m) d)) f)
      = overwrite pos (take (n + m) d) f"
      using n m(1) by (intro overwrite_split) auto
    then have "f' = overwrite pos (take (n + m) d) f" using m(3) by (auto simp: take_drop add.commute)
    then show ?thesis using n m(1,2) by (intro exI [of _ "n + m"]) auto
  qed (use 1(2) in \<open>auto simp: write_loop.simps [of ans i pos d f]\<close>)
qed

lemma write_at_complete:
  "healthy ans \<Longrightarrow> d \<noteq> [] \<Longrightarrow> \<exists>j. write_at ans i pos d f = (True, j, overwrite pos d f)"
  using write_loop_complete [of ans d "Suc i" pos f]
  by (simp add: write_at_def)

lemma write_at_part:
  "write_at ans i pos d f = (ok, j, f') \<Longrightarrow>
   \<exists>m\<le>length d. f' = (if m = 0 then f else overwrite pos (take m d) f) \<and> (ok \<longrightarrow> m = length d)"
  using write_loop_part [of ans "Suc i" pos d f ok j f']
  by (cases "ans i < 0") (auto simp: write_at_def intro: exI [of _ 0])

lemma region_append_region: "region pos n f @ region (pos + n) k f = region pos (n + k) f"
  by (simp add: region_def take_add drop_drop [symmetric] del: drop_drop) (simp add: add.commute)

lemma read_at_complete:
  assumes "healthy ans" "pos + n \<le> length f"
  shows "\<exists>j. read_at ans i n pos f = (Some (region pos n f), j)"
  using assms
proof (induction ans i n pos f rule: read_at.induct)
  case (1 ans i n pos f)
  define k where "k = min (nat (ans i)) (min n (length f - pos))"
  have a: "0 < ans i" using 1(2) by (simp add: healthy_def)
  show ?case
  proof (cases "n = 0")
    case True
    then show ?thesis by (simp add: region_def)
  next
    case False
    then have k: "0 < k" "k \<le> n" using a 1(3) by (auto simp: k_def)
    obtain j where "read_at ans (Suc i) (n - k) (pos + k) f = (Some (region (pos + k) (n - k) f), j)"
      using 1(1) [OF False _ k_def _ 1(2)] a k 1(3) by auto
    then have "read_at ans i n pos f = (Some (region pos k f @ region (pos + k) (n - k) f), j)"
      using False a k by (subst read_at.simps) (simp add: k_def [symmetric] Let_def)
    then show ?thesis using k by (simp add: region_append_region)
  qed
qed

lemma read_at_sound: "read_at ans i n pos f = (Some bs, j) \<Longrightarrow> bs = region pos n f \<and> (n = 0 \<or> pos + n \<le> length f)"
proof (induction ans i n pos f arbitrary: bs j rule: read_at.induct)
  case (1 ans i n pos f)
  define k where "k = min (nat (ans i)) (min n (length f - pos))"
  show ?case
  proof (cases "n = 0")
    case True
    then show ?thesis using 1(2) by (simp add: region_def)
  next
    case False
    have a: "\<not> ans i < 0" using 1(2) False by (auto simp: read_at.simps [of ans i n])
    have k: "k \<noteq> 0" using 1(2) False a by (subst (asm) read_at.simps) (auto simp: k_def Let_def split: if_splits)
    obtain rest where rest: "read_at ans (Suc i) (n - k) (pos + k) f = (Some rest, j)" "bs = region pos k f @ rest"
      using 1(2) False a k
      by (subst (asm) read_at.simps) (auto simp: k_def [symmetric] Let_def split: prod.splits option.splits)
    have le: "k \<le> n" "pos + k \<le> length f" using k by (auto simp: k_def)
    show ?thesis using 1(1) [OF False a k_def k rest(1)] rest(2) le region_append_region [of pos k f "n - k"] by auto
  qed
qed

section \<open>The layout\<close>

lemma length_header_bytes [simp]: "length (header_bytes h) = 32"
  by (simp add: header_bytes_def)

lemma header_roundtrip [simp]: "header_of (header_bytes h) = h"
  by (simp add: header_of_def header_bytes_def region_def)

lemma length_slot_bytes [simp]: "length r \<le> unat (m_max_record_bytes b) \<Longrightarrow> length (slot_bytes b r) = slot_size b"
  by (simp add: slot_bytes_def slot_size_def)

lemma slot_roundtrip [simp]:
  assumes "length r \<le> unat (m_max_record_bytes b)"
  shows "slot_record b (slot_bytes b r) = Some r"
proof -
  have lt: "length r < 2 ^ 32" using assms unsigned_less [of "m_max_record_bytes b", where ?'a = nat] by simp
  then have l: "unat (of_nat (length r) :: u32) = length r" by (simp add: unat_of_nat take_bit_eq_mod)
  have "region 1 4 (slot_bytes b r) = store32 (of_nat (length r))"
    by (simp add: slot_bytes_def region_def)
  moreover have "region 5 (length r) (slot_bytes b r) = r"
    by (simp add: slot_bytes_def region_def)
  ultimately show ?thesis using assms l by (simp add: slot_record_def slot_bytes_def Let_def word_less_nat_alt)
qed

lemma slots_apart:
  assumes "i \<noteq> j"
  shows "slot_offset b i + slot_size b \<le> slot_offset b j \<or> slot_offset b j + slot_size b \<le> slot_offset b i"
proof -
  have "Suc i * slot_size b \<le> j * slot_size b \<or> Suc j * slot_size b \<le> i * slot_size b"
    using assms by (metis mult_le_mono1 not_less_eq_eq le_antisym nat_le_linear Suc_leI le_neq_implies_less)
  then show ?thesis by (auto simp: slot_offset_def)
qed

lemma header_below_slots: "32 \<le> slot_offset b i"
  by (simp add: slot_offset_def HEADER_SIZE_def)

end
