(* ===== verification/Ring_Buffer_Properties.thy ===== *)
theory Ring_Buffer_Properties
  imports Ring_Buffer
begin

text \<open>
  What the persistent ring buffer promises. The abstract state is the list of all records appended since
  the file was last removed; the file represents it by keeping the newest of them. The
  operations are shown to refine the ones on that list, whatever the sizes of the transfers the system makes, and
  the last section says what an append that fails half way leaves behind.
\<close>

section \<open>The representation of a log by a file\<close>

abbreviation cap :: "BufferFile \<Rightarrow> nat" where
  "cap b \<equiv> unat (m_max_records b)"

abbreviation fits :: "BufferFile \<Rightarrow> bytes \<Rightarrow> bool" where
  "fits b r \<equiv> length r \<le> unat (m_max_record_bytes b)"

definition usable :: "BufferFile \<Rightarrow> bool" where
  "usable b \<longleftrightarrow> 0 < cap b \<and> cap b < 2 ^ 32 - 1"

definition header_for :: "BufferFile \<Rightarrow> nat \<Rightarrow> Header" where
  "header_for b n = \<lparr>magic = FILE_MAGIC, version = FILE_VERSION, capacity = m_max_records b,
     max_record_bytes = m_max_record_bytes b, write_slot = of_nat (n mod cap b),
     count = of_nat (min n (cap b)), next_sequence = of_nat n\<rparr>"

definition slot_holds :: "BufferFile \<Rightarrow> File \<Rightarrow> nat \<Rightarrow> bytes \<Rightarrow> bool" where
  "slot_holds b f s r \<longleftrightarrow> fits b r \<and> region (slot_offset b (s mod cap b)) (slot_size b) f = slot_bytes b r"

definition rep_from :: "BufferFile \<Rightarrow> File \<Rightarrow> bytes list \<Rightarrow> nat \<Rightarrow> bool" where
  "rep_from b f H k \<longleftrightarrow> length H < 2 ^ 64 \<and> region 0 32 f = header_bytes (header_for b (length H))
     \<and> (\<forall>s<length H. k \<le> s \<longrightarrow> slot_holds b f s (H ! s))"

abbreviation rep :: "BufferFile \<Rightarrow> File \<Rightarrow> bytes list \<Rightarrow> bool" where
  "rep b f H \<equiv> rep_from b f H (length H - cap b)"

lemma u32_of_nat: "n < 2 ^ 32 \<Longrightarrow> unat (of_nat n :: u32) = n"
  by (simp add: unat_of_nat take_bit_eq_mod)

lemma u64_of_nat: "n < 2 ^ 64 \<Longrightarrow> unat (of_nat n :: u64) = n"
  by (simp add: unat_of_nat take_bit_eq_mod)

lemma u32_eqI: "unat (x :: u32) = n \<Longrightarrow> x = of_nat n"
  by (metis of_nat_unat ucast_id)

lemma unat_min32: "unat (min x y) = min (unat x) (unat (y :: u32))"
  by (simp add: min_def word_le_nat_alt)

lemma cap_bound: "cap b < 2 ^ 32"
  using unsigned_less [of "m_max_records b", where ?'a = nat] by simp

lemma count_as_u64: "unat (ucast (of_nat (min n (cap b)) :: u32) :: u64) = min n (cap b)"
proof -
  have "unat (of_nat (min n (cap b)) :: u32) = min n (cap b)" using cap_bound [of b] by (intro u32_of_nat) simp
  then show ?thesis using cap_bound [of b] by (simp add: unsigned_ucast_eq take_bit_nat_eq_self_iff min_def)
qed

lemma header_for_valid:
  assumes "usable b" "n < 2 ^ 64"
  shows "header_valid b (header_for b n)"
proof -
  have "n mod cap b < cap b" using assms(1) by (simp add: usable_def)
  then have "unat (of_nat (n mod cap b) :: u32) < cap b" using cap_bound [of b] by (simp add: u32_of_nat)
  moreover have "unat (of_nat (min n (cap b)) :: u32) \<le> cap b" using cap_bound [of b] by (simp add: u32_of_nat)
  ultimately show ?thesis
    using assms(2) count_as_u64 [of n b]
    by (simp add: header_valid_def header_for_def word_less_nat_alt word_le_nat_alt u64_of_nat)
qed

lemma next_header_for:
  assumes "usable b"
  shows "next_header (header_for b n) = header_for b (Suc n)"
proof -
  have c: "0 < cap b" "cap b < 2 ^ 32 - 1" using assms by (simp_all add: usable_def)
  then have m: "n mod cap b < cap b" "min n (cap b) \<le> cap b" by simp_all
  have "unat ((of_nat (n mod cap b) + 1) mod m_max_records b) = Suc n mod cap b"
    using c m(1) u32_of_nat [of "Suc (n mod cap b)"] by (simp add: unat_mod_distrib mod_Suc_eq add.commute)
  then have slot: "(of_nat (n mod cap b) + 1) mod m_max_records b = of_nat (Suc n mod cap b)"
    by (rule u32_eqI)
  have "unat (min (of_nat (min n (cap b)) + 1) (m_max_records b)) = min (Suc n) (cap b)"
    using c m(2) u32_of_nat [of "Suc (min n (cap b))"] by (simp add: unat_min32 add.commute)
  then have cnt: "min (of_nat (min n (cap b)) + 1) (m_max_records b) = of_nat (min (Suc n) (cap b))"
    by (rule u32_eqI)
  show ?thesis using slot cnt by (simp add: next_header_def header_for_def add.commute)
qed

lemma region_full: "region p n f = d \<Longrightarrow> length d = n \<Longrightarrow> 0 < n \<Longrightarrow> p + n \<le> length f"
  by (auto simp: region_def)

lemma rep_header_fits: "rep_from b f H k \<Longrightarrow> 32 \<le> length f"
  using region_full [of 0 32 f] by (simp add: rep_from_def)

lemma slot_in_file: "slot_holds b f s r \<Longrightarrow> slot_offset b (s mod cap b) + slot_size b \<le> length f"
  using region_full [of "slot_offset b (s mod cap b)" "slot_size b" f] by (auto simp: slot_holds_def slot_size_def)

lemma read_header_rep:
  assumes "usable b" "rep_from b f H k"
  shows "healthy ans \<Longrightarrow> \<exists>j. read_header ans i b f = (Some (header_for b (length H)), j)"
    and "read_header ans i b f = (Some h, j) \<Longrightarrow> h = header_for b (length H)"
proof -
  have valid: "header_valid b (header_for b (length H))" and reg: "region 0 32 f = header_bytes (header_for b (length H))"
    using assms header_for_valid by (simp_all add: rep_from_def)
  show "\<exists>j. read_header ans i b f = (Some (header_for b (length H)), j)" if "healthy ans"
    using read_at_complete [OF that, of 0 32 f i] rep_header_fits [OF assms(2)] valid reg
    by (auto simp: read_header_def HEADER_SIZE_def)
  show "h = header_for b (length H)" if "read_header ans i b f = (Some h, j)"
    using that read_at_sound [of ans i 32 0 f] reg
    by (auto simp: read_header_def HEADER_SIZE_def split: prod.splits option.splits if_splits)
qed

lemma slot_index:
  assumes "s < 2 ^ 64" "usable b"
  shows "unat (ucast (of_nat s mod ucast (m_max_records b) :: u64) :: u32) = s mod cap b"
proof -
  have "unat (ucast (m_max_records b) :: u64) = cap b"
    using cap_bound [of b] by (simp add: unsigned_ucast_eq take_bit_nat_eq_self_iff)
  then have "unat (of_nat s mod ucast (m_max_records b) :: u64) = s mod cap b"
    using assms by (simp add: unat_mod_distrib u64_of_nat)
  moreover have "s mod cap b < 2 ^ 32"
    using cap_bound [of b] assms(2) by (meson mod_less_divisor order.strict_trans usable_def)
  ultimately show ?thesis by (simp add: unsigned_ucast_eq take_bit_nat_eq_self_iff)
qed

lemma read_slot_holds:
  assumes "slot_holds b f s r" "s < 2 ^ 64" "usable b"
  shows "healthy ans \<Longrightarrow> \<exists>j. read_slot ans i b (ucast (of_nat s mod ucast (m_max_records b) :: u64)) f = (Some r, j)"
    and "read_slot ans i b (ucast (of_nat s mod ucast (m_max_records b) :: u64)) f = (Some r', j) \<Longrightarrow> r' = r"
proof -
  have reg: "region (slot_offset b (s mod cap b)) (slot_size b) f = slot_bytes b r" "fits b r"
    using assms(1) by (simp_all add: slot_holds_def)
  show "\<exists>j. read_slot ans i b (ucast (of_nat s mod ucast (m_max_records b) :: u64)) f = (Some r, j)" if "healthy ans"
    using read_at_complete [OF that slot_in_file [OF assms(1)], of i] reg slot_index [OF assms(2,3)]
    by (auto simp: read_slot_def)
  show "r' = r" if "read_slot ans i b (ucast (of_nat s mod ucast (m_max_records b) :: u64)) f = (Some r', j)"
    using that read_at_sound [of ans i "slot_size b" "slot_offset b (s mod cap b)" f] reg slot_index [OF assms(2,3)]
    by (auto simp: read_slot_def split: prod.splits option.splits)
qed

section \<open>Reading\<close>

lemma read_loop_end: "read_loop ans i b (header_for b n) (of_nat n) f = (Some [], i)"
  by (subst read_loop.simps) (simp add: header_for_def)

lemma read_loop_next:
  assumes "s < n" "n < 2 ^ 64"
  shows "read_loop ans i b (header_for b n) (of_nat s) f =
    (case read_slot ans i b (ucast (of_nat s mod ucast (m_max_records b) :: u64)) f of
       (None, j) \<Rightarrow> (None, j)
     | (Some r, j) \<Rightarrow>
         (case read_loop ans j b (header_for b n) (of_nat (Suc s)) f of
            (None, k) \<Rightarrow> (None, k)
          | (Some rs, k) \<Rightarrow> (Some (r # rs), k)))"
proof -
  have "(of_nat s :: u64) < of_nat n" using assms by (simp add: word_less_nat_alt u64_of_nat)
  moreover have suc: "(of_nat (Suc s) :: u64) = of_nat s + 1" by simp
  ultimately show ?thesis unfolding suc by (subst read_loop.simps) (simp add: header_for_def)
qed

lemma read_loop_rep:
  assumes "rep_from b f H k" "k \<le> s" "s \<le> length H" "usable b"
  shows "healthy ans \<Longrightarrow> \<exists>j. read_loop ans i b (header_for b (length H)) (of_nat s) f = (Some (drop s H), j)"
    and "read_loop ans i b (header_for b (length H)) (of_nat s) f = (Some rs, j) \<Longrightarrow> rs = drop s H"
  using assms(2,3)
proof (induction "length H - s" arbitrary: s i rs j)
  case 0
  {
    case 1
    then show ?case using 0 by (simp add: read_loop_end)
  next
    case 2
    then show ?case using 0 by (simp add: read_loop_end)
  }
next
  case (Suc x)
  {
    case 1
    then have s: "s < length H" "s < 2 ^ 64" "length H < 2 ^ 64" "slot_holds b f s (H ! s)"
      using Suc.hyps(3) assms(1) by (auto simp: rep_from_def)
    obtain j where j: "read_slot ans i b (ucast (of_nat s mod ucast (m_max_records b) :: u64)) f = (Some (H ! s), j)"
      using read_slot_holds(1) [OF s(4,2) assms(4) 1(1)] by blast
    obtain k' where "read_loop ans j b (header_for b (length H)) (of_nat (Suc s)) f = (Some (drop (Suc s) H), k')"
      using Suc.hyps(1) [of "Suc s"] 1 Suc.hyps(3) s(1) by fastforce
    then show ?case using j read_loop_next [OF s(1,3), of ans i b f] s(1) by (simp add: Cons_nth_drop_Suc)
  next
    case 2
    then have s: "s < length H" "s < 2 ^ 64" "length H < 2 ^ 64" "slot_holds b f s (H ! s)"
      using Suc.hyps(3) assms(1) by (auto simp: rep_from_def)
    from 2(1) obtain r j' rs' where
      r: "read_slot ans i b (ucast (of_nat s mod ucast (m_max_records b) :: u64)) f = (Some r, j')" and
      l: "read_loop ans j' b (header_for b (length H)) (of_nat (Suc s)) f = (Some rs', j)" "rs = r # rs'"
      unfolding read_loop_next [OF s(1,3)] by (auto split: prod.splits option.splits)
    have "rs' = drop (Suc s) H" using Suc.hyps(2) [of "Suc s"] l(1) 2 Suc.hyps(3) s(1) by simp
    moreover have "r = H ! s" using read_slot_holds(2) [OF s(4,2) assms(4) r] .
    ultimately show ?case using l(2) s(1) by (simp add: Cons_nth_drop_Suc)
  }
qed

definition read_start :: "BufferFile \<Rightarrow> bytes list \<Rightarrow> u64 option \<Rightarrow> nat" where
  "read_start b H n = (case n of None \<Rightarrow> length H - cap b | Some s \<Rightarrow> max (length H - cap b) (min (unat s) (length H)))"

definition read_spec :: "BufferFile \<Rightarrow> bytes list \<Rightarrow> u64 option \<Rightarrow> RingBufferReadResult" where
  "read_spec b H n = \<lparr>records = drop (read_start b H n) H, read_next_sequence = of_nat (length H)\<rparr>"

lemma u64_eqI: "unat (x :: u64) = n \<Longrightarrow> x = of_nat n"
  by (metis of_nat_unat ucast_id)

lemma start_of_header:
  assumes "length H < 2 ^ 64"
  shows "start_sequence (header_for b (length H)) n = of_nat (read_start b H n)"
proof (rule u64_eqI)
  define e :: u64 where "e = of_nat (length H) - ucast (of_nat (min (length H) (cap b)) :: u32)"
  have "(ucast (of_nat (min (length H) (cap b)) :: u32) :: u64) \<le> of_nat (length H)"
    using assms by (simp add: word_le_nat_alt count_as_u64 u64_of_nat)
  then have e: "unat e = length H - cap b" using assms by (simp add: e_def unat_sub count_as_u64 u64_of_nat)
  have "start_sequence (header_for b (length H)) n = clamp (case n of None \<Rightarrow> e | Some s \<Rightarrow> s) e (of_nat (length H))"
    by (cases n) (simp_all add: start_sequence_def header_for_def e_def Let_def)
  then show "unat (start_sequence (header_for b (length H)) n) = read_start b H n"
    using e assms by (cases n) (auto simp: clamp_def read_start_def word_less_nat_alt u64_of_nat)
qed

lemma read_start_bounds: "length H - cap b \<le> read_start b H n" "read_start b H n \<le> length H"
  by (auto simp: read_start_def split: option.split)

lemma read_open_rep:
  assumes "usable b" "rep_from b f H k" "k \<le> read_start b H n"
  shows "healthy ans \<Longrightarrow> \<exists>j. read_open ans i b n f = (Some (read_spec b H n), j)"
    and "read_open ans i b n f = (Some r, j) \<Longrightarrow> r = read_spec b H n"
proof -
  have len: "length H < 2 ^ 64" using assms(2) by (simp add: rep_from_def)
  note start = start_of_header [OF len, of b n]
  have nxt: "next_sequence (header_for b (length H)) = of_nat (length H)" by (simp add: header_for_def)
  note loop = read_loop_rep [OF assms(2,3) read_start_bounds(2) assms(1)]
  show "\<exists>j. read_open ans i b n f = (Some (read_spec b H n), j)" if h: "healthy ans"
  proof -
    obtain j where j: "read_header ans i b f = (Some (header_for b (length H)), j)"
      using read_header_rep(1) [OF assms(1,2) h] by blast
    obtain j' where "read_loop ans j b (header_for b (length H)) (of_nat (read_start b H n)) f
      = (Some (drop (read_start b H n) H), j')" using loop(1) [OF h] by blast
    then show ?thesis using j start nxt by (simp add: read_open_def read_spec_def)
  qed
  show "r = read_spec b H n" if r: "read_open ans i b n f = (Some r, j)"
  proof -
    obtain h j1 where h: "read_header ans i b f = (Some h, j1)"
      using r by (auto simp: read_open_def split: prod.splits option.splits)
    then have "h = header_for b (length H)" by (rule read_header_rep(2) [OF assms(1,2)])
    then obtain rs where "read_loop ans j1 b (header_for b (length H)) (of_nat (read_start b H n)) f = (Some rs, j)"
      "r = \<lparr>records = rs, read_next_sequence = of_nat (length H)\<rparr>"
      using r h start nxt by (auto simp: read_open_def split: prod.splits option.splits)
    then show ?thesis using loop(2) by (auto simp: read_spec_def)
  qed
qed

section \<open>Appending\<close>

lemma slot_bytes_nonempty [simp]: "slot_bytes b r \<noteq> []" "header_bytes h \<noteq> []"
  by (simp_all add: slot_bytes_def) (metis length_header_bytes list.size(3) zero_neq_numeral)

text \<open>Writing any part of the next slot leaves the header and every other retained slot as they are.\<close>

lemma slot_write_keeps:
  assumes "rep b f H" "usable b" "length d \<le> slot_size b"
  shows "rep_from b (overwrite (slot_offset b (length H mod cap b)) d f) H (Suc (length H) - cap b)"
proof -
  define p where "p = slot_offset b (length H mod cap b)"
  have "region 0 32 (overwrite p d f) = region 0 32 f"
    using rep_header_fits [OF assms(1)] header_below_slots by (intro region_overwrite_other) (auto simp: p_def)
  moreover have "slot_holds b (overwrite p d f) s (H ! s)" if s: "s < length H" "Suc (length H) - cap b \<le> s" for s
  proof -
    have "s mod cap b \<noteq> length H mod cap b"
    proof
      assume "s mod cap b = length H mod cap b"
      then have "cap b dvd length H - s" using s(1) by (metis less_imp_le_nat mod_eq_dvd_iff_nat)
      then show False using s assms(2) by (auto simp: usable_def dest!: dvd_imp_le)
    qed
    then have apart: "slot_offset b (s mod cap b) + slot_size b \<le> p \<or> p + length d \<le> slot_offset b (s mod cap b)"
      using slots_apart [of "s mod cap b" "length H mod cap b" b] assms(3) by (auto simp: p_def)
    have h: "slot_holds b f s (H ! s)" using assms(1) s by (simp add: rep_from_def)
    show ?thesis using region_overwrite_other [OF slot_in_file [OF h] apart] h by (simp add: slot_holds_def)
  qed
  ultimately show ?thesis using assms(1) by (simp add: rep_from_def p_def)
qed

lemma header_write_commits:
  assumes "rep_from b f H (Suc (length H) - cap b)" "usable b" "slot_holds b f (length H) r" "Suc (length H) < 2 ^ 64"
  shows "rep b (overwrite 0 (header_bytes (header_for b (Suc (length H)))) f) (H @ [r])"
proof -
  define f' where "f' = overwrite 0 (header_bytes (header_for b (Suc (length H)))) f"
  have "slot_holds b f' s x" if "slot_holds b f s x" for s x
    using region_overwrite_other [OF slot_in_file [OF that], of 0 "header_bytes (header_for b (Suc (length H)))"]
      header_below_slots [of b "s mod cap b"] that by (simp add: slot_holds_def f'_def)
  moreover have "region 0 32 f' = header_bytes (header_for b (Suc (length H)))"
    using region_overwrite_same [of 0 "header_bytes (header_for b (Suc (length H)))" f] by (simp add: f'_def)
  ultimately show ?thesis
    using assms by (auto simp: rep_from_def f'_def [symmetric] nth_append less_Suc_eq)
qed

lemma slot_written:
  assumes "fits b r"
  shows "slot_holds b (overwrite (slot_offset b (n mod cap b)) (slot_bytes b r) f) n r"
  using assms region_overwrite_same [of "slot_offset b (n mod cap b)" "slot_bytes b r" f] by (simp add: slot_holds_def)

lemma write_slot_of_header:
  assumes "usable b"
  shows "unat (write_slot (header_for b n)) = n mod cap b"
  using cap_bound [of b] assms by (simp add: header_for_def usable_def u32_of_nat order.strict_trans [OF mod_less_divisor])

lemma append_slot_rep:
  assumes "rep b f H" "usable b" "fits b r" "Suc (length H) < 2 ^ 64"
  shows "healthy ans \<Longrightarrow> \<exists>j f'. append_slot ans i b (header_for b (length H)) r f = (True, j, f') \<and> rep b f' (H @ [r])"
proof -
  assume h: "healthy ans"
  define f1 where "f1 = overwrite (slot_offset b (length H mod cap b)) (slot_bytes b r) f"
  obtain j where "write_slot_at ans i b (write_slot (header_for b (length H))) r f = (True, j, f1)"
    using write_at_complete [OF h slot_bytes_nonempty(1), of i "slot_offset b (length H mod cap b)" b r f]
      write_slot_of_header [OF assms(2), of "length H"] by (auto simp: write_slot_at_def f1_def)
  moreover obtain k where "write_header ans j (header_for b (Suc (length H))) f1
      = (True, k, overwrite 0 (header_bytes (header_for b (Suc (length H)))) f1)"
    using write_at_complete [OF h slot_bytes_nonempty(2), of j 0 _ f1] unfolding write_header_def by blast
  moreover have "rep b (overwrite 0 (header_bytes (header_for b (Suc (length H)))) f1) (H @ [r])"
    using slot_write_keeps [OF assms(1,2)] slot_written [OF assms(3)] assms(2,3,4)
    by (intro header_write_commits) (simp_all add: f1_def)
  ultimately show ?thesis using next_header_for [OF assms(2), of "length H"] by (simp add: append_slot_def)
qed

lemma created_rep:
  assumes "0 < cap b"
  shows "rep b (overwrite 0 (header_bytes (new_header b)) []) []"
proof -
  have "new_header b = header_for b 0" using assms by (simp add: new_header_def header_for_def)
  then show ?thesis using region_overwrite_same [of 0 "header_bytes (new_header b)" "[]"] by (simp add: rep_from_def)
qed

lemma append_open_rep:
  assumes "rep b f H" "usable b" "fits b r" "Suc (length H) < 2 ^ 64" "healthy ans"
  shows "\<exists>j f'. append_open ans i b r f = (True, j, f') \<and> rep b f' (H @ [r])"
proof -
  obtain j where "read_header ans i b f = (Some (header_for b (length H)), j)"
    using read_header_rep(1) [OF assms(2,1,5)] by blast
  then show ?thesis using append_slot_rep [OF assms(1-5), of j] by (simp add: append_open_def)
qed

section \<open>Refinement\<close>

text \<open>The log a disk holds.\<close>

definition holds :: "BufferFile \<Rightarrow> Disk \<Rightarrow> bytes list \<Rightarrow> bool" where
  "holds b d H \<longleftrightarrow> (case file_at d of None \<Rightarrow> H = [] | Some f \<Rightarrow> rep b f H)"

lemma append_holds:
  assumes "holds b d H" "usable b" "fits b r" "Suc (length H) < 2 ^ 64" "healthy ans"
  shows "\<exists>d'. append_record ans b r d = (True, d') \<and> holds b d' (H @ [r])"
proof (cases "file_at d")
  case None
  then have H: "H = []" using assms(1) by (simp add: holds_def)
  define f0 where "f0 = overwrite 0 (header_bytes (new_header b)) []"
  have r0: "rep b f0 []" using created_rep assms(2) by (simp add: usable_def f0_def)
  obtain j where "write_header ans (Suc (calls d)) (new_header b) [] = (True, j, f0)"
    using write_at_complete [OF assms(5) slot_bytes_nonempty(2)] unfolding write_header_def f0_def by blast
  then show ?thesis
    using append_open_rep [OF r0 assms(2,3) _ assms(5), of j] assms(3,5) None H
    by (auto simp: append_record_def append_created_def holds_def)
next
  case (Some f)
  then show ?thesis
    using append_open_rep [OF _ assms(2,3,4,5), of f "Suc (calls d)"] assms(1,3,5)
    by (auto simp: append_record_def holds_def)
qed

lemma read_holds:
  assumes "holds b d H" "usable b" "healthy ans"
  shows "\<exists>d'. read_since ans b n d = (Some (read_spec b H n), d') \<and> holds b d' H"
proof (cases "file_at d")
  case None
  then show ?thesis using assms(1) by (simp add: read_since_def holds_def read_spec_def)
next
  case (Some f)
  then obtain j where "read_open ans (Suc (calls d)) b n f = (Some (read_spec b H n), j)"
    using read_open_rep(1) [OF assms(2) _ read_start_bounds(1) assms(3), of f H "Suc (calls d)"] assms(1)
    by (auto simp: holds_def)
  then show ?thesis using Some assms(1,3) by (auto simp: read_since_def holds_def)
qed

datatype RingBufferCall = Append bytes | ReadSince "u64 option" | Clear

datatype RingBufferReply = Appended bool | ReadResult "RingBufferReadResult option" | Cleared bool

fun rb_call :: "Answer \<Rightarrow> BufferFile \<Rightarrow> RingBufferCall \<Rightarrow> Disk \<Rightarrow> RingBufferReply \<times> Disk" where
  "rb_call ans b (Append r) d = map_prod Appended id (append_record ans b r d)"
| "rb_call ans b (ReadSince n) d = map_prod ReadResult id (read_since ans b n d)"
| "rb_call ans b Clear d = map_prod Cleared id (clear_buffer ans d)"

fun rb_run :: "Answer \<Rightarrow> BufferFile \<Rightarrow> RingBufferCall list \<Rightarrow> Disk \<Rightarrow> RingBufferReply list" where
  "rb_run ans b [] d = []"
| "rb_run ans b (c # cs) d = fst (rb_call ans b c d) # rb_run ans b cs (snd (rb_call ans b c d))"

fun log_call :: "BufferFile \<Rightarrow> RingBufferCall \<Rightarrow> bytes list \<Rightarrow> RingBufferReply \<times> bytes list" where
  "log_call b (Append r) H = (if fits b r then (Appended True, H @ [r]) else (Appended False, H))"
| "log_call b (ReadSince n) H = (ReadResult (Some (read_spec b H n)), H)"
| "log_call b Clear H = (Cleared True, [])"

fun log_run :: "BufferFile \<Rightarrow> RingBufferCall list \<Rightarrow> bytes list \<Rightarrow> RingBufferReply list" where
  "log_run b [] H = []"
| "log_run b (c # cs) H = fst (log_call b c H) # log_run b cs (snd (log_call b c H))"

lemma rb_call_refines:
  assumes "holds b d H" "usable b" "healthy ans" "Suc (length H) < 2 ^ 64"
  shows "fst (rb_call ans b c d) = fst (log_call b c H)" "holds b (snd (rb_call ans b c d)) (snd (log_call b c H))"
proof -
  have "fst (rb_call ans b c d) = fst (log_call b c H) \<and> holds b (snd (rb_call ans b c d)) (snd (log_call b c H))"
  proof (cases c)
    case (Append r)
    show ?thesis
    proof (cases "fits b r")
      case True
      then show ?thesis using append_holds [OF assms(1,2) _ assms(4,3), of r] Append by auto
    next
      case False
      then show ?thesis using assms(1) Append by (simp add: append_record_def)
    qed
  next
    case (ReadSince n)
    then show ?thesis using read_holds [OF assms(1-3), of n] by auto
  next
    case Clear
    then show ?thesis using assms(3) by (simp add: clear_buffer_def holds_def)
  qed
  then show "fst (rb_call ans b c d) = fst (log_call b c H)" "holds b (snd (rb_call ans b c d)) (snd (log_call b c H))"
    by simp_all
qed

lemma log_call_length: "length (snd (log_call b c H)) \<le> Suc (length H)"
  by (cases c) auto

lemma rb_run_refines:
  "holds b d H \<Longrightarrow> usable b \<Longrightarrow> healthy ans \<Longrightarrow> length H + length cs < 2 ^ 64 \<Longrightarrow> rb_run ans b cs d = log_run b cs H"
proof (induction cs arbitrary: d H)
  case Nil
  then show ?case by simp
next
  case (Cons c cs)
  have "length (snd (log_call b c H)) + length cs < 2 ^ 64"
    using log_call_length [of b c H] Cons.prems(4) by simp
  then show ?case using rb_call_refines [OF Cons.prems(1-3), of c] Cons by simp
qed

lemma rb_calls_hold:
  "holds b d H \<Longrightarrow> usable b \<Longrightarrow> healthy ans \<Longrightarrow> length H + length cs < 2 ^ 64 \<Longrightarrow>
   holds b (fold (\<lambda>c d. snd (rb_call ans b c d)) cs d) (fold (\<lambda>c H. snd (log_call b c H)) cs H)"
proof (induction cs arbitrary: d H)
  case Nil
  then show ?case by simp
next
  case (Cons c cs)
  have "length (snd (log_call b c H)) + length cs < 2 ^ 64"
    using log_call_length [of b c H] Cons.prems(4) by simp
  then show ?case using rb_call_refines [OF Cons.prems(1-3), of c] Cons by simp
qed

text \<open>
  Claim C31: Refinement. Any sequence of appends, reads and clears on a buffer that has no file yet answers as the same
  sequence on the list of all records: an append adds its record unless the record is longer than the maximum, a read
  returns exactly the records from the asked sequence number on, in the order they were appended, of which the
  newest \<^verbatim>\<open>max_records\<close> are retained, together with the number of the next one, and a clear
  empties the log. The system may transfer as few bytes per read and write as it likes as long as it makes progress.
\<close>

theorem ring_buffer_refines_log:
  assumes "usable b" "healthy ans" "length cs < 2 ^ 64"
  shows "rb_run ans b cs \<lparr>file_at = None, calls = i\<rparr> = log_run b cs []"
  using assms by (intro rb_run_refines) (simp_all add: holds_def)

definition sample_buffer :: BufferFile where
  "sample_buffer = \<lparr>m_max_records = 2, m_max_record_bytes = 3\<rparr>"

theorem ring_buffer_refines_log_witness:
  "rb_run (\<lambda>i. 1 + int (i mod 3)) sample_buffer
     [Append [1], Append [2, 2], ReadSince None, Append [9, 9, 9, 9], Append [3], ReadSince None, ReadSince (Some 2), Clear, ReadSince None]
     \<lparr>file_at = None, calls = 0\<rparr>
   = [Appended True, Appended True, ReadResult (Some \<lparr>records = [[1], [2, 2]], read_next_sequence = 2\<rparr>),
      Appended False, Appended True, ReadResult (Some \<lparr>records = [[2, 2], [3]], read_next_sequence = 3\<rparr>),
      ReadResult (Some \<lparr>records = [[3]], read_next_sequence = 3\<rparr>), Cleared True,
      ReadResult (Some \<lparr>records = [], read_next_sequence = 0\<rparr>)]"
  by (subst ring_buffer_refines_log)
    (simp_all add: usable_def healthy_def sample_buffer_def read_spec_def read_start_def)

section \<open>Appends that fail\<close>

lemma part_length: "m \<le> length d \<Longrightarrow> length (take m d) \<le> length d"
  by simp

lemma append_slot_failed:
  assumes "rep b f H" "usable b" "fits b r" "append_slot ans i b (header_for b (length H)) r f = (ok, j, f')"
    "region 0 32 f' = region 0 32 f"
  shows "rep_from b f' H (Suc (length H) - cap b)"
proof -
  define p where "p = slot_offset b (length H mod cap b)"
  obtain ok1 j1 f1 where w: "write_at ans i p (slot_bytes b r) f = (ok1, j1, f1)" by (metis prod_cases3)
  then obtain m where m: "m \<le> length (slot_bytes b r)" "f1 = (if m = 0 then f else overwrite p (take m (slot_bytes b r)) f)"
    using write_at_part by blast
  have keep: "rep_from b f1 H (Suc (length H) - cap b)"
    using slot_write_keeps [OF assms(1,2), of "take m (slot_bytes b r)"] assms(1,3) m by (auto simp: p_def rep_from_def)
  have slot: "write_slot_at ans i b (write_slot (header_for b (length H))) r f = (ok1, j1, f1)"
    using w write_slot_of_header [OF assms(2), of "length H"] by (simp add: write_slot_at_def p_def)
  show ?thesis
  proof (cases ok1)
    case False
    then show ?thesis using assms(4) slot keep by (simp add: append_slot_def)
  next
    case True
    define hb where "hb = header_bytes (next_header (header_for b (length H)))"
    have "write_at ans j1 0 hb f1 = (ok, j, f')"
      using True assms(4) slot by (simp add: append_slot_def write_header_def hb_def)
    then obtain m' where m': "m' \<le> 32" "f' = (if m' = 0 then f1 else overwrite 0 (take m' hb) f1)"
      using write_at_part [of ans j1 0 hb f1] by (fastforce simp: hb_def)
    have "slot_holds b f' s x" if "slot_holds b f1 s x" for s x
      using region_overwrite_other [OF slot_in_file [OF that], of 0 "take m' hb"]
        header_below_slots [of b "s mod cap b"] that m' by (auto simp: slot_holds_def)
    then show ?thesis using keep assms(1,5) by (simp add: rep_from_def)
  qed
qed

text \<open>
  Claim C32: Failed appends. Whatever the system answers and wherever an append to an existing buffer fails, as long as the header
  of the file is still the one it was, every record but the oldest of a full buffer can still be read: a later read that starts after it
  returns exactly the records appended before, none of them damaged, and a read of everything does so while
  the buffer is not full.
\<close>

theorem failed_append_keeps_records:
  assumes "usable b" "file_at d = Some f" "holds b d H" "append_record ans b r d = (False, d')"
    "file_at d' = Some f'" "region 0 32 f' = region 0 32 f"
    "Suc (length H) - cap b \<le> read_start b H n" "healthy ans'"
  shows "fst (read_since ans' b n d') = Some (read_spec b H n)"
proof -
  have r: "rep b f H" using assms(2,3) by (simp add: holds_def)
  have "rep_from b f' H (Suc (length H) - cap b)"
  proof (cases "f' = f")
    case True
    then show ?thesis using r by (simp add: rep_from_def)
  next
    case False
    then have fit: "fits b r" and open_call: "\<not> ans (calls d) < 0"
      using assms(2,4,5) by (auto simp: append_record_def split: if_splits)
    then obtain j where a: "append_open ans (Suc (calls d)) b r f = (False, j, f')"
      using assms(2,4,5) by (auto simp: append_record_def split: prod.splits)
    then obtain h k where h: "read_header ans (Suc (calls d)) b f = (Some h, k)"
      using False by (auto simp: append_open_def split: prod.splits option.splits)
    then have "append_slot ans k b (header_for b (length H)) r f = (False, j, f')"
      using a read_header_rep(2) [OF assms(1) r h] by (simp add: append_open_def)
    then show ?thesis by (rule append_slot_failed [OF r assms(1) fit _ assms(6)])
  qed
  from read_open_rep(1) [OF assms(1) this assms(7,8), of "Suc (calls d')"] show ?thesis
    using assms(5,8) by (auto simp: read_since_def)
qed

definition three_slots :: BufferFile where
  "three_slots = \<lparr>m_max_records = 3, m_max_record_bytes = 3\<rparr>"

text \<open>A system that transfers all bytes it is given, except at one call, where it transfers some, and the next one, which fails.\<close>

definition cut_at :: "nat \<Rightarrow> int \<Rightarrow> Answer" where
  "cut_at k n = (\<lambda>i. if i = k then n else if i = Suc k then -1 else 60)"

definition full_disk :: Disk where
  "full_disk = fold (\<lambda>c d. snd (rb_call (\<lambda>_. 60) three_slots c d)) [Append [1], Append [2], Append [3]]
     \<lparr>file_at = None, calls = 0\<rparr>"

definition cut_disk :: Disk where
  "cut_disk = snd (append_record (cut_at 23 6) three_slots [4, 4] full_disk)"

theorem failed_append_keeps_records_witness:
  "fst (append_record (cut_at 23 6) three_slots [4, 4] full_disk) = False
   \<and> fst (read_since (\<lambda>_. 5) three_slots (Some 1) cut_disk) = Some \<lparr>records = [[2], [3]], read_next_sequence = 3\<rparr>"
proof -
  have call: "append_record (cut_at 23 6) three_slots [4, 4] full_disk = (False, cut_disk)"
    and files: "file_at full_disk \<noteq> None" "file_at cut_disk \<noteq> None"
    and same: "region 0 32 (the (file_at cut_disk)) = region 0 32 (the (file_at full_disk))"
    by code_simp+
  have use: "usable three_slots" by (simp add: usable_def three_slots_def)
  have "holds three_slots \<lparr>file_at = None, calls = 0\<rparr> []" "healthy (\<lambda>_. 60)"
    by (simp_all add: holds_def healthy_def)
  from rb_calls_hold [OF this(1) use this(2), of "[Append [1], Append [2], Append [3]]"]
  have held: "holds three_slots full_disk [[1], [2], [3]]"
    by (simp add: full_disk_def three_slots_def)
  have start: "Suc (length [[1], [2], [3 :: byte]]) - cap three_slots \<le> read_start three_slots [[1], [2], [3]] (Some 1)"
    and spec: "read_spec three_slots [[1], [2], [3]] (Some 1) = \<lparr>records = [[2], [3]], read_next_sequence = 3\<rparr>"
    by (simp_all add: read_start_def read_spec_def three_slots_def)
  have "healthy (\<lambda>_. 5)" by (simp add: healthy_def)
  from failed_append_keeps_records [OF use _ held call _ same start this] show ?thesis
    using call files spec by auto
qed


end
