(* ===== verification/Connection_Log.thy ===== *)
theory Connection_Log
  imports Ring_Buffer_Properties
begin

text \<open>
  The users of the persistent ring buffer: the log of the connections the platform adapters keep. On Apple
  systems the network extension appends a record and notifies the application, which reads the records
  it has not seen yet (\<^verbatim>\<open>PacketTunnelProvider.swift\<close>, \<^verbatim>\<open>VpnManager.swift\<close>); on Android
  one process does both (\<^verbatim>\<open>VpnService.kt\<close>). The locale \<open>record_log\<close> states what they rely on, and the
  ring buffer is shown to provide it.
\<close>

section \<open>The adapters\<close>

definition connection_info_file :: BufferFile where
  "connection_info_file = \<lparr>m_max_records = 500, m_max_record_bytes = 1024\<rparr>"

text \<open>The network extension: append, and tell whether the application is notified.\<close>

definition write_connection_info :: "(bytes \<Rightarrow> 'd \<Rightarrow> bool \<times> 'd) \<Rightarrow> bool \<Rightarrow> bool \<Rightarrow> bytes \<Rightarrow> 'd \<Rightarrow> bool \<times> 'd" where
  "write_connection_info append_op url coordinated json d =
    (if \<not> url then (False, d)
     else if \<not> coordinated then (False, d)
     else append_op json d)"

text \<open>The application: the sequence number to go on from, and the records passed to its callback.\<close>

record LogReader =
  readIndex :: "u64 option"
  connectionInfoCallback :: "bytes list"

definition new_reader :: LogReader where
  "new_reader = \<lparr>readIndex = None, connectionInfoCallback = []\<rparr>"

definition process_connection_info ::
    "(u64 option \<Rightarrow> 'd \<Rightarrow> RingBufferReadResult option \<times> 'd) \<Rightarrow> ('d \<Rightarrow> bool \<times> 'd) \<Rightarrow> bool \<Rightarrow> bool \<Rightarrow> bool
     \<Rightarrow> LogReader \<times> 'd \<Rightarrow> LogReader \<times> 'd" where
  "process_connection_info read_op clear_op url coordinated delete_coordinated s =
    (if \<not> url \<or> \<not> coordinated then s
     else case read_op (readIndex (fst s)) (snd s) of
            (Some res, d) \<Rightarrow>
              ((fst s)\<lparr>readIndex := Some (read_next_sequence res),
                  connectionInfoCallback := connectionInfoCallback (fst s) @ records res\<rparr>, d)
          | (None, d) \<Rightarrow>
              ((fst s)\<lparr>readIndex := None\<rparr>, if delete_coordinated then snd (clear_op d) else d))"

text \<open>Android: the calls to the notifier of the application, and the file.\<close>

record AndroidLog =
  connectionInfoFile :: "Disk option"
  onConnectionInfoCalls :: "bytes list"

definition android_on_connection_info :: "Answer \<Rightarrow> bool \<Rightarrow> bytes \<Rightarrow> AndroidLog \<Rightarrow> AndroidLog" where
  "android_on_connection_info ans notifier info a =
    (let a1 = (case connectionInfoFile a of
                 None \<Rightarrow> a
               | Some d \<Rightarrow>
                   (case append_record ans connection_info_file info d of
                      (True, d') \<Rightarrow> a\<lparr>connectionInfoFile := Some d'\<rparr>
                    | (False, d') \<Rightarrow> a\<lparr>connectionInfoFile := Some (snd (clear_buffer ans d'))\<rparr>))
     in if notifier then a1\<lparr>onConnectionInfoCalls := onConnectionInfoCalls a1 @ [info]\<rparr> else a1)"

definition android_set_app_notifier :: "Answer \<Rightarrow> Disk \<Rightarrow> AndroidLog \<Rightarrow> AndroidLog" where
  "android_set_app_notifier ans d a =
    (case read_all ans connection_info_file d of
       (None, d') \<Rightarrow> a\<lparr>connectionInfoFile := Some (snd (clear_buffer ans d'))\<rparr>
     | (Some res, d') \<Rightarrow> a\<lparr>connectionInfoFile := Some d',
                            onConnectionInfoCalls := onConnectionInfoCalls a @ records res\<rparr>)"

section \<open>What the adapters rely on\<close>

locale record_log =
  fixes held :: "'d \<Rightarrow> bytes list \<Rightarrow> bool"
    and append_op :: "bytes \<Rightarrow> 'd \<Rightarrow> bool \<times> 'd"
    and read_op :: "u64 option \<Rightarrow> 'd \<Rightarrow> RingBufferReadResult option \<times> 'd"
    and clear_op :: "'d \<Rightarrow> bool \<times> 'd"
    and room :: nat
    and acceptable :: "bytes \<Rightarrow> bool"
  assumes append_law: "held d H \<Longrightarrow> acceptable r \<Longrightarrow> Suc (length H) < 2 ^ 64 \<Longrightarrow>
      fst (append_op r d) \<and> held (snd (append_op r d)) (H @ [r])"
    and reject_law: "held d H \<Longrightarrow> \<not> acceptable r \<Longrightarrow> append_op r d = (False, d)"
    and read_law: "held d H \<Longrightarrow>
      fst (read_op n d) = Some \<lparr>records = drop (case n of None \<Rightarrow> length H - room
          | Some s \<Rightarrow> max (length H - room) (min (unat s) (length H))) H, read_next_sequence = of_nat (length H)\<rparr>
      \<and> held (snd (read_op n d)) H"
    and clear_law: "held d H \<Longrightarrow> fst (clear_op d) \<and> held (snd (clear_op d)) []"
begin

text \<open>A group of records is written, then the application reads.\<close>

lemma writes_held:
  "held d H \<Longrightarrow> length H + length rs < 2 ^ 64 \<Longrightarrow>
   held (fold (\<lambda>r d. snd (write_connection_info append_op True True r d)) rs d) (H @ filter acceptable rs)"
proof (induction rs arbitrary: d H)
  case Nil
  then show ?case by simp
next
  case (Cons r rs)
  show ?case
  proof (cases "acceptable r")
    case True
    then have "held (snd (append_op r d)) (H @ [r])" using append_law [OF Cons.prems(1) True] Cons.prems(2) by simp
    then show ?thesis using Cons.IH [of _ "H @ [r]"] Cons.prems(2) True by (simp add: write_connection_info_def)
  next
    case False
    then show ?thesis using Cons.IH [OF Cons.prems(1)] Cons.prems reject_law by (simp add: write_connection_info_def)
  qed
qed

definition caught_up :: "LogReader \<Rightarrow> bytes list \<Rightarrow> bool" where
  "caught_up l H \<longleftrightarrow> connectionInfoCallback l = H
     \<and> (case readIndex l of None \<Rightarrow> H = [] | Some n \<Rightarrow> n = of_nat (length H))"

lemma process_catches_up:
  assumes "caught_up l H" "held d (H @ G)" "length G \<le> room" "length (H @ G) < 2 ^ 64"
  shows "\<exists>l' d'. process_connection_info read_op clear_op True True c (l, d) = (l', d')
    \<and> caught_up l' (H @ G) \<and> held d' (H @ G)"
proof -
  define k where "k = (case readIndex l of None \<Rightarrow> length (H @ G) - room
      | Some s \<Rightarrow> max (length (H @ G) - room) (min (unat s) (length (H @ G))))"
  obtain d' where r: "held d' (H @ G)"
      "read_op (readIndex l) d = (Some \<lparr>records = drop k (H @ G), read_next_sequence = of_nat (length (H @ G))\<rparr>, d')"
    using read_law [OF assms(2), of "readIndex l"] unfolding k_def by (metis prod.collapse)
  have "drop k (H @ G) = G"
  proof (cases "readIndex l")
    case None
    then show ?thesis using assms(1,3) by (simp add: caught_up_def k_def)
  next
    case (Some n)
    then have "unat n = length H" using assms(1,4) by (simp add: caught_up_def u64_of_nat)
    moreover have "length (H @ G) - room \<le> length H" using assms(3) by simp
    ultimately show ?thesis using Some by (simp add: k_def)
  qed
  then show ?thesis using r assms(1) by (auto simp: process_connection_info_def caught_up_def)
qed

lemma groups_delivered:
  "caught_up l H \<Longrightarrow> held d H \<Longrightarrow> list_all (\<lambda>g. length (filter acceptable g) \<le> room) gs \<Longrightarrow>
   length H + length (concat gs) < 2 ^ 64 \<Longrightarrow>
   connectionInfoCallback (fst (fold (\<lambda>g s. process_connection_info read_op clear_op True True c
       (fst s, fold (\<lambda>r d. snd (write_connection_info append_op True True r d)) g (snd s))) gs (l, d)))
   = H @ filter acceptable (concat gs)"
proof (induction gs arbitrary: l d H)
  case Nil
  then show ?case by (simp add: caught_up_def)
next
  case (Cons g gs)
  define d1 where "d1 = fold (\<lambda>r d. snd (write_connection_info append_op True True r d)) g d"
  have "held d1 (H @ filter acceptable g)" using writes_held [OF Cons.prems(2), of g] Cons.prems(4) by (simp add: d1_def)
  moreover have "length (H @ filter acceptable g) < 2 ^ 64"
    using length_filter_le [of acceptable g] Cons.prems(4) by (simp del: length_filter_le)
  ultimately obtain l' d' where l': "process_connection_info read_op clear_op True True c (l, d1) = (l', d')"
      "caught_up l' (H @ filter acceptable g)" "held d' (H @ filter acceptable g)"
    using process_catches_up [OF Cons.prems(1), of d1 "filter acceptable g" c] Cons.prems(3) by auto
  have "length (H @ filter acceptable g) + length (concat gs) < 2 ^ 64"
    using length_filter_le [of acceptable g] Cons.prems(4) by (simp del: length_filter_le)
  then show ?case using Cons.IH [OF l'(2,3)] Cons.prems(3) l'(1) by (simp add: d1_def [symmetric])
qed

end

section \<open>The ring buffer provides it\<close>

lemma log_usable: "usable connection_info_file" "cap connection_info_file = 500"
  by (simp_all add: usable_def connection_info_file_def)

locale healthy_disk =
  fixes ans :: Answer
  assumes healthy_ans: "healthy ans"

sublocale healthy_disk \<subseteq> ring: record_log "holds connection_info_file" "append_record ans connection_info_file"
    "read_since ans connection_info_file" "clear_buffer ans" 500 "fits connection_info_file"
proof
  fix d :: Disk and H r n
  assume h: "holds connection_info_file d H"
  show "fst (append_record ans connection_info_file r d)
      \<and> holds connection_info_file (snd (append_record ans connection_info_file r d)) (H @ [r])"
    if "fits connection_info_file r" "Suc (length H) < 2 ^ 64"
    using append_holds [OF h log_usable(1) that healthy_ans] by auto
  show "append_record ans connection_info_file r d = (False, d)" if "\<not> fits connection_info_file r"
    using that by (simp add: append_record_def)
  show "fst (read_since ans connection_info_file n d)
      = Some \<lparr>records = drop (case n of None \<Rightarrow> length H - 500
          | Some s \<Rightarrow> max (length H - 500) (min (unat s) (length H))) H, read_next_sequence = of_nat (length H)\<rparr>
      \<and> holds connection_info_file (snd (read_since ans connection_info_file n d)) H"
    using read_holds [OF h log_usable(1) healthy_ans, of n]
    unfolding read_spec_def read_start_def log_usable(2) by auto
  show "fst (clear_buffer ans d) \<and> holds connection_info_file (snd (clear_buffer ans d)) []"
    using healthy_ans by (simp add: clear_buffer_def holds_def)
qed

context healthy_disk
begin

lemmas delivered = ring.groups_delivered
lemmas cleared = ring.clear_law

lemma new_reader_caught_up: "ring.caught_up new_reader []"
  by (simp add: ring.caught_up_def new_reader_def)

end

interpretation steady: healthy_disk "\<lambda>_. 60"
  by unfold_locales (simp add: healthy_def)

section \<open>The log of the connections\<close>

text \<open>The network extension writes a group of records, then the application reads, and so on.\<close>

definition log_rounds :: "Answer \<Rightarrow> bytes list list \<Rightarrow> LogReader \<times> Disk \<Rightarrow> LogReader \<times> Disk" where
  "log_rounds ans gs s = fold (\<lambda>g s. process_connection_info (read_since ans connection_info_file) (clear_buffer ans) True True True
      (fst s, fold (\<lambda>r d. snd (write_connection_info (append_record ans connection_info_file) True True r d)) g (snd s))) gs s"

text \<open>
  Claim C34: No record is lost or repeated between the network extension and the application. However the notifications are merged, if no
  more than 500 records that fit are written between two reads, the application has passed every record that fits to its
  callback, once each and in the order they were written.
\<close>

theorem connection_log_delivers:
  assumes "healthy ans" "list_all (\<lambda>g. length (filter (fits connection_info_file) g) \<le> 500) gs" "length (concat gs) < 2 ^ 64"
  shows "connectionInfoCallback (fst (log_rounds ans gs (new_reader, \<lparr>file_at = None, calls = i\<rparr>)))
    = filter (fits connection_info_file) (concat gs)"
proof -
  have disk: "healthy_disk ans" using assms(1) by (rule healthy_disk.intro)
  have "holds connection_info_file \<lparr>file_at = None, calls = i\<rparr> []" by (simp add: holds_def)
  from healthy_disk.delivered [OF disk healthy_disk.new_reader_caught_up [OF disk] this assms(2), of True] assms(3)
  show ?thesis by (simp add: log_rounds_def)
qed

theorem connection_log_delivers_witness:
  "connectionInfoCallback (fst (log_rounds (\<lambda>i. 1 + int (i mod 7)) [[[1], [2, 2]], [], [[3]]] (new_reader, \<lparr>file_at = None, calls = 0\<rparr>)))
   = [[1], [2, 2], [3]]"
  by (subst connection_log_delivers) (simp_all add: healthy_def connection_info_file_def)

text \<open>
  Claim C35: On Android one record that is too long empties the log. The ring buffer rejects such a record and keeps what it has,
  but the adapter takes any failed append for a corrupted file and removes it: the records before are gone, and an
  application that registers afterwards is told none of them.
\<close>

theorem android_long_record_empties_log:
  assumes "healthy ans" "holds connection_info_file d H" "\<not> fits connection_info_file info"
    "connectionInfoFile a = Some d"
  shows "\<exists>d'. connectionInfoFile (android_on_connection_info ans notifier info a) = Some d'
    \<and> append_record ans connection_info_file info d = (False, d) \<and> file_at d' = None
    \<and> onConnectionInfoCalls (android_set_app_notifier ans d' a) = onConnectionInfoCalls a"
  using assms
  by (simp add: android_on_connection_info_def android_set_app_notifier_def append_record_def clear_buffer_def
      read_all_def read_since_def Let_def)

theorem android_long_record_empties_log_witness:
  "\<exists>d'. connectionInfoFile (android_on_connection_info (\<lambda>_. 60) True (replicate 1025 0)
        \<lparr>connectionInfoFile = Some (snd (append_record (\<lambda>_. 60) connection_info_file [1] \<lparr>file_at = None, calls = 0\<rparr>)),
          onConnectionInfoCalls = []\<rparr>) = Some d' \<and> file_at d' = None"
proof -
  have "holds connection_info_file \<lparr>file_at = None, calls = 0\<rparr> []" by (simp add: holds_def)
  from append_holds [OF this log_usable(1), of "[1]" "\<lambda>_. 60"]
  have held: "holds connection_info_file (snd (append_record (\<lambda>_. 60) connection_info_file [1] \<lparr>file_at = None, calls = 0\<rparr>)) [[1]]"
    by (auto simp: healthy_def connection_info_file_def)
  have long: "\<not> fits connection_info_file (replicate 1025 0)" by (simp add: connection_info_file_def)
  show ?thesis
    using android_long_record_empties_log [OF steady.healthy_ans held long, of _ True, OF AndroidLog.select_convs(1)] by metis
qed

text \<open>
  On Apple systems a damaged file is not repaired while the application runs. The application removes a file it cannot read,
  but it only reads when it is notified, and the network extension notifies it only of an append that succeeded: once the
  file is too short for its header or the header is not valid, every further record is dropped without a notification and the file stays as it is.
\<close>

theorem damaged_log_stays_silent:
  assumes "file_at d = Some f" "length f < 32 \<or> \<not> header_valid connection_info_file (header_of (region 0 32 f))"
  shows "\<not> fst (write_connection_info (append_record ans connection_info_file) url coordinated json d)
    \<and> file_at (snd (write_connection_info (append_record ans connection_info_file) url coordinated json d)) = Some f"
proof -
  have "fst (read_header ans i connection_info_file f) = None" for i
    using assms(2) read_at_sound [of ans i 32 0 f]
    by (auto simp: read_header_def HEADER_SIZE_def split: prod.splits option.splits)
  then have "append_open ans i connection_info_file json f = (False, snd (read_header ans i connection_info_file f), f)" for i
    by (metis (no_types, lifting) append_open_def case_prod_conv option.simps(4) prod.collapse)
  then show ?thesis using assms(1) by (simp add: write_connection_info_def append_record_def)
qed

theorem damaged_log_stays_silent_witness:
  "fst (write_connection_info (append_record (\<lambda>_. 60) connection_info_file) True True [1] \<lparr>file_at = Some [], calls = 0\<rparr>) = False"
  using damaged_log_stays_silent [of "\<lparr>file_at = Some [], calls = 0\<rparr>" "[]" "\<lambda>_. 60" True True "[1]"]
  by simp

end
