(* ===== verification/Domain_Filter.thy ===== *)
theory Domain_Filter
  imports Vpn_State Wire_Utils
begin

text \<open>
  The domain filter (\<^verbatim>\<open>core/src/domain_filter.cpp\<close>): the list of exclusions of the application is parsed into tables of
  domains, addresses, address ranges and ports, against which the tunnel matches the connections.

  Splitting a host from a port, parsing numbers, addresses and ranges, and the two caches with a
  timeout come from a library that is not part of the repository; the record \<open>filter_lib\<close> holds the
  functions the filter calls. The unordered containers are lists without repetitions.
\<close>

section \<open>The library\<close>

record ('sa, 'cidr, 'tag, 'tags, 'susp) filter_lib =
  split_host_port :: "string \<Rightarrow> (string \<times> string) option"
  to_integer :: "string \<Rightarrow> u64 option"
  parse_addr :: "string \<Rightarrow> u16 \<Rightarrow> 'sa option"
  parse_cidr :: "string \<Rightarrow> 'cidr option"
  cidr_of_addr :: "bytes \<Rightarrow> 'cidr"
  cidr_includes :: "'cidr \<Rightarrow> 'cidr \<Rightarrow> bool"
  tag_addr :: "'tag \<Rightarrow> 'sa"
  tags_get :: "'tags \<Rightarrow> 'tag \<Rightarrow> string option"
  tags_insert :: "'tag \<Rightarrow> string \<Rightarrow> 'tags \<Rightarrow> 'tags"
  suspects_get :: "'susp \<Rightarrow> 'sa \<Rightarrow> bool"
  suspects_insert :: "'sa \<Rightarrow> int \<Rightarrow> 'susp \<Rightarrow> 'susp"
  suspects_clear :: "'susp \<Rightarrow> 'susp"

section \<open>Parsing an entry\<close>

definition WWW_PREFIX :: string where
  "WWW_PREFIX = ''www.''"

definition WILDCARD_PREFIX :: string where
  "WILDCARD_PREFIX = ''*.''"

record MatchFlagsSet =
  DFMM_EXACT :: bool
  DFMM_SUBDOMAINS :: bool

datatype ('sa, 'cidr) ParseResult =
  AddrEntry 'sa | CidrEntry 'cidr | DomainEntryInfo string MatchFlagsSet | PortOnlyEntry u16 | DomainEntryMalformed

datatype DomainFilterValidationStatus = DFVS_OK_ADDR | DFVS_OK_CIDR | DFVS_OK_DOMAIN | DFVS_OK_PORT | DFVS_MALFORMED

definition starts_with :: "string \<Rightarrow> string \<Rightarrow> bool" where
  "starts_with s p \<longleftrightarrow> take (length p) s = p"

definition is_alnum :: "char \<Rightarrow> bool" where
  "is_alnum c \<longleftrightarrow> (let n = (of_char c :: nat) in (48 \<le> n \<and> n \<le> 57) \<or> (65 \<le> n \<and> n \<le> 90) \<or> (97 \<le> n \<and> n \<le> 122))"

definition is_space :: "char \<Rightarrow> bool" where
  "is_space c \<longleftrightarrow> (let n = (of_char c :: nat) in n = 32 \<or> (9 \<le> n \<and> n \<le> 13))"

fun domain_chars_ok :: "char \<Rightarrow> string \<Rightarrow> bool" where
  "domain_chars_ok last_ch [] = True"
| "domain_chars_ok last_ch (ch # rest) =
    (if \<not> is_alnum ch \<and> ch \<noteq> CHR ''-'' \<and> ch \<noteq> CHR ''_'' \<and> ch \<noteq> CHR ''.'' then False
     else if ch = CHR ''.'' \<and> last_ch = CHR ''.'' then False
     else domain_chars_ok ch rest)"

definition domain_ok :: "string \<Rightarrow> bool" where
  "domain_ok item =
    (let domain = (if starts_with item WILDCARD_PREFIX then drop 2 item else item)
     in domain \<noteq> [] \<and> domain_chars_ok (CHR ''.'') domain)"

definition parse_domain :: "string \<Rightarrow> ('sa, 'cidr) ParseResult" where
  "parse_domain item =
    (if \<not> domain_ok item then DomainEntryMalformed
     else if starts_with item WILDCARD_PREFIX
     then DomainEntryInfo (drop 2 item) \<lparr>DFMM_EXACT = False, DFMM_SUBDOMAINS = True\<rparr>
     else DomainEntryInfo (if starts_with item WWW_PREFIX then drop 4 item else item)
            \<lparr>DFMM_EXACT = True, DFMM_SUBDOMAINS = False\<rparr>)"

text \<open>What the part of an entry that names a host and a port gives, if it gives anything.\<close>

definition parse_host_port :: "('sa, 'cidr, 'tag, 'tags, 'susp) filter_lib \<Rightarrow> string \<Rightarrow> ('sa, 'cidr) ParseResult option" where
  "parse_host_port lib item =
    (case split_host_port lib item of
       None \<Rightarrow> None
     | Some (host, port_text) \<Rightarrow>
         (case to_integer lib port_text of
            Some port \<Rightarrow>
              if port_text = [] then map_option AddrEntry (parse_addr lib host 0)
              else if 0 < port \<and> port \<le> 65535 then
                if host = ''*'' then Some (PortOnlyEntry (ucast port))
                else map_option AddrEntry (parse_addr lib host (ucast port))
              else None
          | None \<Rightarrow> map_option AddrEntry (parse_addr lib host 0)))"

definition parse_entry :: "('sa, 'cidr, 'tag, 'tags, 'susp) filter_lib \<Rightarrow> string \<Rightarrow> ('sa, 'cidr) ParseResult" where
  "parse_entry lib item =
    (case parse_host_port lib item of
       Some r \<Rightarrow> r
     | None \<Rightarrow> (case parse_cidr lib item of Some rg \<Rightarrow> CidrEntry rg | None \<Rightarrow> parse_domain item))"

definition validate_entry :: "('sa, 'cidr, 'tag, 'tags, 'susp) filter_lib \<Rightarrow> string \<Rightarrow> DomainFilterValidationStatus" where
  "validate_entry lib item =
    (case parse_entry lib item of
       AddrEntry _ \<Rightarrow> DFVS_OK_ADDR | CidrEntry _ \<Rightarrow> DFVS_OK_CIDR | DomainEntryInfo _ _ \<Rightarrow> DFVS_OK_DOMAIN
     | PortOnlyEntry _ \<Rightarrow> DFVS_OK_PORT | DomainEntryMalformed \<Rightarrow> DFVS_MALFORMED)"

datatype VpnExclusionValidationStatus = VPN_EVS_OK | VPN_EVS_MALFORMED

definition vpn_validate_exclusion :: "('sa, 'cidr, 'tag, 'tags, 'susp) filter_lib \<Rightarrow> string \<Rightarrow> VpnExclusionValidationStatus" where
  "vpn_validate_exclusion lib text =
    (if validate_entry lib text = DFVS_MALFORMED then VPN_EVS_MALFORMED else VPN_EVS_OK)"

section \<open>The filter\<close>

record ('sa, 'cidr, 'tags, 'susp) DomainFilter =
  m_mode :: VpnMode
  m_domains :: "(string \<times> MatchFlagsSet) list"
  m_addresses :: "'sa list"
  m_ports_only :: "u16 list"
  m_cidr_ranges :: "'cidr list"
  m_resolved_tags :: 'tags
  m_exclusion_suspects :: 'susp

definition flags_or :: "MatchFlagsSet \<Rightarrow> MatchFlagsSet \<Rightarrow> MatchFlagsSet" where
  "flags_or a b = \<lparr>DFMM_EXACT = DFMM_EXACT a \<or> DFMM_EXACT b, DFMM_SUBDOMAINS = DFMM_SUBDOMAINS a \<or> DFMM_SUBDOMAINS b\<rparr>"

fun add_domain :: "string \<Rightarrow> MatchFlagsSet \<Rightarrow> (string \<times> MatchFlagsSet) list \<Rightarrow> (string \<times> MatchFlagsSet) list" where
  "add_domain name fl [] = [(name, fl)]"
| "add_domain name fl ((n, f) # ds) = (if n = name then (n, flags_or f fl) # ds else (n, f) # add_domain name fl ds)"

definition add_entry ::
    "('sa, 'cidr, 'tag, 'tags, 'susp) filter_lib \<Rightarrow> string \<Rightarrow> ('sa, 'cidr, 'tags, 'susp) DomainFilter \<Rightarrow> ('sa, 'cidr, 'tags, 'susp) DomainFilter" where
  "add_entry lib item f =
    (case parse_entry lib item of
       AddrEntry a \<Rightarrow> f\<lparr>m_addresses := List.insert a (m_addresses f)\<rparr>
     | DomainEntryInfo text fl \<Rightarrow> f\<lparr>m_domains := add_domain text fl (m_domains f)\<rparr>
     | CidrEntry r \<Rightarrow> f\<lparr>m_cidr_ranges := List.insert r (m_cidr_ranges f)\<rparr>
     | PortOnlyEntry p \<Rightarrow> f\<lparr>m_ports_only := List.insert p (m_ports_only f)\<rparr>
     | DomainEntryMalformed \<Rightarrow> f)"

fun add_entries ::
    "('sa, 'cidr, 'tag, 'tags, 'susp) filter_lib \<Rightarrow> string \<Rightarrow> string \<Rightarrow> ('sa, 'cidr, 'tags, 'susp) DomainFilter \<Rightarrow> ('sa, 'cidr, 'tags, 'susp) DomainFilter" where
  "add_entries lib buffer [] f = (if buffer = [] then f else add_entry lib buffer f)"
| "add_entries lib buffer (ch # rest) f =
    (if \<not> is_space ch then add_entries lib (buffer @ [ch]) rest f
     else if buffer \<noteq> [] then add_entries lib [] rest (add_entry lib buffer f)
     else add_entries lib buffer rest f)"

definition update_exclusions ::
    "('sa, 'cidr, 'tag, 'tags, 'susp) filter_lib \<Rightarrow> VpnMode \<Rightarrow> string \<Rightarrow> ('sa, 'cidr, 'tags, 'susp) DomainFilter \<Rightarrow> bool \<times> ('sa, 'cidr, 'tags, 'susp) DomainFilter" where
  "update_exclusions lib mode exclusions f =
    (True, add_entries lib [] exclusions
       (f\<lparr>m_mode := mode, m_domains := [], m_addresses := [], m_ports_only := [],
          m_exclusion_suspects := suspects_clear lib (m_exclusion_suspects f), m_cidr_ranges := []\<rparr>))"

datatype DomainFilterMatchStatus = DFMS_DEFAULT | DFMS_EXCLUSION | DFMS_SUSPECT_EXCLUSION

definition domain_found :: "MatchFlagsSet \<Rightarrow> bool \<Rightarrow> string \<Rightarrow> string \<Rightarrow> bool" where
  "domain_found fl www_prefixed seek domain \<longleftrightarrow>
    (DFMM_EXACT fl \<and> (length seek = length domain
       \<or> (www_prefixed \<and> length seek + length WWW_PREFIX = length domain)))
    \<or> (DFMM_SUBDOMAINS fl \<and> length seek < length domain)"

text \<open>What is left after the first dot, if anything is.\<close>

definition after_dot :: "string \<Rightarrow> string option" where
  "after_dot s = (case dropWhile (\<lambda>c. c \<noteq> CHR ''.'') s of [] \<Rightarrow> None | _ # r \<Rightarrow> if r = [] then None else Some r)"

lemma after_dot_shorter: "after_dot s = Some r \<Longrightarrow> length r < length s"
  using length_dropWhile_le [of "\<lambda>c. c \<noteq> CHR ''.''" s] by (auto simp: after_dot_def split: list.splits if_splits)

function match_loop :: "(string \<times> MatchFlagsSet) list \<Rightarrow> bool \<Rightarrow> string \<Rightarrow> string \<Rightarrow> DomainFilterMatchStatus" where
  "match_loop ds www_prefixed domain seek =
    (if (case map_of ds seek of Some fl \<Rightarrow> domain_found fl www_prefixed seek domain | None \<Rightarrow> False) then DFMS_EXCLUSION
     else case after_dot seek of
            None \<Rightarrow> DFMS_DEFAULT
          | Some rest \<Rightarrow> match_loop ds www_prefixed domain rest)"
  by pat_completeness auto
termination by (relation "measure (\<lambda>(ds, w, domain, seek). length seek)") (auto dest: after_dot_shorter)

declare match_loop.simps [simp del]

definition match_domain :: "string \<Rightarrow> ('sa, 'cidr, 'tags, 'susp) DomainFilter \<Rightarrow> DomainFilterMatchStatus" where
  "match_domain domain f =
    (let www_prefixed = starts_with domain WWW_PREFIX
     in match_loop (m_domains f) www_prefixed domain (if \<not> www_prefixed then domain else drop 4 domain))"

record DomainFilterMatchResult =
  match_status :: DomainFilterMatchStatus
  match_name :: "string option"

definition address_found ::
    "('sa, 'cidr, 'tag, 'tags, 'susp) filter_lib \<Rightarrow> 'sa sa_ops \<Rightarrow> 'sa \<Rightarrow> ('sa, 'cidr, 'tags, 'susp) DomainFilter \<Rightarrow> bool" where
  "address_found lib ops addr f \<longleftrightarrow>
    addr \<in> set (m_addresses f) \<or> so_set_port ops 0 addr \<in> set (m_addresses f)
    \<or> list_ex (\<lambda>r. cidr_includes lib r (cidr_of_addr lib (so_addr ops addr))) (m_cidr_ranges f)
    \<or> so_port ops addr \<in> set (m_ports_only f)"

definition match_tag ::
    "('sa, 'cidr, 'tag, 'tags, 'susp) filter_lib \<Rightarrow> 'sa sa_ops \<Rightarrow> 'tag \<Rightarrow> ('sa, 'cidr, 'tags, 'susp) DomainFilter \<Rightarrow> DomainFilterMatchResult" where
  "match_tag lib ops tag f =
    (let addr_no_port = so_set_port ops 0 (tag_addr lib tag)
     in if address_found lib ops (tag_addr lib tag) f then \<lparr>match_status = DFMS_EXCLUSION, match_name = None\<rparr>
        else case tags_get lib (m_resolved_tags f) tag of
               Some domain \<Rightarrow> \<lparr>match_status = match_domain domain f, match_name = Some domain\<rparr>
             | None \<Rightarrow>
                 if suspects_get lib (m_exclusion_suspects f) addr_no_port
                 then \<lparr>match_status = DFMS_SUSPECT_EXCLUSION, match_name = None\<rparr>
                 else \<lparr>match_status = DFMS_DEFAULT, match_name = None\<rparr>)"

definition add_resolved_tag ::
    "('sa, 'cidr, 'tag, 'tags, 'susp) filter_lib \<Rightarrow> 'tag \<Rightarrow> string \<Rightarrow> ('sa, 'cidr, 'tags, 'susp) DomainFilter \<Rightarrow> ('sa, 'cidr, 'tags, 'susp) DomainFilter" where
  "add_resolved_tag lib tag domain f = f\<lparr>m_resolved_tags := tags_insert lib tag domain (m_resolved_tags f)\<rparr>"

definition add_exclusion_suspect ::
    "('sa, 'cidr, 'tag, 'tags, 'susp) filter_lib \<Rightarrow> 'sa sa_ops \<Rightarrow> 'sa \<Rightarrow> int \<Rightarrow> ('sa, 'cidr, 'tags, 'susp) DomainFilter \<Rightarrow> ('sa, 'cidr, 'tags, 'susp) DomainFilter" where
  "add_exclusion_suspect lib ops addr ttl f =
    f\<lparr>m_exclusion_suspects := suspects_insert lib (so_set_port ops 0 addr) ttl (m_exclusion_suspects f)\<rparr>"

definition get_resolvable_exclusions :: "('sa, 'cidr, 'tags, 'susp) DomainFilter \<Rightarrow> string list" where
  "get_resolvable_exclusions f = map fst (filter (\<lambda>(name, fl). DFMM_EXACT fl) (m_domains f))"

definition get_mode :: "('sa, 'cidr, 'tags, 'susp) DomainFilter \<Rightarrow> VpnMode" where
  "get_mode f = m_mode f"

section \<open>Matching a domain\<close>

text \<open>A domain and what follows any of its dots.\<close>

definition tail_of :: "string \<Rightarrow> string \<Rightarrow> bool" where
  "tail_of s r \<longleftrightarrow> r = s \<or> (r \<noteq> [] \<and> (\<exists>p. s = p @ CHR ''.'' # r))"

lemma after_dot_Some: "after_dot s = Some r \<Longrightarrow> r \<noteq> [] \<and> (\<exists>p. s = p @ CHR ''.'' # r \<and> CHR ''.'' \<notin> set p)"
proof -
  assume a: "after_dot s = Some r"
  then obtain c where c: "dropWhile (\<lambda>c. c \<noteq> CHR ''.'') s = c # r" "r \<noteq> []"
    by (auto simp: after_dot_def split: list.splits if_splits)
  then have "c = CHR ''.''" using hd_dropWhile [of "\<lambda>c. c \<noteq> CHR ''.''" s] by simp
  then have "s = takeWhile (\<lambda>c. c \<noteq> CHR ''.'') s @ CHR ''.'' # r" using c(1) by (metis takeWhile_dropWhile_id)
  moreover have "CHR ''.'' \<notin> set (takeWhile (\<lambda>c. c \<noteq> CHR ''.'') s)" using set_takeWhileD by fastforce
  ultimately show ?thesis using c(2) by blast
qed

lemma after_dot_split:
  assumes "s = p @ CHR ''.'' # r" "r \<noteq> []"
  shows "\<exists>s'. after_dot s = Some s' \<and> tail_of s' r"
proof -
  have first: "after_dot (p1 @ CHR ''.'' # q) = (if q = [] then None else Some q)" if "CHR ''.'' \<notin> set p1" for p1 q
  proof -
    have "dropWhile (\<lambda>c. c \<noteq> CHR ''.'') (p1 @ CHR ''.'' # q) = CHR ''.'' # q"
      using that by (subst dropWhile_append2) auto
    then show ?thesis by (simp add: after_dot_def)
  qed
  show ?thesis
  proof (cases "CHR ''.'' \<in> set p")
    case True
    then obtain p1 q where "p = p1 @ CHR ''.'' # q" "CHR ''.'' \<notin> set p1" by (metis split_list_first)
    then show ?thesis using first [of p1 "q @ CHR ''.'' # r"] assms by (auto simp: tail_of_def)
  next
    case False
    then show ?thesis using first [of p r] assms by (auto simp: tail_of_def)
  qed
qed

lemma tail_of_step: "tail_of s r \<longleftrightarrow> r = s \<or> (\<exists>s'. after_dot s = Some s' \<and> tail_of s' r)"
proof
  assume "tail_of s r"
  then show "r = s \<or> (\<exists>s'. after_dot s = Some s' \<and> tail_of s' r)"
    unfolding tail_of_def [of s] using after_dot_split by blast
next
  assume "r = s \<or> (\<exists>s'. after_dot s = Some s' \<and> tail_of s' r)"
  then show "tail_of s r"
  proof (elim disjE exE conjE)
    fix s' assume "after_dot s = Some s'" "tail_of s' r"
    then show "tail_of s r" using after_dot_Some [of s s']
      by (auto simp: tail_of_def)
  qed (simp add: tail_of_def)
qed

lemma match_loop_iff:
  "match_loop ds w domain seek = DFMS_EXCLUSION \<longleftrightarrow>
   (\<exists>r fl. tail_of seek r \<and> map_of ds r = Some fl \<and> domain_found fl w r domain)"
proof (induction ds w domain seek rule: match_loop.induct)
  case (1 ds w domain seek)
  show ?case
  proof (cases "case map_of ds seek of Some fl \<Rightarrow> domain_found fl w seek domain | None \<Rightarrow> False")
    case True
    then show ?thesis
      by (subst match_loop.simps) (auto simp: tail_of_def split: option.splits)
  next
    case False
    show ?thesis
    proof (cases "after_dot seek")
      case None
      then show ?thesis using False
        by (subst match_loop.simps) (auto simp: tail_of_step [of seek] split: option.splits)
    next
      case (Some rest)
      then have "match_loop ds w domain seek = match_loop ds w domain rest"
        using False by (subst match_loop.simps) simp
      then show ?thesis using 1 [OF False Some] False Some
        by (auto simp: tail_of_step [of seek] split: option.splits)
    qed
  qed
qed

lemma match_loop_cases: "match_loop ds w domain seek \<noteq> DFMS_SUSPECT_EXCLUSION"
proof (induction ds w domain seek rule: match_loop.induct)
  case (1 ds w domain seek)
  then show ?case by (simp add: match_loop.simps [of ds w domain seek] split: option.split)
qed

definition strip_www :: "string \<Rightarrow> string" where
  "strip_www s = (if starts_with s WWW_PREFIX then drop 4 s else s)"

lemma starts_with_append: "starts_with s p \<longleftrightarrow> (\<exists>r. s = p @ r)"
  by (auto simp: starts_with_def) (metis append_take_drop_id)

lemma strip_www_cases: "s = strip_www s \<and> \<not> starts_with s WWW_PREFIX \<or> s = WWW_PREFIX @ strip_www s"
  by (auto simp: strip_www_def starts_with_append WWW_PREFIX_def)

lemma subdomain_iff_tail:
  assumes "r \<noteq> []"
  shows "(\<exists>p. domain = p @ CHR ''.'' # r) \<longleftrightarrow> tail_of (strip_www domain) r \<and> length r < length domain"
proof (cases "starts_with domain WWW_PREFIX")
  case False
  then show ?thesis using assms by (auto simp: strip_www_def tail_of_def)
next
  case True
  then obtain x where x: "domain = ''www.'' @ x" "strip_www domain = x"
    by (auto simp: starts_with_append strip_www_def WWW_PREFIX_def)
  have "tail_of x r" if eq: "''www.'' @ x = p @ CHR ''.'' # r" for p
  proof -
    from eq obtain us where "''www.'' = p @ us \<and> us @ x = CHR ''.'' # r \<or> ''www.'' @ us = p \<and> x = us @ CHR ''.'' # r"
      unfolding append_eq_append_conv2 by blast
    then show ?thesis using assms by (cases us) (auto simp: tail_of_def Cons_eq_append_conv)
  qed
  moreover have "\<exists>p. ''www.'' @ x = p @ CHR ''.'' # r" if "tail_of x r"
    using that unfolding tail_of_def by (metis append_Cons append_Nil append_assoc)
  moreover have "length r \<le> length x" if "tail_of x r" using that by (auto simp: tail_of_def)
  ultimately show ?thesis using x by fastforce
qed

lemma match_domain_iff:
  assumes "\<forall>d fl. map_of (m_domains f) d = Some fl \<and> DFMM_SUBDOMAINS fl \<longrightarrow> d \<noteq> []"
  shows "match_domain domain f = DFMS_EXCLUSION \<longleftrightarrow>
    (\<exists>fl. map_of (m_domains f) (strip_www domain) = Some fl \<and> DFMM_EXACT fl)
    \<or> (\<exists>d fl p. map_of (m_domains f) d = Some fl \<and> DFMM_SUBDOMAINS fl \<and> domain = p @ CHR ''.'' # d)" (is "?l \<longleftrightarrow> ?r")
proof -
  define w where "w = starts_with domain WWW_PREFIX"
  have l: "?l \<longleftrightarrow> (\<exists>r fl. tail_of (strip_www domain) r \<and> map_of (m_domains f) r = Some fl \<and> domain_found fl w r domain)"
    using match_loop_iff by (simp add: match_domain_def strip_www_def w_def Let_def)
  have len: "length (strip_www domain) + (if w then 4 else 0) = length domain"
    using strip_www_cases [of domain] by (auto simp: w_def starts_with_append WWW_PREFIX_def strip_www_def)
  have exact: "r = strip_www domain"
    if "tail_of (strip_www domain) r" "length r = length domain \<or> (w \<and> length r + 4 = length domain)" for r
    using that len by (auto simp: tail_of_def split: if_splits)
  have sub: "(\<exists>p. domain = p @ CHR ''.'' # r) \<longleftrightarrow> tail_of (strip_www domain) r \<and> length r < length domain" if "r \<noteq> []" for r
    using that by (rule subdomain_iff_tail)
  show ?thesis
  proof
    assume ?l
    then obtain r fl where r: "tail_of (strip_www domain) r" "map_of (m_domains f) r = Some fl" "domain_found fl w r domain"
      using l by blast
    then show ?r using exact [OF r(1)] sub [of r] assms by (auto simp: domain_found_def WWW_PREFIX_def)
  next
    assume ?r
    then show ?l
    proof (elim disjE exE conjE)
      fix fl assume fl: "map_of (m_domains f) (strip_www domain) = Some fl" "DFMM_EXACT fl"
      have "domain_found fl w (strip_www domain) domain"
        using len fl(2) by (simp add: domain_found_def WWW_PREFIX_def split: if_splits)
      then show ?l using l fl(1) tail_of_def by blast
    next
      fix d fl p assume d: "map_of (m_domains f) d = Some fl" "DFMM_SUBDOMAINS fl" "domain = p @ CHR ''.'' # d"
      then have "tail_of (strip_www domain) d" "length d < length domain" using sub [of d] assms by blast+
      then show ?l using l d(1,2) unfolding domain_found_def by blast
    qed
  qed
qed

section \<open>The list of exclusions\<close>

text \<open>The entries of a list that is separated by white space.\<close>

function exclusion_words :: "string \<Rightarrow> string list" where
  "exclusion_words s =
    (case dropWhile is_space s of
       [] \<Rightarrow> []
     | c # t \<Rightarrow> (c # takeWhile (\<lambda>x. \<not> is_space x) t) # exclusion_words (dropWhile (\<lambda>x. \<not> is_space x) t))"
  by pat_completeness auto
termination
proof (relation "measure length", goal_cases)
  case (2 s c t)
  then have "length (c # t) \<le> length s" by (metis length_dropWhile_le)
  moreover have "length (dropWhile (\<lambda>x. \<not> is_space x) t) \<le> length t" by (rule length_dropWhile_le)
  ultimately show ?case by simp
qed simp

declare exclusion_words.simps [simp del]

lemma exclusion_words_Nil [simp]: "exclusion_words [] = []"
  by (simp add: exclusion_words.simps)

lemma exclusion_words_Cons:
  "exclusion_words (c # s) = (if is_space c then exclusion_words s
     else (c # takeWhile (\<lambda>x. \<not> is_space x) s) # exclusion_words (dropWhile (\<lambda>x. \<not> is_space x) s))"
  by (simp add: exclusion_words.simps [of "c # s"] exclusion_words.simps [of s])

lemma add_entries_words:
  "add_entries lib buffer s f = fold (add_entry lib)
     (if buffer = [] then exclusion_words s
      else (buffer @ takeWhile (\<lambda>x. \<not> is_space x) s) # exclusion_words (dropWhile (\<lambda>x. \<not> is_space x) s)) f"
  by (induction s arbitrary: buffer f) (auto simp: exclusion_words_Cons)

lemma map_of_add_domain:
  "map_of (add_domain name fl ds) d =
    (if d = name then Some (case map_of ds d of None \<Rightarrow> fl | Some g \<Rightarrow> flags_or g fl) else map_of ds d)"
  by (induction name fl ds rule: add_domain.induct) auto

text \<open>The flags the entries give a name.\<close>

definition flag_set :: "('sa, 'cidr, 'tag, 'tags, 'susp) filter_lib \<Rightarrow> (MatchFlagsSet \<Rightarrow> bool) \<Rightarrow> string list \<Rightarrow> string \<Rightarrow> bool" where
  "flag_set lib sel es d \<longleftrightarrow> (\<exists>e\<in>set es. \<exists>fl. parse_entry lib e = DomainEntryInfo d fl \<and> sel fl)"

lemma domains_after_entries:
  assumes "sel = DFMM_EXACT \<or> sel = DFMM_SUBDOMAINS"
  shows "(\<exists>fl. map_of (m_domains (fold (add_entry lib) es f)) d = Some fl \<and> sel fl) \<longleftrightarrow>
    (\<exists>fl. map_of (m_domains f) d = Some fl \<and> sel fl) \<or> flag_set lib sel es d"
proof (induction es arbitrary: f)
  case Nil
  then show ?case by (simp add: flag_set_def)
next
  case (Cons e es)
  have "(\<exists>fl. map_of (m_domains (add_entry lib e f)) d = Some fl \<and> sel fl) \<longleftrightarrow>
    (\<exists>fl. map_of (m_domains f) d = Some fl \<and> sel fl) \<or> flag_set lib sel [e] d"
    using assms by (cases "parse_entry lib e")
      (auto simp: add_entry_def flag_set_def map_of_add_domain flags_or_def split: option.splits)
  then show ?case using Cons.IH [of "add_entry lib e f"] by (auto simp: flag_set_def)
qed

lemma tables_after_entries:
  "set (m_addresses (fold (add_entry lib) es f)) = set (m_addresses f) \<union> {a. \<exists>e\<in>set es. parse_entry lib e = AddrEntry a}"
  "set (m_cidr_ranges (fold (add_entry lib) es f)) = set (m_cidr_ranges f) \<union> {r. \<exists>e\<in>set es. parse_entry lib e = CidrEntry r}"
  "set (m_ports_only (fold (add_entry lib) es f)) = set (m_ports_only f) \<union> {p. \<exists>e\<in>set es. parse_entry lib e = PortOnlyEntry p}"
  "m_resolved_tags (fold (add_entry lib) es f) = m_resolved_tags f"
  "m_exclusion_suspects (fold (add_entry lib) es f) = m_exclusion_suspects f"
  by (induction es arbitrary: f) (auto simp: add_entry_def split: ParseResult.splits)

lemma parse_entry_domain:
  "parse_entry lib e = DomainEntryInfo d fl \<longleftrightarrow> parse_host_port lib e = None \<and> parse_cidr lib e = None \<and> domain_ok e
     \<and> d = (if starts_with e WILDCARD_PREFIX then drop 2 e else strip_www e)
     \<and> fl = \<lparr>DFMM_EXACT = \<not> starts_with e WILDCARD_PREFIX, DFMM_SUBDOMAINS = starts_with e WILDCARD_PREFIX\<rparr>"
proof -
  have "parse_host_port lib e \<noteq> Some (DomainEntryInfo d fl)"
    by (auto simp: parse_host_port_def split: option.splits if_splits)
  then show ?thesis
    by (auto simp: parse_entry_def parse_domain_def strip_www_def split: option.splits)
qed

text \<open>What the description of the exclusions in \<^verbatim>\<open>vpn.h\<close> says a domain entry matches.\<close>

definition documented_match :: "string \<Rightarrow> string \<Rightarrow> bool" where
  "documented_match item domain \<longleftrightarrow>
    (if starts_with item WILDCARD_PREFIX
     then \<exists>sub. domain = sub @ CHR ''.'' # drop 2 item
     else domain = strip_www item \<or> domain = WWW_PREFIX @ strip_www item)"

lemma strip_www_eq:
  "\<not> starts_with d WWW_PREFIX \<Longrightarrow> strip_www domain = d \<longleftrightarrow> domain = d \<or> domain = WWW_PREFIX @ d"
  using strip_www_cases [of domain] by (auto simp: strip_www_def starts_with_append WWW_PREFIX_def)

text \<open>
  Claim C36: The domain filter matches what its description says. After the list of exclusions was set, a domain is
  matched exactly if one of the entries of the list that are domain names matches it: an entry that starts with a wildcard matches
  every subdomain, but not the domain itself, and any other matches the domain with or without \<^verbatim>\<open>www\<close>,
  whatever the list was before and whatever the library makes of the other entries. Entries that
  repeat the prefix \<^verbatim>\<open>www.\<close> are excepted.
\<close>

theorem domain_exclusions_documented:
  assumes "list_all (\<lambda>e. \<not> starts_with (strip_www e) WWW_PREFIX) (exclusion_words exclusions)"
  shows "match_domain domain (snd (update_exclusions lib mode exclusions f)) =
    (if list_ex (\<lambda>e. validate_entry lib e = DFVS_OK_DOMAIN \<and> documented_match e domain) (exclusion_words exclusions)
     then DFMS_EXCLUSION else DFMS_DEFAULT)"
proof -
  define es where "es = exclusion_words exclusions"
  define g where "g = snd (update_exclusions lib mode exclusions f)"
  have valid: "validate_entry lib e = DFVS_OK_DOMAIN \<longleftrightarrow> (\<exists>d fl. parse_entry lib e = DomainEntryInfo d fl)" for e
    by (auto simp: validate_entry_def split: ParseResult.splits)
  have flags: "(\<exists>fl. map_of (m_domains g) d = Some fl \<and> sel fl) \<longleftrightarrow> flag_set lib sel es d"
    if "sel = DFMM_EXACT \<or> sel = DFMM_SUBDOMAINS" for sel d
    using domains_after_entries [OF that, of lib es] by (simp add: g_def update_exclusions_def add_entries_words es_def)
  have sub: "flag_set lib DFMM_SUBDOMAINS es d \<longleftrightarrow> (\<exists>e\<in>set es. validate_entry lib e = DFVS_OK_DOMAIN
      \<and> starts_with e WILDCARD_PREFIX \<and> d = drop 2 e)" for d
    unfolding flag_set_def valid parse_entry_domain by auto
  have exact: "flag_set lib DFMM_EXACT es d \<longleftrightarrow> (\<exists>e\<in>set es. validate_entry lib e = DFVS_OK_DOMAIN
      \<and> \<not> starts_with e WILDCARD_PREFIX \<and> d = strip_www e)" for d
    unfolding flag_set_def valid parse_entry_domain by auto
  have np: "\<not> starts_with (strip_www e) WWW_PREFIX" if "e \<in> set es" for e
    using that assms by (simp add: list_all_iff es_def)
  have "d \<noteq> []" if "flag_set lib DFMM_SUBDOMAINS es d" for d
    using that unfolding flag_set_def parse_entry_domain by (auto simp: domain_ok_def Let_def)
  then have ne: "\<forall>d fl. map_of (m_domains g) d = Some fl \<and> DFMM_SUBDOMAINS fl \<longrightarrow> d \<noteq> []"
    using flags [of DFMM_SUBDOMAINS] by blast
  have "match_domain domain g = DFMS_EXCLUSION \<longleftrightarrow>
      flag_set lib DFMM_EXACT es (strip_www domain) \<or> (\<exists>d p. flag_set lib DFMM_SUBDOMAINS es d \<and> domain = p @ CHR ''.'' # d)"
    using match_domain_iff [OF ne, of domain] flags by blast
  moreover have "flag_set lib DFMM_EXACT es (strip_www domain) \<longleftrightarrow>
      (\<exists>e\<in>set es. validate_entry lib e = DFVS_OK_DOMAIN \<and> \<not> starts_with e WILDCARD_PREFIX \<and> documented_match e domain)"
    unfolding exact by (auto simp: documented_match_def strip_www_eq [OF np])
  moreover have "(\<exists>d p. flag_set lib DFMM_SUBDOMAINS es d \<and> domain = p @ CHR ''.'' # d) \<longleftrightarrow>
      (\<exists>e\<in>set es. validate_entry lib e = DFVS_OK_DOMAIN \<and> starts_with e WILDCARD_PREFIX \<and> documented_match e domain)"
    unfolding sub by (auto simp: documented_match_def)
  ultimately have "match_domain domain g = DFMS_EXCLUSION \<longleftrightarrow>
      list_ex (\<lambda>e. validate_entry lib e = DFVS_OK_DOMAIN \<and> documented_match e domain) es"
    unfolding list_ex_iff by blast
  moreover have "match_domain domain g \<noteq> DFMS_SUSPECT_EXCLUSION"
    using match_loop_cases by (simp add: match_domain_def Let_def)
  ultimately show ?thesis unfolding es_def [symmetric] g_def [symmetric] by (cases "match_domain domain g") auto
qed

lemma documented_match_code [code]:
  "documented_match item domain \<longleftrightarrow>
    (if starts_with item WILDCARD_PREFIX
     then drop (length domain - Suc (length (drop 2 item))) domain = CHR ''.'' # drop 2 item
     else domain = strip_www item \<or> domain = WWW_PREFIX @ strip_www item)"
proof -
  have "(\<exists>sub. domain = sub @ CHR ''.'' # d) \<longleftrightarrow> drop (length domain - Suc (length d)) domain = CHR ''.'' # d" for d
    by (metis append_eq_conv_conj append_take_drop_id diff_add_inverse2 length_Cons length_append)
  then show ?thesis by (simp add: documented_match_def)
qed

text \<open>A library that knows neither addresses nor ranges, and caches without a limit.\<close>

definition names_only :: "(bytes \<times> u16, unit, bytes \<times> u16, (bytes \<times> u16) \<Rightarrow> string option, (bytes \<times> u16) set) filter_lib" where
  "names_only = \<lparr>split_host_port = (\<lambda>_. None), to_integer = (\<lambda>_. None), parse_addr = (\<lambda>_ _. None), parse_cidr = (\<lambda>_. None),
     cidr_of_addr = (\<lambda>_. ()), cidr_includes = (\<lambda>_ _. False), tag_addr = id, tags_get = id, tags_insert = (\<lambda>t d m. m(t := Some d)),
     suspects_get = (\<lambda>s a. a \<in> s), suspects_insert = (\<lambda>a _ s. insert a s), suspects_clear = (\<lambda>_. {})\<rparr>"

definition empty_filter :: "(bytes \<times> u16, unit, (bytes \<times> u16) \<Rightarrow> string option, (bytes \<times> u16) set) DomainFilter" where
  "empty_filter = \<lparr>m_mode = VPN_MODE_GENERAL, m_domains = [], m_addresses = [], m_ports_only = [], m_cidr_ranges = [],
     m_resolved_tags = (\<lambda>_. None), m_exclusion_suspects = {}\<rparr>"

theorem domain_exclusions_documented_witness:
  "match_domain ''www.example.com'' (snd (update_exclusions names_only VPN_MODE_GENERAL '' example.com  *.test.org'' empty_filter))
     = DFMS_EXCLUSION
   \<and> match_domain ''a.b.test.org'' (snd (update_exclusions names_only VPN_MODE_GENERAL '' example.com  *.test.org'' empty_filter))
     = DFMS_EXCLUSION
   \<and> match_domain ''sub.example.com'' (snd (update_exclusions names_only VPN_MODE_GENERAL '' example.com  *.test.org'' empty_filter))
     = DFMS_DEFAULT
   \<and> match_domain ''Example.com'' (snd (update_exclusions names_only VPN_MODE_GENERAL '' example.com  *.test.org'' empty_filter))
     = DFMS_DEFAULT"
proof -
  have ok: "list_all (\<lambda>e. \<not> starts_with (strip_www e) WWW_PREFIX) (exclusion_words '' example.com  *.test.org'')" by code_simp
  show ?thesis unfolding domain_exclusions_documented [OF ok] by code_simp
qed

section \<open>Addresses and resolved names\<close>

text \<open>What an entry that is no domain name says of an address.\<close>

definition address_match :: "('sa, 'cidr, 'tag, 'tags, 'susp) filter_lib \<Rightarrow> 'sa sa_ops \<Rightarrow> 'sa \<Rightarrow> string \<Rightarrow> bool" where
  "address_match lib ops addr item =
    (case parse_entry lib item of
       AddrEntry a \<Rightarrow> a = addr \<or> a = so_set_port ops 0 addr
     | CidrEntry r \<Rightarrow> cidr_includes lib r (cidr_of_addr lib (so_addr ops addr))
     | PortOnlyEntry p \<Rightarrow> p = so_port ops addr
     | _ \<Rightarrow> False)"

lemma address_match_iff:
  "address_match lib ops addr e \<longleftrightarrow>
     parse_entry lib e = AddrEntry addr \<or> parse_entry lib e = AddrEntry (so_set_port ops 0 addr)
     \<or> (\<exists>r. parse_entry lib e = CidrEntry r \<and> cidr_includes lib r (cidr_of_addr lib (so_addr ops addr)))
     \<or> parse_entry lib e = PortOnlyEntry (so_port ops addr)"
  by (cases "parse_entry lib e") (auto simp: address_match_def)

lemma address_found_documented:
  "address_found lib ops addr (snd (update_exclusions lib mode exclusions f))
   \<longleftrightarrow> list_ex (address_match lib ops addr) (exclusion_words exclusions)"
  unfolding address_found_def address_match_iff list_ex_iff
  by (simp add: update_exclusions_def add_entries_words tables_after_entries) blast

lemma match_tag_excluded:
  "list_ex (address_match lib ops (tag_addr lib tag)) (exclusion_words exclusions) \<Longrightarrow>
   match_tag lib ops tag (snd (update_exclusions lib mode exclusions f)) = \<lparr>match_status = DFMS_EXCLUSION, match_name = None\<rparr>"
  by (simp add: match_tag_def address_found_documented Let_def)

lemma match_tag_by_name:
  assumes "\<not> list_ex (address_match lib ops (tag_addr lib tag)) (exclusion_words exclusions)"
    "tags_get lib (m_resolved_tags f) tag = Some domain"
  shows "match_tag lib ops tag (snd (update_exclusions lib mode exclusions f))
    = \<lparr>match_status = match_domain domain (snd (update_exclusions lib mode exclusions f)), match_name = Some domain\<rparr>"
proof -
  have "m_resolved_tags (snd (update_exclusions lib mode exclusions f)) = m_resolved_tags f"
    by (simp add: update_exclusions_def add_entries_words tables_after_entries)
  then show ?thesis using assms by (simp add: match_tag_def address_found_documented Let_def)
qed

text \<open>Names that were resolved stay known when the list of exclusions changes; the suspects are forgotten.\<close>

lemma update_keeps_resolved_names:
  "m_resolved_tags (snd (update_exclusions lib mode exclusions f)) = m_resolved_tags f"
  "m_exclusion_suspects (snd (update_exclusions lib mode exclusions f)) = suspects_clear lib (m_exclusion_suspects f)"
  "get_mode (snd (update_exclusions lib mode exclusions f)) = mode"
proof -
  have "m_mode (fold (add_entry lib) es h) = m_mode h" for es h
    by (induction es arbitrary: h) (auto simp: add_entry_def split: ParseResult.splits)
  then show "m_resolved_tags (snd (update_exclusions lib mode exclusions f)) = m_resolved_tags f"
    "m_exclusion_suspects (snd (update_exclusions lib mode exclusions f)) = suspects_clear lib (m_exclusion_suspects f)"
    "get_mode (snd (update_exclusions lib mode exclusions f)) = mode"
    by (simp_all add: update_exclusions_def add_entries_words tables_after_entries get_mode_def)
qed

lemma repeated_www_not_matched:
  "match_domain ''www.x'' (snd (update_exclusions names_only VPN_MODE_GENERAL ''www.www.x'' empty_filter)) = DFMS_DEFAULT
   \<and> documented_match ''www.www.x'' ''www.x''"
  by code_simp

lemma wildcard_port_is_no_domain:
  "split_host_port lib e = Some (''*'', p) \<Longrightarrow> to_integer lib p = Some n \<Longrightarrow> p \<noteq> [] \<Longrightarrow> 0 < n \<Longrightarrow> n \<le> 65535 \<Longrightarrow>
   vpn_validate_exclusion lib e = VPN_EVS_OK \<and> parse_entry lib e = PortOnlyEntry (ucast n)"
  by (simp add: vpn_validate_exclusion_def validate_entry_def parse_entry_def parse_host_port_def)

end
