(* ===== verification/Server_Upstream.thy ===== *)
theory Server_Upstream
  imports Wire_Utils
begin

text \<open>
  What the upstreams and the multiplexers share: tunnel addresses and the health check guards of
  \<^verbatim>\<open>core/include/vpn/internal/utils.h\<close>, the server events of
  \<^verbatim>\<open>core/include/vpn/internal/server_upstream.h\<close>, ICMP messages of
  \<^verbatim>\<open>net/include/net/utils.h\<close>, and the interface of a component that parses a byte stream
  piece by piece.
\<close>

section \<open>Identifiers and addresses\<close>

definition NON_ID :: u64 where
  "NON_ID = 0xFFFFFFFFFFFFFFFF"

definition HTTP_OK_STATUS :: nat where
  "HTTP_OK_STATUS = 200"

definition HTTP_AUTH_REQUIRED_STATUS :: nat where
  "HTTP_AUTH_REQUIRED_STATUS = 407"

record NamePort =
  np_name :: string
  np_port :: int

datatype 'sa TunnelAddress = Address 'sa | Name NamePort

record 'sa TunnelAddressPair =
  ap_src :: 'sa
  ap_dst :: "'sa TunnelAddress"

definition dstport :: "'sa sa_ops \<Rightarrow> 'sa TunnelAddressPair \<Rightarrow> u16" where
  "dstport ops p = (case ap_dst p of Address a \<Rightarrow> so_port ops a | Name n \<Rightarrow> word_of_int (np_port n))"

definition HEALTH_CHECK_HOST :: "'sa TunnelAddress" where
  "HEALTH_CHECK_HOST = Name \<lparr>np_name = ''_check'', np_port = 0\<rparr>"

section \<open>Health checks\<close>

definition should_skip_health_check_probe :: "u64 option \<Rightarrow> u64 \<Rightarrow> bool" where
  "should_skip_health_check_probe age max_age = (case age of None \<Rightarrow> False | Some a \<Rightarrow> a < max_age)"

definition health_check_busy_skip_max_age_ms :: "int \<Rightarrow> int \<Rightarrow> u64" where
  "health_check_busy_skip_max_age_ms hc ep = word_of_int (min (max 1 hc) (max 1 ep))"

section \<open>Messages and events\<close>

record 'sa IcmpEchoRequest =
  rq_peer :: 'sa
  rq_id :: u16
  rq_seqno :: u16
  rq_ttl :: u8
  rq_data_size :: u16

record 'sa IcmpEchoReply =
  rp_peer :: 'sa
  rp_id :: u16
  rp_seqno :: u16
  rp_type :: u8
  rp_code :: u8

record ServerError =
  se_id :: u64
  se_error :: VpnError

datatype 'sa ServerEvent =
    SERVER_EVENT_SESSION_OPENED
  | SERVER_EVENT_SESSION_CLOSED
  | SERVER_EVENT_CONNECTION_OPENED u64
  | SERVER_EVENT_CONNECTION_CLOSED u64
  | SERVER_EVENT_READ u64 bytes
  | SERVER_EVENT_DATA_SENT u64 nat
  | SERVER_EVENT_HEALTH_CHECK_ERROR VpnError
  | SERVER_EVENT_GET_AVAILABLE_TO_SEND u64
  | SERVER_EVENT_ERROR ServerError
  | SERVER_EVENT_ECHO_REPLY "'sa IcmpEchoReply"

text \<open>The calls that leave a multiplexer: the upstream's handler and its three callbacks.\<close>

datatype 'sa MuxCall =
    Handler "'sa ServerEvent"
  | SendConnectRequest string
  | SendData u64 bytes
  | Consume u64 nat

section \<open>Incremental readers\<close>

text \<open>
  A component that is handed a byte stream in pieces. \<open>read\<close> processes one piece and returns
  the new state and the events it raised, or \<open>None\<close> for a failed assertion. \<open>feed\<close> hands over
  a list of pieces.
\<close>

primrec feed :: "('s \<Rightarrow> bytes \<Rightarrow> ('s \<times> 'e list) option) \<Rightarrow> 's \<Rightarrow> bytes list \<Rightarrow> ('s \<times> 'e list) option" where
  "feed read s [] = Some (s, [])"
| "feed read s (c # cs) =
     do {
       (s1, e1) \<leftarrow> read s c;
       (s2, e2) \<leftarrow> feed read s1 cs;
       Some (s2, e1 @ e2)
     }"

lemma bind_assoc_pairs:
  "do { (a, x) \<leftarrow> do { (b, y) \<leftarrow> p; (c, z) \<leftarrow> f b; Some (c, y @ z) }; Some (a, e @ x) } =
   do { (b, y) \<leftarrow> do { (b, y) \<leftarrow> p; Some (b, e @ y) }; (c, z) \<leftarrow> f b; Some (c, y @ z) }"
proof (cases p)
  case (Some q)
  then show ?thesis by (cases q; cases "f (fst q)") auto
qed simp

locale stream_reader =
  fixes read :: "'s \<Rightarrow> bytes \<Rightarrow> ('s \<times> 'e list) option"
    and invar :: "'s \<Rightarrow> bool"
  assumes read_Nil: "read s [] = Some (s, [])"
    and read_total: "invar s \<Longrightarrow> \<exists>t es. read s xs = Some (t, es) \<and> invar t"
    and read_append: "invar s \<Longrightarrow> read s (xs @ ys) =
          do {
            (s1, e1) \<leftarrow> read s xs;
            (s2, e2) \<leftarrow> read s1 ys;
            Some (s2, e1 @ e2)
          }"
begin

text \<open>The pieces in which the stream arrives make no difference.\<close>

lemma feed_concat: "invar s \<Longrightarrow> feed read s cs = read s (concat cs)"
proof (induction cs arbitrary: s)
  case Nil
  then show ?case by (simp add: read_Nil)
next
  case (Cons c cs)
  obtain t es where t: "read s c = Some (t, es)" "invar t" using read_total [OF Cons.prems] by blast
  then show ?case using Cons.IH [OF t(2)] read_append [OF Cons.prems, of c "concat cs"] by simp
qed

lemma feed_cong: "invar s \<Longrightarrow> concat cs = concat ds \<Longrightarrow> feed read s cs = feed read s ds"
  by (simp add: feed_concat)

end

end
