(* ===== verification/Upstream_Multiplexer.thy ===== *)
theory Upstream_Multiplexer
  imports Vpn_State Server_Upstream
begin

text \<open>
  The multiplexer of upstream sessions (\<^verbatim>\<open>core/src/upstream_multiplexer.cpp\<close>): it spreads the connections of the tunnel over
  several sessions with the endpoint, its children, opens new children as the load grows, keeps connections
  waiting until their child is open, and ends the session of its owner when the last child is gone.

  A child is an HTTP upstream outside this model: what it answers is the record \<open>ChildAnswers\<close>, the calls to it are
  recorded in \<open>um_calls\<close>, and its events arrive at \<open>child_upstream_handler\<close>. Events for the owner are
  recorded in \<open>um_events\<close>, and closures given to the event loop in \<open>um_tasks\<close>. The unordered maps are lists of
  pairs in some order, and \<open>None\<close> is a failed assertion.
\<close>

section \<open>State\<close>

datatype UpstreamState = US_OPENING_SESSION | US_SESSION_OPENED

definition DEFAULT_UPSTREAMS_NUM :: nat where
  "DEFAULT_UPSTREAMS_NUM = 8"

definition NEW_UPSTREAM_CONNECTIONS_NUM_THRESHOLD :: nat where
  "NEW_UPSTREAM_CONNECTIONS_NUM_THRESHOLD = 5"

record 'sa PendingConnection =
  pc_upstream_id :: int
  pc_addr :: "'sa TunnelAddressPair"
  pc_proto :: int
  pc_app_name :: string

record TcpFlowCtrlInfo =
  send_buffer_size :: nat
  send_window_size :: nat

datatype 'sa ChildCall =
    UC_open_session int "millis option"
  | UC_close_session int
  | UC_open_connection int u64 "'sa TunnelAddressPair" int string
  | UC_close_connection int u64 bool bool
  | UC_send int u64 bytes
  | UC_consume int u64 nat
  | UC_available_to_send int u64
  | UC_update_flow_control int u64 TcpFlowCtrlInfo
  | UC_do_health_check int bool
  | UC_cancel_health_check int
  | UC_on_icmp_request int "'sa IcmpEchoRequest"
  | UC_handle_sleep int
  | UC_handle_wake int

record ChildAnswers =
  ua_open_session :: bool
  ua_open_connection :: "nat \<Rightarrow> bool"
  ua_connections_num :: "int \<Rightarrow> nat"
  ua_send :: int
  ua_available :: nat
  ua_kex_group_nid :: "int \<Rightarrow> int"
  ua_econnreset :: int
  ua_econnrefused :: int

record 'sa UpstreamMultiplexer =
  um_connections :: "(u64 \<times> int) list"
  um_pool :: "(int \<times> UpstreamState) list"
  um_max_upstreams_num :: nat
  um_pending :: "(u64 \<times> 'sa PendingConnection) list"
  um_pending_error :: "VpnError option"
  um_session_open :: bool
  um_next_upstream_id :: int
  um_events :: "'sa ServerEvent list"
  um_calls :: "'sa ChildCall list"
  um_tasks :: "int list list"

definition um_new :: "nat \<Rightarrow> int \<Rightarrow> 'sa UpstreamMultiplexer" where
  "um_new upstreams_num next_id =
    \<lparr>um_connections = [], um_pool = [],
     um_max_upstreams_num = (if upstreams_num = 0 then DEFAULT_UPSTREAMS_NUM else upstreams_num),
     um_pending = [], um_pending_error = None, um_session_open = False, um_next_upstream_id = next_id,
     um_events = [], um_calls = [], um_tasks = []\<rparr>"

definition map_emplace :: "'k \<Rightarrow> 'v \<Rightarrow> ('k \<times> 'v) list \<Rightarrow> ('k \<times> 'v) list" where
  "map_emplace k v m = (if k \<in> fst ` set m then m else m @ [(k, v)])"

definition map_erase :: "'k \<Rightarrow> ('k \<times> 'v) list \<Rightarrow> ('k \<times> 'v) list" where
  "map_erase k m = filter (\<lambda>(k', _). k' \<noteq> k) m"

definition um_raise :: "'sa ServerEvent \<Rightarrow> 'sa UpstreamMultiplexer \<Rightarrow> 'sa UpstreamMultiplexer" where
  "um_raise e m = m\<lparr>um_events := um_events m @ [e]\<rparr>"

definition um_call :: "'sa ChildCall \<Rightarrow> 'sa UpstreamMultiplexer \<Rightarrow> 'sa UpstreamMultiplexer" where
  "um_call c m = m\<lparr>um_calls := um_calls m @ [c]\<rparr>"

definition um_error :: "u64 \<Rightarrow> int \<Rightarrow> string \<Rightarrow> 'sa ServerEvent" where
  "um_error i c t = SERVER_EVENT_ERROR \<lparr>se_id = i, se_error = mk_error c t\<rparr>"

section \<open>Choosing a child\<close>

definition connections_num_by_upstream :: "ChildAnswers \<Rightarrow> 'sa UpstreamMultiplexer \<Rightarrow> int \<Rightarrow> nat" where
  "connections_num_by_upstream a m i =
    ua_connections_num a i + length (filter (\<lambda>(_, c). pc_upstream_id c = i) (um_pending m))"

fun least_loaded :: "ChildAnswers \<Rightarrow> int option \<Rightarrow> int option \<Rightarrow> (int \<times> UpstreamState) list \<Rightarrow> int option" where
  "least_loaded a ignored best [] = best"
| "least_loaded a ignored best ((i, st) # rest) =
    (if ignored = Some i then least_loaded a ignored best rest
     else least_loaded a ignored
            (case best of None \<Rightarrow> Some i
             | Some b \<Rightarrow> if ua_connections_num a i < ua_connections_num a b then Some i else Some b) rest)"

definition select_existing_upstream :: "ChildAnswers \<Rightarrow> int option \<Rightarrow> bool \<Rightarrow> 'sa UpstreamMultiplexer \<Rightarrow> int option" where
  "select_existing_upstream a ignored allow_underflow m =
    (case List.find (\<lambda>(i, _). ignored \<noteq> Some i
          \<and> connections_num_by_upstream a m i < NEW_UPSTREAM_CONNECTIONS_NUM_THRESHOLD) (um_pool m) of
       Some (i, _) \<Rightarrow> Some i
     | None \<Rightarrow>
         if allow_underflow \<or> um_max_upstreams_num m \<le> length (um_pool m)
         then least_loaded a ignored None (um_pool m) else None)"

definition select_upstream_for_connection :: "ChildAnswers \<Rightarrow> 'sa UpstreamMultiplexer \<Rightarrow> int \<times> 'sa UpstreamMultiplexer" where
  "select_upstream_for_connection a m =
    (case select_existing_upstream a None False m of
       Some i \<Rightarrow> (i, m)
     | None \<Rightarrow> (um_next_upstream_id m, m\<lparr>um_next_upstream_id := um_next_upstream_id m + 1\<rparr>))"

section \<open>Opening\<close>

definition open_new_upstream ::
    "ChildAnswers \<Rightarrow> int \<Rightarrow> millis option \<Rightarrow> 'sa UpstreamMultiplexer \<Rightarrow> (bool \<times> 'sa UpstreamMultiplexer) option" where
  "open_new_upstream a i timeout m =
    (if i \<in> fst ` set (um_pool m) then None
     else let m1 = um_call (UC_open_session i timeout) m
          in if \<not> ua_open_session a then Some (False, m1)
             else Some (True, m1\<lparr>um_pool := um_pool m1 @ [(i, US_OPENING_SESSION)]\<rparr>))"

definition open_session :: "ChildAnswers \<Rightarrow> millis option \<Rightarrow> 'sa UpstreamMultiplexer \<Rightarrow> (bool \<times> 'sa UpstreamMultiplexer) option" where
  "open_session a timeout m =
    (if um_pool m \<noteq> [] then None
     else case select_upstream_for_connection a m of (i, m1) \<Rightarrow> open_new_upstream a i timeout m1)"

definition open_connection_on ::
    "ChildAnswers \<Rightarrow> u64 \<Rightarrow> 'sa PendingConnection \<Rightarrow> 'sa UpstreamMultiplexer \<Rightarrow> (bool \<times> 'sa UpstreamMultiplexer) option" where
  "open_connection_on a cid c m =
    (case map_of (um_pool m) (pc_upstream_id c) of
       None \<Rightarrow> None
     | Some US_OPENING_SESSION \<Rightarrow> Some (True, m\<lparr>um_pending := map_emplace cid c (um_pending m)\<rparr>)
     | Some US_SESSION_OPENED \<Rightarrow>
         let m1 = um_call (UC_open_connection (pc_upstream_id c) cid (pc_addr c) (pc_proto c) (pc_app_name c)) m
         in if ua_open_connection a (length (um_calls m))
            then Some (True, m1\<lparr>um_connections := map_emplace cid (pc_upstream_id c) (um_connections m1)\<rparr>)
            else Some (False, m1))"

text \<open>The identifier is the next one of the generator of the client.\<close>

definition um_open_connection ::
    "ChildAnswers \<Rightarrow> u64 \<Rightarrow> 'sa TunnelAddressPair \<Rightarrow> int \<Rightarrow> string \<Rightarrow> 'sa UpstreamMultiplexer \<Rightarrow> (u64 \<times> 'sa UpstreamMultiplexer) option" where
  "um_open_connection a cid addr proto app m =
    (if um_pool m = [] then Some (NON_ID, m)
     else case select_upstream_for_connection a m of (i, m1) \<Rightarrow>
       let conn = (\<lambda>i. \<lparr>pc_upstream_id = i, pc_addr = addr, pc_proto = proto, pc_app_name = app\<rparr>);
           result = map_option (\<lambda>(ok, m'). (if ok then cid else NON_ID, m'))
       in if i \<in> fst ` set (um_pool m1) then result (open_connection_on a cid (conn i) m1)
          else case open_new_upstream a i None m1 of
                 None \<Rightarrow> None
               | Some (True, m2) \<Rightarrow> Some (cid, m2\<lparr>um_pending := map_emplace cid (conn i) (um_pending m2)\<rparr>)
               | Some (False, m2) \<Rightarrow>
                   (case select_existing_upstream a (Some i) True m2 of
                      Some r \<Rightarrow> result (open_connection_on a cid (conn r) m2)
                    | None \<Rightarrow> Some (NON_ID, m2)))"

section \<open>Closing\<close>

definition close_session :: "ChildAnswers \<Rightarrow> 'sa UpstreamMultiplexer \<Rightarrow> 'sa UpstreamMultiplexer" where
  "close_session a m =
    (let m1 = fold (\<lambda>(i, _). um_call (UC_close_session i)) (um_pool m) m;
         m2 = m1\<lparr>um_pool := [], um_connections := [], um_pending := []\<rparr>;
         m3 = fold (\<lambda>(cid, _). um_raise (um_error cid (ua_econnreset a) ''Session closed'')) (um_pending m) m2
     in m3\<lparr>um_pending_error := None\<rparr>)"

definition refuse_pending :: "ChildAnswers \<Rightarrow> string \<Rightarrow> int \<Rightarrow> 'sa UpstreamMultiplexer \<Rightarrow> 'sa UpstreamMultiplexer" where
  "refuse_pending a reason i m =
    (fold (\<lambda>(cid, _). um_raise (um_error cid (ua_econnrefused a) reason))
       (filter (\<lambda>(_, c). pc_upstream_id c = i) (um_pending m)) m)
      \<lparr>um_pending := filter (\<lambda>(_, c). pc_upstream_id c \<noteq> i) (um_pending m)\<rparr>"

definition um_close_upstream :: "ChildAnswers \<Rightarrow> int \<Rightarrow> 'sa UpstreamMultiplexer \<Rightarrow> 'sa UpstreamMultiplexer" where
  "um_close_upstream a i m =
    (if i \<notin> fst ` set (um_pool m) then m
     else let m1 = m\<lparr>um_connections := filter (\<lambda>(_, u). u \<noteq> i) (um_connections m)\<rparr>;
              m2 = refuse_pending a ''Upstream closed'' i m1;
              m3 = m2\<lparr>um_pool := map_erase i (um_pool m2)\<rparr>
          in if um_pool m3 \<noteq> [] then m3
             else let m4 = m3\<lparr>um_session_open := False\<rparr>
                  in case um_pending_error m4 of
                       Some err \<Rightarrow> um_raise (SERVER_EVENT_ERROR \<lparr>se_id = NON_ID, se_error = err\<rparr>) (m4\<lparr>um_pending_error := None\<rparr>)
                     | None \<Rightarrow> um_raise SERVER_EVENT_SESSION_CLOSED m4)"

text \<open>A closure that was given to the event loop.\<close>

definition um_run_task :: "ChildAnswers \<Rightarrow> int list \<Rightarrow> 'sa UpstreamMultiplexer \<Rightarrow> 'sa UpstreamMultiplexer" where
  "um_run_task a ids m = fold (um_close_upstream a) ids m"

section \<open>The events of the children\<close>

definition um_is_fatal_error :: "VpnError \<Rightarrow> bool" where
  "um_is_fatal_error e \<longleftrightarrow> code e = VPN_EC_AUTH_REQUIRED \<or> code e = VPN_EC_CERTIFICATE_VERIFICATION_FAILED"

definition proceed_pending_connection ::
    "ChildAnswers \<Rightarrow> u64 \<Rightarrow> 'sa PendingConnection \<Rightarrow> 'sa UpstreamMultiplexer \<Rightarrow> 'sa UpstreamMultiplexer option" where
  "proceed_pending_connection a cid c m =
    (case open_connection_on a cid c m of
       None \<Rightarrow> None
     | Some (True, m1) \<Rightarrow> Some m1
     | Some (False, m1) \<Rightarrow>
         (case um_pool m1 of
            [] \<Rightarrow> None
          | (fallback, _) # _ \<Rightarrow>
              (case open_connection_on a cid (c\<lparr>pc_upstream_id := fallback\<rparr>) m1 of
                 None \<Rightarrow> None
               | Some (True, m2) \<Rightarrow> Some m2
               | Some (False, m2) \<Rightarrow> Some (um_raise (um_error cid (ua_econnrefused a) ''Failed to connect'') m2))))"

fun proceed_all :: "ChildAnswers \<Rightarrow> (u64 \<times> 'sa PendingConnection) list \<Rightarrow> 'sa UpstreamMultiplexer \<Rightarrow> 'sa UpstreamMultiplexer option" where
  "proceed_all a [] m = Some m"
| "proceed_all a ((cid, c) # rest) m =
    (case proceed_pending_connection a cid c m of
       None \<Rightarrow> None
     | Some m1 \<Rightarrow> proceed_all a rest (m1\<lparr>um_pending := map_erase cid (um_pending m1)\<rparr>))"

definition session_opened :: "ChildAnswers \<Rightarrow> int \<Rightarrow> 'sa UpstreamMultiplexer \<Rightarrow> 'sa UpstreamMultiplexer option" where
  "session_opened a i m =
    (let m1 = (if um_session_open m then m else um_raise SERVER_EVENT_SESSION_OPENED (m\<lparr>um_session_open := True\<rparr>));
         m2 = m1\<lparr>um_pool := map (\<lambda>(k, st). (k, if k = i then US_SESSION_OPENED else st)) (um_pool m1)\<rparr>
     in proceed_all a (filter (\<lambda>(_, c). pc_upstream_id c = i) (um_pending m2)) m2)"

definition child_error :: "int \<Rightarrow> ServerError \<Rightarrow> 'sa UpstreamMultiplexer \<Rightarrow> 'sa UpstreamMultiplexer" where
  "child_error i e m =
    (if se_id e \<noteq> NON_ID
     then um_raise (SERVER_EVENT_ERROR e) (m\<lparr>um_connections := map_erase (se_id e) (um_connections m)\<rparr>)
     else if um_is_fatal_error (se_error e)
     then let m1 = (if code (se_error e) \<noteq> 0 then m\<lparr>um_pending_error := Some (se_error e)\<rparr> else m);
              m2 = fold (\<lambda>(k, _). um_call (UC_close_session k)) (um_pool m1) m1
          in m2\<lparr>um_tasks := um_tasks m2 @ [map fst (um_pool m2)]\<rparr>
     else let m1 = um_call (UC_close_session i) m in m1\<lparr>um_tasks := um_tasks m1 @ [[i]]\<rparr>)"

definition child_upstream_handler ::
    "ChildAnswers \<Rightarrow> int \<Rightarrow> 'sa ServerEvent \<Rightarrow> 'sa UpstreamMultiplexer \<Rightarrow> 'sa UpstreamMultiplexer option" where
  "child_upstream_handler a i what m =
    (if i \<notin> fst ` set (um_pool m) then None
     else case what of
            SERVER_EVENT_SESSION_OPENED \<Rightarrow> session_opened a i m
          | SERVER_EVENT_SESSION_CLOSED \<Rightarrow>
              let m1 = refuse_pending a ''Session closed'' i m in Some (m1\<lparr>um_tasks := um_tasks m1 @ [[i]]\<rparr>)
          | SERVER_EVENT_CONNECTION_CLOSED cid \<Rightarrow>
              Some (um_raise what (m\<lparr>um_connections := map_erase cid (um_connections m)\<rparr>))
          | SERVER_EVENT_ERROR e \<Rightarrow> Some (child_error i e m)
          | _ \<Rightarrow> Some (um_raise what m))"

section \<open>The other operations\<close>

definition get_upstream_by_conn :: "u64 \<Rightarrow> 'sa UpstreamMultiplexer \<Rightarrow> int option" where
  "get_upstream_by_conn cid m =
    (case map_of (um_connections m) cid of
       None \<Rightarrow> None
     | Some i \<Rightarrow> if i \<in> fst ` set (um_pool m) then Some i else None)"

definition call_by_conn :: "(int \<Rightarrow> 'sa ChildCall) \<Rightarrow> u64 \<Rightarrow> 'sa UpstreamMultiplexer \<Rightarrow> 'sa UpstreamMultiplexer" where
  "call_by_conn f cid m = (case get_upstream_by_conn cid m of None \<Rightarrow> m | Some i \<Rightarrow> um_call (f i) m)"

definition um_close_connection :: "u64 \<Rightarrow> bool \<Rightarrow> bool \<Rightarrow> 'sa UpstreamMultiplexer \<Rightarrow> 'sa UpstreamMultiplexer" where
  "um_close_connection cid graceful async m = call_by_conn (\<lambda>i. UC_close_connection i cid graceful async) cid m"

definition um_send :: "ChildAnswers \<Rightarrow> u64 \<Rightarrow> bytes \<Rightarrow> 'sa UpstreamMultiplexer \<Rightarrow> int \<times> 'sa UpstreamMultiplexer" where
  "um_send a cid data m =
    (if get_upstream_by_conn cid m = None then -1 else ua_send a, call_by_conn (\<lambda>i. UC_send i cid data) cid m)"

definition um_consume :: "u64 \<Rightarrow> nat \<Rightarrow> 'sa UpstreamMultiplexer \<Rightarrow> 'sa UpstreamMultiplexer" where
  "um_consume cid len m = call_by_conn (\<lambda>i. UC_consume i cid len) cid m"

definition available_to_send :: "ChildAnswers \<Rightarrow> u64 \<Rightarrow> 'sa UpstreamMultiplexer \<Rightarrow> nat \<times> 'sa UpstreamMultiplexer" where
  "available_to_send a cid m =
    (if get_upstream_by_conn cid m = None then 0 else ua_available a, call_by_conn (\<lambda>i. UC_available_to_send i cid) cid m)"

definition update_flow_control :: "u64 \<Rightarrow> TcpFlowCtrlInfo \<Rightarrow> 'sa UpstreamMultiplexer \<Rightarrow> 'sa UpstreamMultiplexer" where
  "update_flow_control cid info m = call_by_conn (\<lambda>i. UC_update_flow_control i cid info) cid m"

definition opened_children :: "'sa UpstreamMultiplexer \<Rightarrow> int list" where
  "opened_children m = map fst (filter (\<lambda>(_, st). st = US_SESSION_OPENED) (um_pool m))"

definition cancel_health_check :: "'sa UpstreamMultiplexer \<Rightarrow> 'sa UpstreamMultiplexer" where
  "cancel_health_check m = fold (\<lambda>(i, _). um_call (UC_cancel_health_check i)) (um_pool m) m"

definition do_health_check :: "'sa UpstreamMultiplexer \<Rightarrow> 'sa UpstreamMultiplexer" where
  "do_health_check m =
    (let m1 = cancel_health_check m; m2 = fold (\<lambda>i. um_call (UC_do_health_check i False)) (opened_children m1) m1
     in if opened_children m1 = []
        then um_raise (SERVER_EVENT_HEALTH_CHECK_ERROR (mk_error VPN_EC_ERROR ''No open upstream sessions for health check'')) m2
        else m2)"

definition um_on_icmp_request :: "'sa IcmpEchoRequest \<Rightarrow> 'sa UpstreamMultiplexer \<Rightarrow> 'sa UpstreamMultiplexer option" where
  "um_on_icmp_request rq m = (case opened_children m of [] \<Rightarrow> None | i # _ \<Rightarrow> Some (um_call (UC_on_icmp_request i rq) m))"

definition um_handle_sleep :: "'sa UpstreamMultiplexer \<Rightarrow> 'sa UpstreamMultiplexer" where
  "um_handle_sleep m = fold (\<lambda>(i, _). um_call (UC_handle_sleep i)) (um_pool m) m"

definition um_handle_wake :: "'sa UpstreamMultiplexer \<Rightarrow> 'sa UpstreamMultiplexer" where
  "um_handle_wake m = fold (\<lambda>(i, _). um_call (UC_handle_wake i)) (um_pool m) m"

definition um_kex_group_nid :: "ChildAnswers \<Rightarrow> 'sa UpstreamMultiplexer \<Rightarrow> int" where
  "um_kex_group_nid a m = (case opened_children m of [] \<Rightarrow> 0 | i # _ \<Rightarrow> ua_kex_group_nid a i)"

definition um_connection_stats ::
    "(int \<Rightarrow> u32 \<times> 'd :: {linorder, zero}) \<Rightarrow> 'sa UpstreamMultiplexer \<Rightarrow> u32 \<times> 'd" where
  "um_connection_stats stats m =
    fold (\<lambda>i s. (max (fst s) (fst (stats i)), max (snd s) (snd (stats i)))) (opened_children m) (0, 0)"

end
