(* ===== verification/Upstream_Mux_Properties.thy ===== *)
theory Upstream_Mux_Properties
  imports Upstream_Multiplexer
begin

text \<open>
  What the multiplexer of upstream sessions keeps: its tables stay consistent, no more children are open than configured, its owner sees
  sessions begin and end in turn, and no assertion fails as long as it is driven as the interface says, with the
  exceptions shown at the end.
\<close>

section \<open>Runs\<close>

text \<open>
  The owner opens a session when there is none and opens connections under identifiers that were not used before; children that
  exist raise events, and the event loop runs the deferred closures in order.
\<close>

definition um_ids :: "'sa UpstreamMultiplexer \<Rightarrow> u64 set" where
  "um_ids m = fst ` set (um_connections m) \<union> fst ` set (um_pending m)"

inductive um_step :: "'sa UpstreamMultiplexer \<Rightarrow> 'sa UpstreamMultiplexer \<Rightarrow> bool" where
  session: "um_pool m = [] \<Longrightarrow> open_session a timeout m = Some (ok, m') \<Longrightarrow> um_step m m'"
| connection: "cid \<notin> um_ids m \<Longrightarrow> cid \<noteq> NON_ID \<Longrightarrow> um_open_connection a cid addr proto app m = Some (r, m') \<Longrightarrow> um_step m m'"
| close: "um_step m (close_session a m)"
| event: "child_upstream_handler a i what m = Some m' \<Longrightarrow> um_step m m'"
| task: "um_tasks m = ids # rest \<Longrightarrow> um_step m (um_run_task a ids (m\<lparr>um_tasks := rest\<rparr>))"
| by_conn: "um_step m (call_by_conn f cid m)"
| check: "um_step m (do_health_check m)"
| cancel: "um_step m (cancel_health_check m)"
| icmp: "um_on_icmp_request rq m = Some m' \<Longrightarrow> um_step m m'"
| sleep: "um_step m (um_handle_sleep m)"
| wake: "um_step m (um_handle_wake m)"

inductive um_reachable :: "'sa UpstreamMultiplexer \<Rightarrow> bool" where
  start: "um_reachable (um_new n k)"
| next_step: "um_reachable m \<Longrightarrow> um_step m m' \<Longrightarrow> um_reachable m'"

section \<open>Well-formed states\<close>

definition pool_ok :: "'sa UpstreamMultiplexer \<Rightarrow> bool" where
  "pool_ok m \<longleftrightarrow> 0 < um_max_upstreams_num m \<and> length (um_pool m) \<le> um_max_upstreams_num m \<and> distinct (map fst (um_pool m))
     \<and> (\<forall>i\<in>fst ` set (um_pool m). i < um_next_upstream_id m)"

definition conns_ok :: "'sa UpstreamMultiplexer \<Rightarrow> bool" where
  "conns_ok m \<longleftrightarrow> distinct (map fst (um_connections m)) \<and> distinct (map fst (um_pending m))
     \<and> fst ` set (um_connections m) \<inter> fst ` set (um_pending m) = {} \<and> NON_ID \<notin> fst ` set (um_pending m)
     \<and> (\<forall>(c, i)\<in>set (um_connections m). map_of (um_pool m) i = Some US_SESSION_OPENED)"

text \<open>Connections wait for children that are being opened, except those of the child that has just been opened.\<close>

definition waiting_ok :: "int option \<Rightarrow> 'sa UpstreamMultiplexer \<Rightarrow> bool" where
  "waiting_ok x m \<longleftrightarrow>
    (\<forall>(c, p)\<in>set (um_pending m). map_of (um_pool m) (pc_upstream_id p) = Some US_OPENING_SESSION \<or> Some (pc_upstream_id p) = x)"

definition um_ok :: "'sa UpstreamMultiplexer \<Rightarrow> bool" where
  "um_ok m \<longleftrightarrow> pool_ok m \<and> conns_ok m \<and> waiting_ok None m"

lemmas um_parts = pool_ok_def conns_ok_def waiting_ok_def

section \<open>Sessions seen by the owner\<close>

text \<open>The state of the session after some events, if every beginning follows an end.\<close>

fun session_after :: "bool \<Rightarrow> 'sa ServerEvent list \<Rightarrow> bool option" where
  "session_after b [] = Some b"
| "session_after b (SERVER_EVENT_SESSION_OPENED # es) = (if b then None else session_after True es)"
| "session_after b (SERVER_EVENT_SESSION_CLOSED # es) = session_after False es"
| "session_after b (SERVER_EVENT_ERROR e # es) = session_after (if se_id e = NON_ID then False else b) es"
| "session_after b (e # es) = session_after b es"

definition tells :: "'sa UpstreamMultiplexer \<Rightarrow> 'sa UpstreamMultiplexer \<Rightarrow> bool" where
  "tells m m' \<longleftrightarrow> (\<exists>es. um_events m' = um_events m @ es \<and> session_after (um_session_open m) es = Some (um_session_open m'))"

lemma session_after_append:
  "session_after b (es @ fs) = (case session_after b es of None \<Rightarrow> None | Some c \<Rightarrow> session_after c fs)"
  by (induction b es rule: session_after.induct) auto

lemma tells_refl: "um_events m' = um_events m \<Longrightarrow> um_session_open m' = um_session_open m \<Longrightarrow> tells m m'"
  by (simp add: tells_def)

lemma tells_trans: "tells m m1 \<Longrightarrow> tells m1 m2 \<Longrightarrow> tells m m2"
  unfolding tells_def by (auto simp: session_after_append)

lemma session_after_errors: "NON_ID \<notin> set ids \<Longrightarrow> session_after b (map (\<lambda>i. um_error i c t) ids) = Some b"
  by (induction ids) (auto simp: um_error_def)

section \<open>Basic facts\<close>

lemma um_record [simp]:
  "um_connections (um_raise e m) = um_connections m" "um_pool (um_raise e m) = um_pool m" "um_pending (um_raise e m) = um_pending m"
  "um_session_open (um_raise e m) = um_session_open m" "um_events (um_raise e m) = um_events m @ [e]"
  "um_max_upstreams_num (um_raise e m) = um_max_upstreams_num m" "um_next_upstream_id (um_raise e m) = um_next_upstream_id m"
  "um_pending_error (um_raise e m) = um_pending_error m" "um_calls (um_raise e m) = um_calls m" "um_tasks (um_raise e m) = um_tasks m"
  "um_connections (um_call k m) = um_connections m" "um_pool (um_call k m) = um_pool m" "um_pending (um_call k m) = um_pending m"
  "um_session_open (um_call k m) = um_session_open m" "um_events (um_call k m) = um_events m"
  "um_max_upstreams_num (um_call k m) = um_max_upstreams_num m" "um_next_upstream_id (um_call k m) = um_next_upstream_id m"
  "um_pending_error (um_call k m) = um_pending_error m" "um_calls (um_call k m) = um_calls m @ [k]" "um_tasks (um_call k m) = um_tasks m"
  by (simp_all add: um_raise_def um_call_def)

lemma fold_um_call: "fold (\<lambda>x. um_call (f x)) xs m = m\<lparr>um_calls := um_calls m @ map f xs\<rparr>"
  by (induction xs arbitrary: m) (simp_all add: um_call_def)

lemma fold_um_call_pairs: "fold (\<lambda>(i, _). um_call (f i)) xs m = m\<lparr>um_calls := um_calls m @ map (\<lambda>x. f (fst x)) xs\<rparr>"
  by (induction xs arbitrary: m) (auto simp: um_call_def)

lemma fold_um_raise: "fold (\<lambda>(i, _). um_raise (f i)) xs m = m\<lparr>um_events := um_events m @ map (\<lambda>x. f (fst x)) xs\<rparr>"
  by (induction xs arbitrary: m) (auto simp: um_raise_def)

lemma um_ok_cong:
  "um_connections m' = um_connections m \<Longrightarrow> um_pool m' = um_pool m \<Longrightarrow> um_pending m' = um_pending m \<Longrightarrow>
   um_max_upstreams_num m' = um_max_upstreams_num m \<Longrightarrow> um_next_upstream_id m' = um_next_upstream_id m \<Longrightarrow> um_ok m' = um_ok m"
  by (simp add: um_ok_def um_parts)

lemma map_of_mark:
  "map_of (map (\<lambda>(k, st). (k, if k = i then US_SESSION_OPENED else st)) p) k
   = map_option (\<lambda>st. if k = i then US_SESSION_OPENED else st) (map_of p k)"
  by (induction p) auto

lemma map_of_erase: "map_of (map_erase i p) k = (if k = i then None else map_of p k)"
  by (induction p) (auto simp: map_erase_def)

lemma in_pool_iff: "i \<in> fst ` set p \<longleftrightarrow> map_of p i \<noteq> None"
  by (metis dom_map_of_conv_image_fst domIff)

lemma keys_emplace: "fst ` set (map_emplace k v al) = insert k (fst ` set al)"
  by (auto simp: map_emplace_def)

lemma distinct_emplace: "distinct (map fst al) \<Longrightarrow> distinct (map fst (map_emplace k v al))"
  by (auto simp: map_emplace_def)

lemma emplace_new: "k \<notin> fst ` set al \<Longrightarrow> map_emplace k v al = al @ [(k, v)]"
  by (simp add: map_emplace_def)

lemma distinct_filter_keys: "distinct (map fst al) \<Longrightarrow> distinct (map fst (filter P al))"
  by (induction al) auto

lemma distinct_erase: "distinct (map fst al) \<Longrightarrow> distinct (map fst (map_erase k al))"
  by (simp add: map_erase_def distinct_filter_keys)

section \<open>Choosing a child\<close>

lemma least_loaded_in:
  "least_loaded a ig best p = Some i \<Longrightarrow> best = Some i \<or> i \<in> fst ` set p"
  by (induction a ig best p rule: least_loaded.induct) (force split: if_splits option.splits)+

lemma least_loaded_some: "p \<noteq> [] \<or> best \<noteq> None \<Longrightarrow> least_loaded a None best p \<noteq> None"
  by (induction a "None :: int option" best p rule: least_loaded.induct) (auto split: option.splits)

lemma find_in_set: "List.find P xs = Some x \<Longrightarrow> x \<in> set xs"
  by (auto simp: find_Some_iff)

lemma select_existing_in:
  assumes "select_existing_upstream a ig u m = Some i"
  shows "i \<in> fst ` set (um_pool m)"
proof (cases "List.find (\<lambda>(i, _). ig \<noteq> Some i
    \<and> connections_num_by_upstream a m i < NEW_UPSTREAM_CONNECTIONS_NUM_THRESHOLD) (um_pool m)")
  case None
  then have "least_loaded a ig None (um_pool m) = Some i"
    using assms by (simp add: select_existing_upstream_def split: if_splits)
  then show ?thesis using least_loaded_in by fastforce
next
  case (Some x)
  then have "fst x = i" using assms by (simp add: select_existing_upstream_def split: prod.splits)
  then show ?thesis using find_in_set [OF Some] by auto
qed

lemma select_existing_none:
  assumes "select_existing_upstream a None False m = None" "0 < um_max_upstreams_num m"
  shows "length (um_pool m) < um_max_upstreams_num m"
proof (rule ccontr)
  assume "\<not> length (um_pool m) < um_max_upstreams_num m"
  then have "um_pool m \<noteq> []" "um_max_upstreams_num m \<le> length (um_pool m)" using assms(2) by auto
  then show False using assms(1) least_loaded_some [of "um_pool m" None a]
    by (auto simp: select_existing_upstream_def split: option.splits)
qed

text \<open>The child chosen for a connection: one of the pool, or a new one while the limit is not reached.\<close>

lemma select_cases:
  assumes "pool_ok m" "select_upstream_for_connection a m = (i, m1)"
  shows "i \<in> fst ` set (um_pool m) \<and> m1 = m
    \<or> i \<notin> fst ` set (um_pool m) \<and> length (um_pool m) < um_max_upstreams_num m \<and> i = um_next_upstream_id m
      \<and> m1 = m\<lparr>um_next_upstream_id := um_next_upstream_id m + 1\<rparr>"
proof (cases "select_existing_upstream a None False m")
  case None
  have "um_next_upstream_id m \<notin> fst ` set (um_pool m)" using assms(1) by (auto simp: pool_ok_def)
  moreover have "length (um_pool m) < um_max_upstreams_num m"
    using select_existing_none [OF None] assms(1) by (simp add: pool_ok_def)
  ultimately show ?thesis using None assms(2) by (auto simp: select_upstream_for_connection_def)
next
  case (Some k)
  then show ?thesis using assms(2) select_existing_in [OF Some] by (simp add: select_upstream_for_connection_def)
qed

section \<open>Opening\<close>

text \<open>What an attempt to open a connection on a child changes.\<close>

definition conn_added ::
    "u64 \<Rightarrow> 'sa PendingConnection \<Rightarrow> bool \<Rightarrow> 'sa UpstreamMultiplexer \<Rightarrow> 'sa UpstreamMultiplexer \<Rightarrow> bool" where
  "conn_added cid c ok m m' \<longleftrightarrow> um_events m' = um_events m \<and> um_session_open m' = um_session_open m \<and> um_pool m' = um_pool m
    \<and> um_max_upstreams_num m' = um_max_upstreams_num m \<and> um_next_upstream_id m' = um_next_upstream_id m
    \<and> (case map_of (um_pool m) (pc_upstream_id c) of
         Some US_OPENING_SESSION \<Rightarrow>
           ok \<and> um_pending m' = map_emplace cid c (um_pending m) \<and> um_connections m' = um_connections m
       | Some US_SESSION_OPENED \<Rightarrow> um_pending m' = um_pending m
           \<and> um_connections m' = (if ok then map_emplace cid (pc_upstream_id c) (um_connections m) else um_connections m)
       | None \<Rightarrow> False)"

lemma open_on_spec:
  assumes "pc_upstream_id c \<in> fst ` set (um_pool m)"
  shows "\<exists>ok m'. open_connection_on a cid c m = Some (ok, m') \<and> conn_added cid c ok m m'"
proof -
  obtain st where st: "map_of (um_pool m) (pc_upstream_id c) = Some st"
    using assms in_pool_iff [of "pc_upstream_id c" "um_pool m"] by blast
  then show ?thesis
    by (cases st; cases "ua_open_connection a (length (um_calls m))")
      (simp_all add: open_connection_on_def conn_added_def Let_def, blast+)
qed

lemma conn_added_tells: "conn_added cid c ok m m' \<Longrightarrow> tells m m'"
  by (rule tells_refl) (simp_all add: conn_added_def)

lemma conn_added_ok:
  assumes "conn_added cid c ok m m'" "um_ok m" "cid \<notin> um_ids m" "cid \<noteq> NON_ID"
  shows "um_ok m'"
proof -
  have new: "cid \<notin> fst ` set (um_connections m)" "cid \<notin> fst ` set (um_pending m)" using assms(3) by (auto simp: um_ids_def)
  have same: "um_pool m' = um_pool m" "pool_ok m'" using assms(1,2) by (simp_all add: conn_added_def um_ok_def pool_ok_def)
  obtain st where st: "map_of (um_pool m) (pc_upstream_id c) = Some st"
    using assms(1) by (auto simp: conn_added_def split: option.splits)
  have "conns_ok m' \<and> waiting_ok None m'"
  proof (cases st)
    case US_OPENING_SESSION
    then have "um_pending m' = um_pending m @ [(cid, c)]" "um_connections m' = um_connections m"
      using assms(1) st new by (simp_all add: conn_added_def emplace_new)
    then show ?thesis using assms(2,4) new st US_OPENING_SESSION same(1)
      by (auto simp: um_ok_def conns_ok_def waiting_ok_def)
  next
    case US_SESSION_OPENED
    then have "um_pending m' = um_pending m"
        "um_connections m' = (if ok then um_connections m @ [(cid, pc_upstream_id c)] else um_connections m)"
      using assms(1) st new by (simp_all add: conn_added_def emplace_new)
    then show ?thesis using assms(2) new st US_SESSION_OPENED same(1)
      by (cases ok) (auto simp: um_ok_def conns_ok_def waiting_ok_def)
  qed
  then show ?thesis using same(2) by (simp add: um_ok_def)
qed

lemma open_new_spec:
  assumes "i \<notin> fst ` set (um_pool m)"
  shows "\<exists>ok m'. open_new_upstream a i t m = Some (ok, m') \<and> um_events m' = um_events m \<and> um_session_open m' = um_session_open m
    \<and> um_connections m' = um_connections m \<and> um_pending m' = um_pending m \<and> um_max_upstreams_num m' = um_max_upstreams_num m
    \<and> um_next_upstream_id m' = um_next_upstream_id m
    \<and> um_pool m' = (if ok then um_pool m @ [(i, US_OPENING_SESSION)] else um_pool m)"
  using assms by (auto simp: open_new_upstream_def Let_def)

lemma add_child_ok:
  assumes "um_ok m" "i \<notin> fst ` set (um_pool m)" "length (um_pool m) < um_max_upstreams_num m" "i < n" "um_next_upstream_id m \<le> n"
    "um_pool m' = um_pool m @ [(i, US_OPENING_SESSION)]" "um_connections m' = um_connections m" "um_pending m' = um_pending m"
    "um_max_upstreams_num m' = um_max_upstreams_num m" "um_next_upstream_id m' = n"
  shows "um_ok m'"
proof -
  have none: "map_of (um_pool m) i = None" using assms(2) in_pool_iff [of i "um_pool m"] by blast
  then have mo: "map_of (um_pool m') k = (if k = i then Some US_OPENING_SESSION else map_of (um_pool m) k)" for k
    using assms(6) by (simp add: map_add_def split: option.split)
  have "pool_ok m'" using assms by (auto simp: um_ok_def pool_ok_def)
  moreover have "conns_ok m'" using assms(1,7,8) none unfolding um_ok_def conns_ok_def mo by auto
  moreover have "waiting_ok None m'" using assms(1,8) unfolding um_ok_def waiting_ok_def mo by auto
  ultimately show ?thesis by (simp add: um_ok_def)
qed

section \<open>Operations of the owner\<close>

lemma open_session_ok:
  assumes "um_ok m" "um_pool m = []"
  shows "\<exists>ok m'. open_session a t m = Some (ok, m') \<and> um_ok m' \<and> tells m m'"
proof -
  obtain i m1 where sel: "select_upstream_for_connection a m = (i, m1)" by (cases "select_upstream_for_connection a m")
  have pool: "pool_ok m" using assms(1) by (simp add: um_ok_def)
  have m1: "i = um_next_upstream_id m" "m1 = m\<lparr>um_next_upstream_id := um_next_upstream_id m + 1\<rparr>"
    "length (um_pool m) < um_max_upstreams_num m" using select_cases [OF pool sel] assms(2) by auto
  have "um_ok m1" using assms m1(2) by (auto simp: um_ok_def um_parts)
  obtain ok m' where m': "open_new_upstream a i t m1 = Some (ok, m')" "um_events m' = um_events m1" "um_session_open m' = um_session_open m1"
     "um_connections m' = um_connections m1" "um_pending m' = um_pending m1" "um_max_upstreams_num m' = um_max_upstreams_num m1"
     "um_next_upstream_id m' = um_next_upstream_id m1"
     "um_pool m' = (if ok then um_pool m1 @ [(i, US_OPENING_SESSION)] else um_pool m1)"
    using open_new_spec [of i m1 a t] assms(2) m1(2) by auto
  have "um_ok m'"
  proof (cases ok)
    case True
    then show ?thesis using m1 assms m'
      by (intro add_child_ok [OF \<open>um_ok m1\<close>, of i "um_next_upstream_id m + 1"]) simp_all
  next
    case False
    then show ?thesis using \<open>um_ok m1\<close> um_ok_cong [of m' m1] m' by simp
  qed
  moreover have "tells m m'" using m' m1(2) by (intro tells_refl) simp_all
  ultimately show ?thesis using assms(2) sel m'(1) by (simp add: open_session_def)
qed

lemma open_connection_new_child:
  assumes "um_ok m" "cid \<notin> um_ids m" "cid \<noteq> NON_ID" "um_pool m \<noteq> []"
    "select_upstream_for_connection a m = (i, m1)" "i \<notin> fst ` set (um_pool m)"
  shows "\<exists>r m'. um_open_connection a cid addr proto app m = Some (r, m') \<and> um_ok m' \<and> tells m m'"
proof -
  define conn where "conn i = \<lparr>pc_upstream_id = i, pc_addr = addr, pc_proto = proto, pc_app_name = app\<rparr>" for i
  have pool: "pool_ok m" using assms(1) by (simp add: um_ok_def)
  have m1: "i = um_next_upstream_id m" "m1 = m\<lparr>um_next_upstream_id := um_next_upstream_id m + 1\<rparr>"
    "length (um_pool m) < um_max_upstreams_num m" using select_cases [OF pool assms(5)] assms(6) by blast+
  have ok1: "um_ok m1" using assms(1) m1(2) by (auto simp: um_ok_def um_parts)
  obtain ok m2 where m2: "open_new_upstream a i None m1 = Some (ok, m2)" "um_events m2 = um_events m1" "um_session_open m2 = um_session_open m1"
    "um_connections m2 = um_connections m1" "um_pending m2 = um_pending m1" "um_max_upstreams_num m2 = um_max_upstreams_num m1"
    "um_next_upstream_id m2 = um_next_upstream_id m1"
    "um_pool m2 = (if ok then um_pool m1 @ [(i, US_OPENING_SESSION)] else um_pool m1)"
    using open_new_spec [of i m1 a None] assms(6) m1(2) by auto
  have fresh: "cid \<notin> um_ids m2" using assms(2) m2 m1(2) by (simp add: um_ids_def)
  have told: "tells m m2" using m2 m1(2) by (intro tells_refl) simp_all
  show ?thesis
  proof (cases ok)
    case True
    have ok2: "um_ok m2" using True m1 assms(6) m2
      by (intro add_child_ok [OF ok1, of i "um_next_upstream_id m + 1"]) simp_all
    define m3 where "m3 = m2\<lparr>um_pending := map_emplace cid (conn i) (um_pending m2)\<rparr>"
    have "map_of (um_pool m2) i = Some US_OPENING_SESSION"
      using True m2(8) m1(2) assms(6) in_pool_iff [of i "um_pool m"] by (simp add: map_add_def)
    then have "conn_added cid (conn i) True m2 m3" by (simp add: conn_added_def conn_def m3_def)
    then have "um_ok m3" "tells m2 m3" using conn_added_ok [OF _ ok2 fresh assms(3)] conn_added_tells by blast+
    then show ?thesis using assms(4-6) m1(2) m2(1) True tells_trans [OF told]
      by (simp add: um_open_connection_def Let_def conn_def [symmetric] m3_def)
  next
    case no: False
    have ok2: "um_ok m2" using um_ok_cong [of m2 m1] ok1 m2 no by simp
    show ?thesis
    proof (cases "select_existing_upstream a (Some i) True m2")
      case None
      then show ?thesis using assms(4-6) m1(2) m2(1) no ok2 told
        by (simp add: um_open_connection_def Let_def)
    next
      case (Some r)
      obtain ok' m' where m': "open_connection_on a cid (conn r) m2 = Some (ok', m')" "conn_added cid (conn r) ok' m2 m'"
        using open_on_spec [of "conn r" m2 a cid] select_existing_in [OF Some] by (auto simp: conn_def)
      then show ?thesis
        using assms(4-6) m1(2) m2(1) no Some conn_added_ok [OF m'(2) ok2 fresh assms(3)]
          tells_trans [OF told conn_added_tells [OF m'(2)]]
        by (simp add: um_open_connection_def Let_def conn_def [symmetric])
    qed
  qed
qed

lemma open_connection_ok:
  assumes "um_ok m" "cid \<notin> um_ids m" "cid \<noteq> NON_ID"
  shows "\<exists>r m'. um_open_connection a cid addr proto app m = Some (r, m') \<and> um_ok m' \<and> tells m m'"
proof (cases "um_pool m = []")
  case True
  then show ?thesis using assms(1) by (simp add: um_open_connection_def tells_refl)
next
  case nonempty: False
  define conn where "conn i = \<lparr>pc_upstream_id = i, pc_addr = addr, pc_proto = proto, pc_app_name = app\<rparr>" for i
  obtain i m1 where sel: "select_upstream_for_connection a m = (i, m1)" by (cases "select_upstream_for_connection a m")
  have pool: "pool_ok m" using assms(1) by (simp add: um_ok_def)
  show ?thesis
  proof (cases "i \<in> fst ` set (um_pool m)")
    case True
    then have m1: "m1 = m" using select_cases [OF pool sel] by blast
    obtain ok m' where m': "open_connection_on a cid (conn i) m = Some (ok, m')" "conn_added cid (conn i) ok m m'"
      using open_on_spec [of "conn i" m a cid] True by (auto simp: conn_def)
    then show ?thesis using nonempty sel True m1 conn_added_ok [OF m'(2) assms] conn_added_tells [OF m'(2)]
      by (simp add: um_open_connection_def Let_def conn_def [symmetric])
  next
    case False
    then show ?thesis by (rule open_connection_new_child [OF assms nonempty sel])
  qed
qed

lemma close_session_ok:
  assumes "um_ok m"
  shows "um_ok (close_session a m) \<and> tells m (close_session a m)"
proof -
  have "NON_ID \<notin> set (map fst (um_pending m))" using assms by (simp add: um_ok_def conns_ok_def)
  from session_after_errors [OF this]
  have "tells m (close_session a m)"
    by (simp add: close_session_def Let_def fold_um_call_pairs fold_um_raise tells_def comp_def)
  moreover have "um_ok (close_session a m)"
    using assms by (simp add: close_session_def Let_def fold_um_call_pairs fold_um_raise um_ok_def um_parts)
  ultimately show ?thesis by simp
qed

lemma refuse_pending_simps [simp]:
  "um_connections (refuse_pending a r i m) = um_connections m" "um_pool (refuse_pending a r i m) = um_pool m"
  "um_pending (refuse_pending a r i m) = filter (\<lambda>(_, c). pc_upstream_id c \<noteq> i) (um_pending m)"
  "um_max_upstreams_num (refuse_pending a r i m) = um_max_upstreams_num m"
  "um_next_upstream_id (refuse_pending a r i m) = um_next_upstream_id m"
  "um_session_open (refuse_pending a r i m) = um_session_open m" "um_pending_error (refuse_pending a r i m) = um_pending_error m"
  "um_tasks (refuse_pending a r i m) = um_tasks m"
  by (simp_all add: refuse_pending_def fold_um_raise)

lemma refuse_pending_tells: "NON_ID \<notin> fst ` set (um_pending m) \<Longrightarrow> tells m (refuse_pending a r i m)"
proof -
  assume "NON_ID \<notin> fst ` set (um_pending m)"
  then have "NON_ID \<notin> set (map fst (filter (\<lambda>(_, c). pc_upstream_id c = i) (um_pending m)))" by auto
  from session_after_errors [OF this] show ?thesis
    by (simp add: refuse_pending_def fold_um_raise tells_def comp_def)
qed

lemma conns_ok_filter:
  assumes "conns_ok m" "um_connections m' = filter P (um_connections m)" "um_pending m' = filter Q (um_pending m)"
    "\<forall>(c, i)\<in>set (um_connections m'). map_of (um_pool m') i = map_of (um_pool m) i"
  shows "conns_ok m'"
proof -
  have sub: "fst ` set (filter P (um_connections m)) \<subseteq> fst ` set (um_connections m)"
    "fst ` set (filter Q (um_pending m)) \<subseteq> fst ` set (um_pending m)" by auto
  have ok: "fst ` set (um_connections m) \<inter> fst ` set (um_pending m) = {}" "NON_ID \<notin> fst ` set (um_pending m)"
    "\<forall>(c, i)\<in>set (um_connections m). map_of (um_pool m) i = Some US_SESSION_OPENED"
    using assms(1) by (simp_all add: conns_ok_def)
  have "fst ` set (um_connections m') \<inter> fst ` set (um_pending m') = {}" "NON_ID \<notin> fst ` set (um_pending m')"
    unfolding assms(2,3) using sub ok(1,2) by blast+
  moreover have "\<forall>(c, i)\<in>set (um_connections m'). map_of (um_pool m') i = Some US_SESSION_OPENED"
  proof clarify
    fix c i assume x: "(c, i) \<in> set (um_connections m')"
    then have "map_of (um_pool m') i = map_of (um_pool m) i" using assms(4) by blast
    moreover have "(c, i) \<in> set (um_connections m)" using x assms(2) by simp
    ultimately show "map_of (um_pool m') i = Some US_SESSION_OPENED" using ok(3) by auto
  qed
  ultimately show ?thesis using assms(1-3) by (simp add: conns_ok_def distinct_filter_keys)
qed

lemma close_upstream_ok:
  assumes "um_ok m"
  shows "um_ok (um_close_upstream a i m) \<and> tells m (um_close_upstream a i m)"
proof (cases "i \<in> fst ` set (um_pool m)")
  case False
  then show ?thesis using assms by (simp add: um_close_upstream_def tells_refl)
next
  case True
  define m1 where "m1 = m\<lparr>um_connections := filter (\<lambda>(_, u). u \<noteq> i) (um_connections m)\<rparr>"
  define m2 where "m2 = refuse_pending a ''Upstream closed'' i m1"
  define m3 where "m3 = m2\<lparr>um_pool := map_erase i (um_pool m2)\<rparr>"
  have tells: "tells m m3"
  proof -
    have "tells m1 m2" using assms unfolding m2_def by (intro refuse_pending_tells) (simp add: m1_def um_ok_def conns_ok_def)
    moreover have "tells m m1" "tells m2 m3" by (rule tells_refl; simp add: m1_def m3_def)+
    ultimately show ?thesis using tells_trans by blast
  qed
  have pool: "um_pool m3 = filter (\<lambda>(k, _). k \<noteq> i) (um_pool m)" by (simp add: m3_def m2_def m1_def map_erase_def)
  have "pool_ok m3"
    using assms le_trans [OF length_filter_le, of "um_pool m"] unfolding um_ok_def pool_ok_def pool
    by (auto simp: m3_def m2_def m1_def distinct_filter_keys)
  moreover have "conns_ok m3"
    using assms by (intro conns_ok_filter [of m m3 "\<lambda>(_, u). u \<noteq> i" "\<lambda>(_, c). pc_upstream_id c \<noteq> i"])
      (auto simp: um_ok_def m3_def m2_def m1_def map_of_erase)
  moreover have "waiting_ok None m3"
    using assms by (auto simp: um_ok_def waiting_ok_def m3_def m2_def m1_def map_of_erase)
  ultimately have ok3: "um_ok m3" by (simp add: um_ok_def)
  define r where "r = um_close_upstream a i m"
  have r: "r = (if um_pool m3 \<noteq> [] then m3 else case um_pending_error m3 of
      Some err \<Rightarrow> um_raise (SERVER_EVENT_ERROR \<lparr>se_id = NON_ID, se_error = err\<rparr>) (m3\<lparr>um_session_open := False, um_pending_error := None\<rparr>)
    | None \<Rightarrow> um_raise SERVER_EVENT_SESSION_CLOSED (m3\<lparr>um_session_open := False\<rparr>))"
    using True by (simp add: r_def um_close_upstream_def Let_def m3_def m2_def m1_def split: option.split)
  have "um_ok r" using ok3 um_ok_cong [of r m3] by (simp add: r split: option.split)
  moreover have "tells m3 r" by (auto simp: r tells_def split: option.split)
  ultimately show ?thesis using tells_trans [OF tells] by (simp add: r_def)
qed

lemma run_task_ok: "um_ok m \<Longrightarrow> um_ok (um_run_task a ids m) \<and> tells m (um_run_task a ids m)"
proof (induction ids arbitrary: m)
  case Nil
  then show ?case by (simp add: um_run_task_def tells_refl)
next
  case (Cons i ids)
  then show ?case using close_upstream_ok [OF Cons.prems, of a i] Cons.IH [of "um_close_upstream a i m"] tells_trans
    by (auto simp: um_run_task_def)
qed

section \<open>Events of the children\<close>

text \<open>Handing over one waiting connection of the child that was just opened.\<close>

lemma proceed_pending_spec:
  assumes "pool_ok m" "conns_ok m" "(cid, c) \<in> set (um_pending m)" "map_of (um_pool m) (pc_upstream_id c) = Some US_SESSION_OPENED"
  shows "\<exists>m' k. proceed_pending_connection a cid c m = Some m' \<and> um_pool m' = um_pool m \<and> um_pending m' = um_pending m
    \<and> um_max_upstreams_num m' = um_max_upstreams_num m \<and> um_next_upstream_id m' = um_next_upstream_id m \<and> tells m m'
    \<and> um_connections m' = um_connections m @ k \<and> (\<forall>x\<in>set k. fst x = cid \<and> map_of (um_pool m) (snd x) = Some US_SESSION_OPENED) \<and> length k \<le> 1"
proof -
  have key: "cid \<in> fst ` set (um_pending m)" using assms(3) by (rule image_eqI [rotated]) simp
  have "fst ` set (um_connections m) \<inter> fst ` set (um_pending m) = {}" "NON_ID \<notin> fst ` set (um_pending m)"
    using assms(2) by (simp_all add: conns_ok_def)
  then have cid: "cid \<notin> fst ` set (um_connections m)" "cid \<in> fst ` set (um_pending m)" "cid \<noteq> NON_ID"
    using key by blast+
  have stay: "map_emplace cid v (um_pending m) = um_pending m" for v using cid(2) by (simp add: map_emplace_def)
  have inp: "pc_upstream_id c \<in> fst ` set (um_pool m)" using assms(4) in_pool_iff [of "pc_upstream_id c" "um_pool m"] by simp
  obtain ok m1 where m1: "open_connection_on a cid c m = Some (ok, m1)" "conn_added cid c ok m m1" using open_on_spec [OF inp] by blast
  have f1: "um_pool m1 = um_pool m" "um_pending m1 = um_pending m" "um_max_upstreams_num m1 = um_max_upstreams_num m"
    "um_next_upstream_id m1 = um_next_upstream_id m" "um_connections m1 = um_connections m @ (if ok then [(cid, pc_upstream_id c)] else [])"
    using m1(2) assms(4) cid(1) by (simp_all add: conn_added_def emplace_new)
  show ?thesis
  proof (cases ok)
    case True
    then show ?thesis using m1 f1 assms(4) conn_added_tells [OF m1(2)]
      by (intro exI [of _ m1] exI [of _ "[(cid, pc_upstream_id c)]"]) (simp add: proceed_pending_connection_def)
  next
    case False
    obtain fb st rest where pool: "um_pool m = (fb, st) # rest" using inp by (cases "um_pool m") auto
    define c' where "c' = c\<lparr>pc_upstream_id := fb\<rparr>"
    obtain ok2 m2 where m2: "open_connection_on a cid c' m1 = Some (ok2, m2)" "conn_added cid c' ok2 m1 m2"
      using open_on_spec [of c' m1 a cid] pool f1(1) by (auto simp: c'_def)
    define m' where "m' = (if ok2 then m2 else um_raise (um_error cid (ua_econnrefused a) ''Failed to connect'') m2)"
    have res: "proceed_pending_connection a cid c m = Some m'"
      using m1(1) m2(1) False pool f1(1) by (simp add: proceed_pending_connection_def c'_def m'_def)
    have told: "tells m m'"
    proof -
      have "tells m2 m'" using cid(3) by (auto simp: m'_def tells_def um_error_def)
      then show ?thesis using tells_trans conn_added_tells m1(2) m2(2) by blast
    qed
    have st: "map_of (um_pool m1) (pc_upstream_id c') = Some st" "map_of (um_pool m) fb = Some st"
      using pool f1(1) by (simp_all add: c'_def)
    have f2: "um_pool m' = um_pool m" "um_pending m' = um_pending m" "um_max_upstreams_num m' = um_max_upstreams_num m"
      "um_next_upstream_id m' = um_next_upstream_id m"
      using m2(2) f1 False stay st(1) by (cases st; simp add: conn_added_def m'_def)+
    have "um_connections m' = um_connections m @ (if ok2 \<and> st = US_SESSION_OPENED then [(cid, fb)] else [])"
      using m2(2) f1(5) False cid(1) st(1) by (cases st; simp add: conn_added_def m'_def emplace_new c'_def)
    then show ?thesis using f2 res told st(2) by (intro exI [of _ m'] exI) auto
  qed
qed

lemma erase_first:
  assumes "distinct (map fst al)" "filter P al = (k, v) # ps"
  shows "filter P (map_erase k al) = ps"
proof -
  have "distinct (map fst ((k, v) # ps))" using distinct_filter_keys [OF assms(1), of P] unfolding assms(2) .
  then have "map_erase k ps = ps" unfolding map_erase_def by (intro filter_True) force
  moreover have "filter P (map_erase k al) = map_erase k (filter P al)" by (simp add: map_erase_def conj_commute)
  ultimately show ?thesis unfolding assms(2) by (simp add: map_erase_def)
qed

lemma disjoint_move:
  "A' \<subseteq> insert x A \<Longrightarrow> B' \<subseteq> B \<Longrightarrow> x \<notin> B' \<Longrightarrow> A \<inter> B = {} \<Longrightarrow> A' \<inter> B' = {}"
  "x \<in> B \<Longrightarrow> A \<inter> B = {} \<Longrightarrow> x \<notin> A"
  by blast+

lemma hand_over_ok:
  assumes "conns_ok m" "um_pool m' = um_pool m" "um_connections m' = um_connections m @ k" "um_pending m' = map_erase cid (um_pending m)"
    "\<forall>x\<in>set k. fst x = cid \<and> map_of (um_pool m) (snd x) = Some US_SESSION_OPENED" "length k \<le> 1" "cid \<in> fst ` set (um_pending m)"
  shows "conns_ok m'"
proof -
  have disj: "fst ` set (um_connections m) \<inter> fst ` set (um_pending m) = {}" and
    dist: "distinct (map fst (um_connections m))" "distinct (map fst (um_pending m))" and
    non: "NON_ID \<notin> fst ` set (um_pending m)" and
    open_conns: "\<forall>(c, i)\<in>set (um_connections m). map_of (um_pool m) i = Some US_SESSION_OPENED"
    using assms(1) by (simp_all add: conns_ok_def)
  have cid: "cid \<notin> set (map fst (um_connections m))" unfolding set_map by (rule disjoint_move(2) [OF assms(7) disj])
  have k: "k = [] \<or> (\<exists>u. k = [(cid, u)] \<and> map_of (um_pool m) u = Some US_SESSION_OPENED)"
  proof (cases k)
    case (Cons x xs)
    then have "k = [(cid, snd x)]" "map_of (um_pool m) (snd x) = Some US_SESSION_OPENED" using assms(5,6) by (cases x; simp)+
    then show ?thesis by blast
  qed simp
  have pend: "fst ` set (um_pending m') \<subseteq> fst ` set (um_pending m)" unfolding assms(4) map_erase_def by (intro image_mono) simp
  have gone: "cid \<notin> fst ` set (um_pending m')" unfolding assms(4) map_erase_def by auto
  have "distinct (map fst (um_pending m'))" using dist(2) assms(4) by (simp add: distinct_erase)
  moreover have "distinct (map fst (um_connections m'))" using k
    by (elim disjE exE conjE) (use dist(1) cid assms(3) in simp_all)
  moreover have "fst ` set (um_connections m') \<subseteq> insert cid (fst ` set (um_connections m))" using k
    by (elim disjE exE conjE) (use assms(3) in auto)
  then have "fst ` set (um_connections m') \<inter> fst ` set (um_pending m') = {}" by (rule disjoint_move(1) [OF _ pend gone disj])
  moreover have "NON_ID \<notin> fst ` set (um_pending m')" by (rule contra_subsetD [OF pend non])
  moreover have "\<forall>(c, i)\<in>set (um_connections m'). map_of (um_pool m') i = Some US_SESSION_OPENED" using k
    by (elim disjE exE conjE) (use open_conns assms(2,3) in simp_all)
  ultimately show ?thesis by (simp add: conns_ok_def)
qed

lemma proceed_all_ok:
  "pool_ok m \<Longrightarrow> conns_ok m \<Longrightarrow> waiting_ok (Some i) m \<Longrightarrow> map_of (um_pool m) i = Some US_SESSION_OPENED \<Longrightarrow>
   filter (\<lambda>(_, c). pc_upstream_id c = i) (um_pending m) = ps \<Longrightarrow>
   \<exists>m'. proceed_all a ps m = Some m' \<and> um_ok m' \<and> tells m m'"
proof (induction ps arbitrary: m)
  case Nil
  then have "\<forall>(c, p)\<in>set (um_pending m). pc_upstream_id p \<noteq> i" by (auto simp: filter_empty_conv)
  then have "waiting_ok None m" using Nil.prems(3) by (fastforce simp: waiting_ok_def)
  then show ?case using Nil.prems by (simp add: um_ok_def tells_refl)
next
  case (Cons x ps)
  obtain cid c where x: "x = (cid, c)" by (cases x)
  then have "(cid, c) \<in> set (filter (\<lambda>(_, c). pc_upstream_id c = i) (um_pending m))" using Cons.prems(5) by simp
  then have c: "(cid, c) \<in> set (um_pending m)" "pc_upstream_id c = i" by auto
  obtain m1 k where m1: "proceed_pending_connection a cid c m = Some m1" "um_pool m1 = um_pool m" "um_pending m1 = um_pending m"
    "um_max_upstreams_num m1 = um_max_upstreams_num m" "um_next_upstream_id m1 = um_next_upstream_id m" "tells m m1"
    "um_connections m1 = um_connections m @ k" "\<forall>x\<in>set k. fst x = cid \<and> map_of (um_pool m) (snd x) = Some US_SESSION_OPENED"
    "length k \<le> 1"
    using proceed_pending_spec [OF Cons.prems(1,2) c(1)] c(2) Cons.prems(4) by blast
  define m2 where "m2 = m1\<lparr>um_pending := map_erase cid (um_pending m1)\<rparr>"
  have "conns_ok m2"
    using m1 c(1) by (intro hand_over_ok [OF Cons.prems(2)]) (auto simp: m2_def intro: image_eqI [of _ _ "(cid, c)"])
  moreover have "pool_ok m2" using Cons.prems(1) m1 by (simp add: pool_ok_def m2_def)
  moreover have "waiting_ok (Some i) m2" using Cons.prems(3) m1(2,3) by (auto simp: waiting_ok_def m2_def map_erase_def)
  moreover have "filter (\<lambda>(_, c). pc_upstream_id c = i) (um_pending m2) = ps"
    using erase_first [OF _ Cons.prems(5) [unfolded x]] Cons.prems(2) m1(3) by (simp add: m2_def conns_ok_def)
  ultimately obtain m' where "proceed_all a ps m2 = Some m'" "um_ok m'" "tells m2 m'"
    using Cons.IH [of m2] Cons.prems(4) m1(2) by (auto simp: m2_def)
  moreover have "tells m m2" using tells_trans [OF m1(6), of m2] by (simp add: m2_def tells_refl)
  ultimately show ?case using m1(1) x tells_trans by (auto simp: m2_def)
qed

lemma session_opened_ok:
  assumes "um_ok m" "i \<in> fst ` set (um_pool m)"
  shows "\<exists>m'. session_opened a i m = Some m' \<and> um_ok m' \<and> tells m m'"
proof -
  define m1 where "m1 = (if um_session_open m then m else um_raise SERVER_EVENT_SESSION_OPENED (m\<lparr>um_session_open := True\<rparr>))"
  define m2 where "m2 = m1\<lparr>um_pool := map (\<lambda>(k, st). (k, if k = i then US_SESSION_OPENED else st)) (um_pool m1)\<rparr>"
  have f: "um_pool m2 = map (\<lambda>(k, st). (k, if k = i then US_SESSION_OPENED else st)) (um_pool m)"
    "um_connections m2 = um_connections m" "um_pending m2 = um_pending m" "um_max_upstreams_num m2 = um_max_upstreams_num m"
    "um_next_upstream_id m2 = um_next_upstream_id m" by (simp_all add: m1_def m2_def)
  have mo: "map_of (um_pool m2) k = map_option (\<lambda>st. if k = i then US_SESSION_OPENED else st) (map_of (um_pool m) k)" for k
    unfolding f(1) by (rule map_of_mark)
  have keys: "map fst (um_pool m2) = map fst (um_pool m)" unfolding f(1) by (induction "um_pool m") auto
  have "pool_ok m2" using assms(1) keys f(4,5) unfolding um_ok_def pool_ok_def by (metis image_set length_map)
  moreover have "conns_ok m2" using assms(1) unfolding um_ok_def conns_ok_def f(2,3) mo by auto
  moreover have "waiting_ok (Some i) m2" using assms(1) unfolding um_ok_def waiting_ok_def f(3) mo by auto
  moreover have "map_of (um_pool m2) i = Some US_SESSION_OPENED"
    unfolding mo using assms(2) in_pool_iff [of i "um_pool m"] by auto
  ultimately obtain m' where "proceed_all a (filter (\<lambda>(_, c). pc_upstream_id c = i) (um_pending m2)) m2 = Some m'" "um_ok m'" "tells m2 m'"
    using proceed_all_ok by blast
  moreover have "tells m m2" by (auto simp: tells_def m1_def m2_def)
  ultimately show ?thesis using tells_trans unfolding session_opened_def Let_def m1_def [symmetric] m2_def [symmetric] by blast
qed

lemma drop_conns_ok:
  assumes "um_ok m" "um_connections m' = filter P (um_connections m)" "um_pending m' = filter Q (um_pending m)" "um_pool m' = um_pool m"
    "um_max_upstreams_num m' = um_max_upstreams_num m" "um_next_upstream_id m' = um_next_upstream_id m"
  shows "um_ok m'"
proof -
  have "conns_ok m'" using assms by (intro conns_ok_filter [of m m' P Q]) (auto simp: um_ok_def)
  moreover have "pool_ok m'" using assms by (simp add: um_ok_def pool_ok_def)
  moreover have "waiting_ok None m'" using assms by (auto simp: um_ok_def waiting_ok_def)
  ultimately show ?thesis by (simp add: um_ok_def)
qed

lemma child_error_ok:
  assumes "um_ok m"
  shows "um_ok (child_error i e m) \<and> tells m (child_error i e m)"
proof (cases "se_id e = NON_ID")
  case True
  have "um_ok (child_error i e m) = um_ok m"
    by (rule um_ok_cong) (simp_all add: child_error_def True fold_um_call_pairs Let_def)
  moreover have "tells m (child_error i e m)"
    by (rule tells_refl) (simp_all add: child_error_def True fold_um_call_pairs Let_def)
  ultimately show ?thesis using assms by simp
next
  case False
  have "um_ok (child_error i e m)"
    by (rule drop_conns_ok [OF assms, of _ "\<lambda>(k, _). k \<noteq> se_id e" "\<lambda>_. True"]) (simp_all add: child_error_def False map_erase_def)
  then show ?thesis using False by (simp add: child_error_def tells_def)
qed

lemma child_event_ok:
  assumes "um_ok m" "i \<in> fst ` set (um_pool m)"
  shows "\<exists>m'. child_upstream_handler a i what m = Some m' \<and> um_ok m' \<and> tells m m'"
proof -
  have forward: "um_ok (um_raise e m) \<and> tells m (um_raise e m)" if "session_after (um_session_open m) [e] = Some (um_session_open m)" for e
    using assms(1) um_ok_cong [of "um_raise e m" m] that by (simp add: tells_def)
  show ?thesis
  proof (cases what)
    case SERVER_EVENT_SESSION_OPENED
    then show ?thesis using session_opened_ok [OF assms] assms(2) by (simp add: child_upstream_handler_def)
  next
    case SERVER_EVENT_SESSION_CLOSED
    define m1 where "m1 = refuse_pending a ''Session closed'' i m"
    have "um_ok (m1\<lparr>um_tasks := um_tasks m1 @ [[i]]\<rparr>)"
      by (rule drop_conns_ok [OF assms(1), of _ "\<lambda>_. True" "\<lambda>(_, c). pc_upstream_id c \<noteq> i"]) (simp_all add: m1_def)
    moreover have "tells m m1" using assms(1) unfolding m1_def by (intro refuse_pending_tells) (simp add: um_ok_def conns_ok_def)
    then have "tells m (m1\<lparr>um_tasks := um_tasks m1 @ [[i]]\<rparr>)" by (simp add: tells_def)
    ultimately show ?thesis using SERVER_EVENT_SESSION_CLOSED assms(2) by (simp add: child_upstream_handler_def Let_def m1_def)
  next
    case (SERVER_EVENT_CONNECTION_CLOSED cid)
    have "um_ok (um_raise what (m\<lparr>um_connections := map_erase cid (um_connections m)\<rparr>))"
      by (rule drop_conns_ok [OF assms(1), of _ "\<lambda>(k, _). k \<noteq> cid" "\<lambda>_. True"]) (simp_all add: map_erase_def)
    then show ?thesis using SERVER_EVENT_CONNECTION_CLOSED assms(2) by (simp add: child_upstream_handler_def tells_def)
  next
    case (SERVER_EVENT_ERROR e)
    then show ?thesis using child_error_ok [OF assms(1)] assms(2) by (simp add: child_upstream_handler_def)
  qed (use forward assms(2) in \<open>simp_all add: child_upstream_handler_def\<close>)
qed

section \<open>Every run\<close>

lemma um_step_ok:
  assumes "um_step m m'" "um_ok m"
  shows "um_ok m' \<and> tells m m'"
  using assms
proof (induction rule: um_step.induct)
  case (session m a timeout ok m')
  then show ?case using open_session_ok [of m a timeout] by auto
next
  case (connection cid m a addr proto app r m')
  then show ?case using open_connection_ok [of m cid a addr proto app] by auto
next
  case (close m a)
  then show ?case by (rule close_session_ok)
next
  case (event a i what m m')
  then have "i \<in> fst ` set (um_pool m)" by (auto simp: child_upstream_handler_def split: if_splits)
  then show ?case using child_event_ok [of m i a what] event by auto
next
  case (task m ids rest a)
  have "um_ok (m\<lparr>um_tasks := rest\<rparr>)" using task um_ok_cong [of "m\<lparr>um_tasks := rest\<rparr>" m] by simp
  from run_task_ok [OF this, of a ids] show ?case by (auto simp: tells_def)
next
  case (by_conn m f cid)
  have "um_ok (call_by_conn f cid m) = um_ok m" by (rule um_ok_cong) (auto simp: call_by_conn_def split: option.split)
  then show ?case using by_conn by (auto simp: call_by_conn_def intro: tells_refl split: option.split)
next
  case (check m)
  have "um_ok (do_health_check m) = um_ok m"
    by (rule um_ok_cong) (simp_all add: do_health_check_def cancel_health_check_def Let_def fold_um_call fold_um_call_pairs)
  then show ?case using check
    by (auto simp: do_health_check_def cancel_health_check_def Let_def fold_um_call fold_um_call_pairs tells_def)
next
  case (cancel m)
  have "um_ok (cancel_health_check m) = um_ok m" by (rule um_ok_cong) (simp_all add: cancel_health_check_def fold_um_call_pairs)
  then show ?case using cancel by (simp add: cancel_health_check_def fold_um_call_pairs tells_def)
next
  case (icmp rq m m')
  then obtain i where "m' = um_call (UC_on_icmp_request i rq) m" by (auto simp: um_on_icmp_request_def split: list.splits)
  then show ?case using icmp um_ok_cong [of m' m] by (simp add: tells_refl)
next
  case (sleep m)
  have "um_ok (um_handle_sleep m) = um_ok m" by (rule um_ok_cong) (simp_all add: um_handle_sleep_def fold_um_call_pairs)
  then show ?case using sleep by (simp add: um_handle_sleep_def fold_um_call_pairs tells_def)
next
  case (wake m)
  have "um_ok (um_handle_wake m) = um_ok m" by (rule um_ok_cong) (simp_all add: um_handle_wake_def fold_um_call_pairs)
  then show ?case using wake by (simp add: um_handle_wake_def fold_um_call_pairs tells_def)
qed

lemma um_reachable_ok: "um_reachable m \<Longrightarrow> um_ok m \<and> session_after False (um_events m) = Some (um_session_open m)"
proof (induction rule: um_reachable.induct)
  case (start n k)
  then show ?case by (simp add: um_new_def um_ok_def um_parts DEFAULT_UPSTREAMS_NUM_def)
next
  case (next_step m m')
  then show ?case using um_step_ok [of m m'] by (auto simp: tells_def session_after_append)
qed

section \<open>Properties\<close>

text \<open>
  Claim C39: The multiplexer is well formed in every run. Its children have different identifiers and are never more than configured; every
  connection belongs to an open child and every waiting one to a child that is being opened, under different
  identifiers; the owner sees no session begin twice without an end in between; and no assertion
  fails when the owner opens a session or a connection and when a child raises an event.
\<close>

theorem multiplexer_well_formed:
  assumes "um_reachable m"
  shows "um_ok m \<and> session_after False (um_events m) = Some (um_session_open m)
    \<and> (um_pool m = [] \<longrightarrow> open_session a t m \<noteq> None)
    \<and> (cid \<notin> um_ids m \<and> cid \<noteq> NON_ID \<longrightarrow> um_open_connection a cid addr proto app m \<noteq> None)
    \<and> (i \<in> fst ` set (um_pool m) \<longrightarrow> child_upstream_handler a i what m \<noteq> None)"
proof -
  have ok: "um_ok m" "session_after False (um_events m) = Some (um_session_open m)" using um_reachable_ok [OF assms] by simp_all
  have "open_session a t m \<noteq> None" if "um_pool m = []" using open_session_ok [OF ok(1) that, of a t] by auto
  moreover have "um_open_connection a cid addr proto app m \<noteq> None" if "cid \<notin> um_ids m" "cid \<noteq> NON_ID"
    using open_connection_ok [OF ok(1) that, of a addr proto app] by auto
  moreover have "child_upstream_handler a i what m \<noteq> None" if "i \<in> fst ` set (um_pool m)"
    using child_event_ok [OF ok(1) that, of a what] by auto
  ultimately show ?thesis using ok by blast
qed

text \<open>A run with children that have enough connections, so that every new connection gets a new child.\<close>

definition busy :: "bool \<Rightarrow> ChildAnswers" where
  "busy accept = \<lparr>ua_open_session = True, ua_open_connection = (\<lambda>_. accept), ua_connections_num = (\<lambda>_. 5), ua_send = 0,
     ua_available = 0, ua_kex_group_nid = (\<lambda>_. 0), ua_econnreset = 104, ua_econnrefused = 111\<rparr>"

definition some_pair :: "unit TunnelAddressPair" where
  "some_pair = \<lparr>ap_src = (), ap_dst = Address ()\<rparr>"

definition mux_opened :: "unit UpstreamMultiplexer" where
  "mux_opened = the (child_upstream_handler (busy True) 0 SERVER_EVENT_SESSION_OPENED (snd (the (open_session (busy True) None (um_new 0 0)))))"

definition mux_waiting :: "unit UpstreamMultiplexer" where
  "mux_waiting = snd (the (um_open_connection (busy True) 1 some_pair 6 [] mux_opened))"

text \<open>The first child ends its session, and only the second one is left, which is still being opened.\<close>

definition mux_ended :: "unit UpstreamMultiplexer" where
  "mux_ended = the (child_upstream_handler (busy True) 0 SERVER_EVENT_SESSION_CLOSED mux_waiting)"

definition mux_opening :: "unit UpstreamMultiplexer" where
  "mux_opening = um_run_task (busy True) [0] (mux_ended\<lparr>um_tasks := []\<rparr>)"

definition mux_two_opening :: "unit UpstreamMultiplexer" where
  "mux_two_opening = snd (the (um_open_connection (busy True) 2 some_pair 6 [] mux_opening))"

definition mux_refused :: "unit UpstreamMultiplexer" where
  "mux_refused = the (child_upstream_handler (busy False) 2 SERVER_EVENT_SESSION_OPENED mux_two_opening)"

lemma mux_steps:
  "open_session (busy True) None (um_new 0 0 :: unit UpstreamMultiplexer) = Some (True, snd (the (open_session (busy True) None (um_new 0 0))))"
  "child_upstream_handler (busy True) 0 SERVER_EVENT_SESSION_OPENED (snd (the (open_session (busy True) None (um_new 0 0)))) = Some mux_opened"
  "um_open_connection (busy True) 1 some_pair 6 [] mux_opened = Some (1, mux_waiting)" "1 \<notin> um_ids mux_opened"
  "child_upstream_handler (busy True) 0 SERVER_EVENT_SESSION_CLOSED mux_waiting = Some mux_ended" "um_tasks mux_ended = [[0]]"
  "um_open_connection (busy True) 2 some_pair 6 [] mux_opening = Some (2, mux_two_opening)" "2 \<notin> um_ids mux_opening"
  "child_upstream_handler (busy False) 2 SERVER_EVENT_SESSION_OPENED mux_two_opening = Some mux_refused"
  by code_simp+

lemma mux_reachable: "um_reachable mux_opening" "um_reachable mux_refused"
proof -
  have non: "1 \<noteq> NON_ID" "2 \<noteq> NON_ID" by (simp_all add: NON_ID_def)
  have new: "um_pool (um_new 0 0 :: unit UpstreamMultiplexer) = []" by (simp add: um_new_def)
  have "um_reachable (um_new 0 0 :: unit UpstreamMultiplexer)" by (rule um_reachable.start)
  then have "um_reachable mux_opened"
    using um_reachable.next_step um_step.session [OF new mux_steps(1)] um_step.event [OF mux_steps(2)] by blast
  then have "um_reachable mux_waiting" using um_reachable.next_step um_step.connection [OF mux_steps(4) non(1) mux_steps(3)] by blast
  then have "um_reachable mux_ended" using um_reachable.next_step um_step.event [OF mux_steps(5)] by blast
  then show r: "um_reachable mux_opening"
    using um_reachable.next_step um_step.task [OF mux_steps(6)] unfolding mux_opening_def by blast
  have "um_reachable mux_two_opening" using um_reachable.next_step [OF r] um_step.connection [OF mux_steps(8) non(2) mux_steps(7)] by blast
  then show "um_reachable mux_refused" using um_reachable.next_step um_step.event [OF mux_steps(9)] by blast
qed

theorem multiplexer_well_formed_witness: "um_ok mux_opening \<and> um_open_connection (busy True) 2 some_pair 6 [] mux_opening \<noteq> None"
  using multiplexer_well_formed [OF mux_reachable(1), of "busy True" None 2 some_pair 6 "[]"] mux_steps(8) by (simp add: NON_ID_def)


end
