(* ===== verification/Udp_Mux.thy ===== *)
theory Udp_Mux
  imports Server_Upstream Common_Utils
begin

text \<open>
  The UDP multiplexer (\<^verbatim>\<open>core/src/http_udp_multiplexer.cpp\<close>), which carries the datagrams of
  all UDP connections over one HTTP stream. The iteration order of the hash map of connections
  is the order of the list that models it. The handler of the upstream is called with events;
  the model records the calls in order and the handler does not call back into the multiplexer.
  \<open>now\<close> is the steady clock, and a failed assertion or an empty optional is \<open>None\<close>.
\<close>

section \<open>State\<close>

definition UDPPKT_IN_PREFIX_SIZE :: nat where
  "UDPPKT_IN_PREFIX_SIZE = 4 + 2 * (16 + 2)"

definition UDPPKT_LENGTH_SIZE :: nat where
  "UDPPKT_LENGTH_SIZE = 4"

definition UDPPKT_APPLEN_SIZE :: nat where
  "UDPPKT_APPLEN_SIZE = 1"

definition MAX_UDP_PAYLOAD_SIZE :: nat where
  "MAX_UDP_PAYLOAD_SIZE = 65535 - 8"

definition MAX_UDP_IN_PACKET_LENGTH :: nat where
  "MAX_UDP_IN_PACKET_LENGTH = MAX_UDP_PAYLOAD_SIZE + UDPPKT_IN_PREFIX_SIZE - UDPPKT_LENGTH_SIZE"

definition VPN_DEFAULT_UDP_TIMEOUT_MS :: millis where
  "VPN_DEFAULT_UDP_TIMEOUT_MS = 5 * 60 * 1000"

lemmas udp_sizes = UDPPKT_IN_PREFIX_SIZE_def UDPPKT_LENGTH_SIZE_def UDPPKT_APPLEN_SIZE_def
  MAX_UDP_PAYLOAD_SIZE_def MAX_UDP_IN_PACKET_LENGTH_def

datatype MultiplexerState = MS_IDLE | MS_ESTABLISHED

datatype RecvConnectionState = RCS_IDLE | RCS_PAYLOAD | RCS_DROPPING

text \<open>The tasks of a connection are cancelled when it is destroyed, so that they are flags here.\<close>

record 'sa Connection =
  read_enabled :: bool
  cn_addr :: "'sa TunnelAddressPair"
  cn_app_name :: bytes
  sent_bytes_since_flush :: nat
  cn_timeout :: nanos
  open_task_id :: bool
  close_task_id :: bool

record RecvConnection =
  rc_state :: RecvConnectionState
  rc_id :: u64
  bytes_left :: nat
  rc_buffer :: bytes

record PacketInfo =
  pk_id :: u64
  payload_length :: nat

record 'sa HttpUdpMultiplexer =
  m_state :: MultiplexerState
  m_stream_id :: u64
  m_recv_connection :: RecvConnection
  m_addr_to_id :: "'sa TunnelAddressPair \<rightharpoonup> u64"
  m_connections :: "(u64 \<times> 'sa Connection) list"
  m_timer_event :: bool
  m_pending_error :: "ServerError option"

definition recv_init :: RecvConnection where
  "recv_init = \<lparr>rc_state = RCS_IDLE, rc_id = NON_ID, bytes_left = 0, rc_buffer = []\<rparr>"

definition udp_mux_new :: "'sa HttpUdpMultiplexer" where
  "udp_mux_new =
     \<lparr>m_state = MS_IDLE, m_stream_id = 0, m_recv_connection = recv_init, m_addr_to_id = Map.empty,
      m_connections = [], m_timer_event = False, m_pending_error = None\<rparr>"

definition find_connection :: "u64 \<Rightarrow> 'sa HttpUdpMultiplexer \<Rightarrow> 'sa Connection option" where
  "find_connection i m = map_of (m_connections m) i"

definition update_connection ::
  "u64 \<Rightarrow> ('sa Connection \<Rightarrow> 'sa Connection) \<Rightarrow> 'sa HttpUdpMultiplexer \<Rightarrow> 'sa HttpUdpMultiplexer" where
  "update_connection i f m =
     m\<lparr>m_connections := map (\<lambda>(k, c). (k, if k = i then f c else c)) (m_connections m)\<rparr>"

definition udp_deadline :: "nanos \<Rightarrow> nanos" where
  "udp_deadline now = now + ns_of_ms VPN_DEFAULT_UDP_TIMEOUT_MS"

section \<open>Outgoing packets\<close>

definition compose_udp_packet :: "'sa sa_ops \<Rightarrow> 'sa \<Rightarrow> 'sa \<Rightarrow> bytes \<Rightarrow> bytes \<Rightarrow> bytes option" where
  "compose_udp_packet ops src dst app_name data =
     (let full_length = UDPPKT_IN_PREFIX_SIZE + UDPPKT_APPLEN_SIZE + length app_name + length data;
          app = take 255 app_name
      in do {
        w \<leftarrow> put_u32 (word_of_nat (full_length - UDPPKT_LENGTH_SIZE)) (writer_new full_length);
        w \<leftarrow> put_ip_padded ops src w;
        w \<leftarrow> put_u16 (so_port ops src) w;
        w \<leftarrow> put_ip_padded ops dst w;
        w \<leftarrow> put_u16 (so_port ops dst) w;
        w \<leftarrow> put_u8 (word_of_nat (length app)) w;
        w \<leftarrow> put_data app w;
        w \<leftarrow> put_data data w;
        Some (writer_buffer w)
      })"

section \<open>Operations\<close>

definition udp_reset :: "'sa HttpUdpMultiplexer \<Rightarrow> 'sa HttpUdpMultiplexer" where
  "udp_reset m =
     m\<lparr>m_state := MS_IDLE, m_stream_id := 0, m_addr_to_id := Map.empty,
       m_recv_connection := recv_init, m_timer_event := False\<rparr>"

definition clean_connection_data :: "u64 \<Rightarrow> 'sa HttpUdpMultiplexer \<Rightarrow> bool \<times> 'sa HttpUdpMultiplexer" where
  "clean_connection_data i m =
     (case find_connection i m of
        None \<Rightarrow> (False, m)
      | Some c \<Rightarrow>
          (True,
           m\<lparr>m_recv_connection :=
               (if rc_id (m_recv_connection m) = i
                then (m_recv_connection m)\<lparr>rc_state := RCS_DROPPING\<rparr> else m_recv_connection m),
             m_addr_to_id := (m_addr_to_id m)(cn_addr c := None),
             m_connections := filter (\<lambda>(k, c). k \<noteq> i) (m_connections m)\<rparr>))"

text \<open>One connection in the loop of \<open>close\<close>.\<close>

definition close_event :: "ServerError option \<Rightarrow> u64 \<Rightarrow> 'sa ServerEvent" where
  "close_event error i =
     (case error of
        Some e \<Rightarrow> SERVER_EVENT_ERROR (e\<lparr>se_id := i\<rparr>)
      | None \<Rightarrow> SERVER_EVENT_CONNECTION_CLOSED i)"

primrec close_all ::
  "ServerError option \<Rightarrow> u64 list \<Rightarrow> 'sa HttpUdpMultiplexer \<Rightarrow> 'sa HttpUdpMultiplexer \<times> 'sa MuxCall list" where
  "close_all error [] m = (m, [])"
| "close_all error (i # is) m =
     (let (m', out) = close_all error is (snd (clean_connection_data i m))
      in (m', Handler (close_event error i) # out))"

definition udp_close :: "ServerError \<Rightarrow> 'sa HttpUdpMultiplexer \<Rightarrow> 'sa HttpUdpMultiplexer \<times> 'sa MuxCall list" where
  "udp_close serv_err m =
     (let error = (if m_pending_error m = None \<and> code (se_error serv_err) \<noteq> 0 then Some serv_err
                   else m_pending_error m);
          (m', out) = close_all error (map fst (m_connections m)) m
      in (udp_reset m', out))"

definition complete_udp_connection ::
  "u64 \<Rightarrow> 'sa HttpUdpMultiplexer \<Rightarrow> 'sa HttpUdpMultiplexer \<times> 'sa MuxCall list" where
  "complete_udp_connection i m =
     (if m_state m = MS_ESTABLISHED then
        case find_connection i m of
          None \<Rightarrow> (m, [])
        | Some c \<Rightarrow>
            ((update_connection i (\<lambda>c. c\<lparr>open_task_id := False\<rparr>) m)
               \<lparr>m_addr_to_id := (m_addr_to_id m)(cn_addr c \<mapsto> i)\<rparr>,
             [Handler (SERVER_EVENT_CONNECTION_OPENED i)])
      else (m, []))"

text \<open>
  \<open>open_connection\<close>; \<open>stream\<close> is the answer of the connect request, which is sent only when no
  stream is open.
\<close>

definition add_connection ::
  "nanos \<Rightarrow> u64 \<Rightarrow> 'sa TunnelAddressPair \<Rightarrow> bytes \<Rightarrow> 'sa HttpUdpMultiplexer \<Rightarrow> 'sa HttpUdpMultiplexer" where
  "add_connection now i addr app m =
     m\<lparr>m_connections := m_connections m @
         [(i, \<lparr>read_enabled = False, cn_addr = addr, cn_app_name = app, sent_bytes_since_flush = 0,
               cn_timeout = udp_deadline now, open_task_id = True, close_task_id = False\<rparr>)],
       m_timer_event := True\<rparr>"

definition open_connection ::
  "u64 option \<Rightarrow> nanos \<Rightarrow> u64 \<Rightarrow> 'sa TunnelAddressPair \<Rightarrow> bytes \<Rightarrow> 'sa HttpUdpMultiplexer \<Rightarrow>
   (bool \<times> 'sa HttpUdpMultiplexer \<times> 'sa MuxCall list) option" where
  "open_connection stream now i addr app m =
     (case ap_dst addr of
        Name n \<Rightarrow> None
      | Address a \<Rightarrow>
          if find_connection i m \<noteq> None then None
          else (case m_state m of
              MS_IDLE \<Rightarrow>
                if m_stream_id m \<noteq> 0 then None
                else (case stream of
                    None \<Rightarrow> Some (False, m, [SendConnectRequest ''_udp2''])
                  | Some sid \<Rightarrow>
                      Some (True,
                        add_connection now i addr app (m\<lparr>m_stream_id := sid, m_state := MS_ESTABLISHED\<rparr>),
                        [SendConnectRequest ''_udp2'']))
            | MS_ESTABLISHED \<Rightarrow> Some (True, add_connection now i addr app m, [])))"

definition close_connection_now ::
  "u64 \<Rightarrow> 'sa HttpUdpMultiplexer \<Rightarrow> 'sa HttpUdpMultiplexer \<times> 'sa MuxCall list" where
  "close_connection_now i m =
     (let (existed, m') = clean_connection_data i m
      in (m', if existed then [Handler (SERVER_EVENT_CONNECTION_CLOSED i)] else []))"

definition close_connection ::
  "u64 \<Rightarrow> bool \<Rightarrow> 'sa HttpUdpMultiplexer \<Rightarrow> 'sa HttpUdpMultiplexer \<times> 'sa MuxCall list" where
  "close_connection i async m =
     (if \<not> async then close_connection_now i m
      else if find_connection i m = None then (m, [Handler (SERVER_EVENT_CONNECTION_CLOSED i)])
      else (update_connection i (\<lambda>c. c\<lparr>close_task_id := True\<rparr>) m, []))"

definition check_connection :: "u64 \<Rightarrow> 'sa HttpUdpMultiplexer \<Rightarrow> bool" where
  "check_connection i m = (find_connection i m \<noteq> None)"

text \<open>\<open>send\<close>; \<open>r\<close> is the answer of the data callback.\<close>

definition udp_send ::
  "'sa sa_ops \<Rightarrow> int \<Rightarrow> nanos \<Rightarrow> u64 \<Rightarrow> bytes \<Rightarrow> 'sa HttpUdpMultiplexer \<Rightarrow>
   (int \<times> 'sa HttpUdpMultiplexer \<times> 'sa MuxCall list) option" where
  "udp_send ops r now i data m =
     (if m_state m \<noteq> MS_ESTABLISHED then None
      else case find_connection i m of
          None \<Rightarrow> Some (-1, m, [])
        | Some c \<Rightarrow>
            (case ap_dst (cn_addr c) of
               Name n \<Rightarrow> None
             | Address dst \<Rightarrow>
                 do {
                   packet \<leftarrow> compose_udp_packet ops (ap_src (cn_addr c)) dst (cn_app_name c) data;
                   Some (if r = 0
                         then (int (length data),
                               update_connection i
                                 (\<lambda>c. c\<lparr>cn_timeout := udp_deadline now,
                                        sent_bytes_since_flush := sent_bytes_since_flush c + length data\<rparr>) m,
                               [SendData (m_stream_id m) packet])
                         else (-1, m, [SendData (m_stream_id m) packet]))
                 }))"

section \<open>Incoming packets\<close>

definition read_prefix :: "'sa sa_ops \<Rightarrow> 'sa HttpUdpMultiplexer \<Rightarrow> bytes \<Rightarrow> PacketInfo option" where
  "read_prefix ops m data =
     (if length data \<noteq> UDPPKT_IN_PREFIX_SIZE then None
      else do {
        (len, r) \<leftarrow> get_u32 data;
        if unat len < UDPPKT_IN_PREFIX_SIZE - UDPPKT_LENGTH_SIZE
        then Some \<lparr>pk_id = NON_ID, payload_length = 0\<rparr>
        else do {
          (src, r) \<leftarrow> get_ip_padded ops r;
          (src_port, r) \<leftarrow> get_u16 r;
          (dst, r) \<leftarrow> get_ip_padded ops r;
          (dst_port, r) \<leftarrow> get_u16 r;
          if unat len > MAX_UDP_IN_PACKET_LENGTH
          then Some \<lparr>pk_id = NON_ID, payload_length = 0\<rparr>
          else Some
            \<lparr>pk_id = (case m_addr_to_id m \<lparr>ap_src = so_set_port ops dst_port dst,
                                          ap_dst = Address (so_set_port ops src_port src)\<rparr> of
                        None \<Rightarrow> NON_ID | Some i \<Rightarrow> i),
             payload_length = unat len - (UDPPKT_IN_PREFIX_SIZE - UDPPKT_LENGTH_SIZE)\<rparr>
        }
      })"

definition drop_packet :: "PacketInfo \<Rightarrow> 'sa HttpUdpMultiplexer \<Rightarrow> bool" where
  "drop_packet info m =
     (if pk_id info = NON_ID then True
      else case find_connection (pk_id info) m of None \<Rightarrow> True | Some c \<Rightarrow> \<not> read_enabled c)"

text \<open>The three cases of one round of the loop; each returns the events and the data left.\<close>

definition read_idle ::
  "'sa sa_ops \<Rightarrow> 'sa HttpUdpMultiplexer \<Rightarrow> bytes \<Rightarrow> ('sa HttpUdpMultiplexer \<times> 'sa ServerEvent list \<times> bytes) option" where
  "read_idle ops m data =
     (let rc = m_recv_connection m;
          to_read = min (UDPPKT_IN_PREFIX_SIZE - length (rc_buffer rc)) (length data);
          buffer = rc_buffer rc @ take to_read data
      in if \<not> length (rc_buffer rc) < UDPPKT_IN_PREFIX_SIZE then None
         else if length buffer < UDPPKT_IN_PREFIX_SIZE
         then Some (m\<lparr>m_recv_connection := rc\<lparr>rc_buffer := buffer\<rparr>\<rparr>, [], drop to_read data)
         else do {
           info \<leftarrow> read_prefix ops m buffer;
           Some (m\<lparr>m_recv_connection :=
                     (if drop_packet info m then rc\<lparr>rc_state := RCS_DROPPING\<rparr>
                      else rc\<lparr>rc_state := RCS_PAYLOAD, rc_id := pk_id info\<rparr>)
                       \<lparr>bytes_left := payload_length info, rc_buffer := []\<rparr>\<rparr>,
                 [], drop to_read data)
         })"

definition touch_connection :: "nanos \<Rightarrow> u64 \<Rightarrow> 'sa HttpUdpMultiplexer \<Rightarrow> 'sa HttpUdpMultiplexer" where
  "touch_connection now i m = update_connection i (\<lambda>c. c\<lparr>cn_timeout := udp_deadline now\<rparr>) m"

definition read_payload ::
  "nanos \<Rightarrow> 'sa HttpUdpMultiplexer \<Rightarrow> bytes \<Rightarrow> ('sa HttpUdpMultiplexer \<times> 'sa ServerEvent list \<times> bytes) option" where
  "read_payload now m data =
     (let rc = m_recv_connection m;
          to_read = min (bytes_left rc) (length data);
          buffer = rc_buffer rc @ take to_read data;
          left = bytes_left rc - to_read
      in if find_connection (rc_id rc) m = None then None
         else if left = 0
         then Some ((touch_connection now (rc_id rc) m)\<lparr>m_recv_connection := recv_init\<rparr>,
                    [SERVER_EVENT_READ (rc_id rc) buffer], drop to_read data)
         else Some ((touch_connection now (rc_id rc) m)
                      \<lparr>m_recv_connection := rc\<lparr>rc_buffer := buffer, bytes_left := left\<rparr>\<rparr>,
                    [], drop to_read data))"

definition read_dropping ::
  "'sa HttpUdpMultiplexer \<Rightarrow> bytes \<Rightarrow> ('sa HttpUdpMultiplexer \<times> 'sa ServerEvent list \<times> bytes) option" where
  "read_dropping m data =
     (let rc = m_recv_connection m;
          to_drop = min (bytes_left rc) (length data);
          left = bytes_left rc - to_drop
      in Some (m\<lparr>m_recv_connection := (if left = 0 then recv_init else rc\<lparr>bytes_left := left\<rparr>)\<rparr>,
               [], drop to_drop data))"

definition read_step ::
  "'sa sa_ops \<Rightarrow> nanos \<Rightarrow> 'sa HttpUdpMultiplexer \<Rightarrow> bytes \<Rightarrow>
   ('sa HttpUdpMultiplexer \<times> 'sa ServerEvent list \<times> bytes) option" where
  "read_step ops now m data =
     (case rc_state (m_recv_connection m) of
        RCS_IDLE \<Rightarrow> read_idle ops m data
      | RCS_PAYLOAD \<Rightarrow> read_payload now m data
      | RCS_DROPPING \<Rightarrow> read_dropping m data)"

text \<open>
  A round consumes data, or ends a packet of which nothing is left.
\<close>

definition at_end :: "'sa HttpUdpMultiplexer \<Rightarrow> nat" where
  "at_end m =
     (if rc_state (m_recv_connection m) \<noteq> RCS_IDLE \<and> bytes_left (m_recv_connection m) = 0 then 1 else 0)"

lemma read_step_decreases:
  assumes "read_step ops now m data = Some (m', es, rest)" "data \<noteq> []"
  shows "2 * length rest + at_end m' < 2 * length data + at_end m"
proof (cases "rc_state (m_recv_connection m)")
  case RCS_IDLE
  then show ?thesis
    using assms
    by (auto simp: read_step_def read_idle_def Let_def at_end_def bind_eq_Some_conv split: if_splits)
next
  case RCS_PAYLOAD
  then show ?thesis
    using assms by (auto simp: read_step_def read_payload_def Let_def at_end_def recv_init_def split: if_splits)
next
  case RCS_DROPPING
  then show ?thesis
    using assms by (auto simp: read_step_def read_dropping_def Let_def at_end_def recv_init_def split: if_splits)
qed

function process_loop ::
  "'sa sa_ops \<Rightarrow> nanos \<Rightarrow> 'sa HttpUdpMultiplexer \<Rightarrow> bytes \<Rightarrow> ('sa HttpUdpMultiplexer \<times> 'sa ServerEvent list) option" where
  "process_loop ops now m data =
     (if data = [] then Some (m, [])
      else do {
        (m1, e1, rest) \<leftarrow> read_step ops now m data;
        (m2, e2) \<leftarrow> process_loop ops now m1 rest;
        Some (m2, e1 @ e2)
      })"
  by pat_completeness auto
termination
  by (relation "measure (\<lambda>(ops, now, m, data). 2 * length data + at_end m)")
    (auto dest: read_step_decreases)

declare process_loop.simps [simp del]

definition process_read_event ::
  "'sa sa_ops \<Rightarrow> nanos \<Rightarrow> bytes \<Rightarrow> 'sa HttpUdpMultiplexer \<Rightarrow> ('sa HttpUdpMultiplexer \<times> 'sa MuxCall list) option" where
  "process_read_event ops now data m =
     (if m_state m \<noteq> MS_ESTABLISHED then None
      else do {
        (m', es) \<leftarrow> process_loop ops now m data;
        Some (m', map Handler es @ [Consume (m_stream_id m') (length data)])
      })"

section \<open>Timer, response and queries\<close>

primrec expire_all ::
  "nanos \<Rightarrow> (u64 \<times> 'sa Connection) list \<Rightarrow> 'sa HttpUdpMultiplexer \<Rightarrow> 'sa HttpUdpMultiplexer \<times> 'sa MuxCall list" where
  "expire_all now [] m = (m, [])"
| "expire_all now (x # xs) m =
     (if cn_timeout (snd x) \<le> now then
        let (m', out) = expire_all now xs (snd (clean_connection_data (fst x) m))
        in (m', Handler (SERVER_EVENT_CONNECTION_CLOSED (fst x)) # out)
      else expire_all now xs m)"

definition udp_timer_callback :: "nanos \<Rightarrow> 'sa HttpUdpMultiplexer \<Rightarrow> 'sa HttpUdpMultiplexer \<times> 'sa MuxCall list" where
  "udp_timer_callback now m = expire_all now (m_connections m) m"

text \<open>\<open>AG_ECONNREFUSED\<close> is a constant of the platform layer.\<close>

definition handle_response :: "int \<Rightarrow> nat \<Rightarrow> 'sa HttpUdpMultiplexer \<Rightarrow> 'sa HttpUdpMultiplexer option" where
  "handle_response econnrefused status m =
     (if m_state m \<noteq> MS_ESTABLISHED then None
      else Some (if status \<noteq> HTTP_OK_STATUS
                 then m\<lparr>m_pending_error :=
                        Some \<lparr>se_id = 0, se_error = mk_error econnrefused ''HTTP stream creation failed''\<rparr>\<rparr>
                 else m))"

definition get_stream_id :: "'sa HttpUdpMultiplexer \<Rightarrow> u64 option" where
  "get_stream_id m = (case m_state m of MS_IDLE \<Rightarrow> None | MS_ESTABLISHED \<Rightarrow> Some (m_stream_id m))"

definition report_sent_bytes :: "'sa HttpUdpMultiplexer \<Rightarrow> 'sa HttpUdpMultiplexer \<times> 'sa MuxCall list" where
  "report_sent_bytes m =
     (m\<lparr>m_connections := map (\<lambda>(k, c). (k, c\<lparr>sent_bytes_since_flush := 0\<rparr>)) (m_connections m)\<rparr>,
      map (\<lambda>(k, c). Handler (SERVER_EVENT_DATA_SENT k (sent_bytes_since_flush c)))
        (filter (\<lambda>(k, c). sent_bytes_since_flush c > 0) (m_connections m)))"

definition set_read_enabled :: "u64 \<Rightarrow> bool \<Rightarrow> 'sa HttpUdpMultiplexer \<Rightarrow> 'sa HttpUdpMultiplexer" where
  "set_read_enabled i v m = update_connection i (\<lambda>c. c\<lparr>read_enabled := v\<rparr>) m"

definition connections_num :: "'sa HttpUdpMultiplexer \<Rightarrow> nat" where
  "connections_num m = length (m_connections m)"

end
