(* ===== verification/Udp_Mux_Reader.thy ===== *)
theory Udp_Mux_Reader
  imports Udp_Mux
begin

text \<open>
  The receiving side of the UDP multiplexer: the loop is an incremental reader, whatever the
  pieces in which the stream arrives, and a stream of well-formed packets is delivered packet
  by packet.
\<close>

section \<open>Totality\<close>

text \<open>What the assertions of the loop rely on.\<close>

definition recv_ok :: "'sa HttpUdpMultiplexer \<Rightarrow> bool" where
  "recv_ok m =
     (case rc_state (m_recv_connection m) of
        RCS_IDLE \<Rightarrow> length (rc_buffer (m_recv_connection m)) < UDPPKT_IN_PREFIX_SIZE
      | RCS_PAYLOAD \<Rightarrow> find_connection (rc_id (m_recv_connection m)) m \<noteq> None
      | RCS_DROPPING \<Rightarrow> True)"

lemma map_of_update_at:
  "map_of (map (\<lambda>(k, c). (k, if k = i then f c else c)) xs) j =
     map_option (\<lambda>c. if j = i then f c else c) (map_of xs j)"
  by (induction xs) auto

lemma find_connection_update [simp]:
  "find_connection j (update_connection i f m) =
     map_option (\<lambda>c. if j = i then f c else c) (find_connection j m)"
  by (simp add: find_connection_def update_connection_def map_of_update_at)

lemma find_connection_recv [simp]:
  "find_connection i (m\<lparr>m_recv_connection := rc\<rparr>) = find_connection i m"
  by (simp add: find_connection_def)

lemma update_connection_fields [simp]:
  "m_recv_connection (update_connection i f m) = m_recv_connection m"
  "m_addr_to_id (update_connection i f m) = m_addr_to_id m"
  "m_state (update_connection i f m) = m_state m"
  "m_stream_id (update_connection i f m) = m_stream_id m"
  "map fst (m_connections (update_connection i f m)) = map fst (m_connections m)"
  by (auto simp: update_connection_def)

lemma touch_connection_simps [simp]:
  "find_connection j (touch_connection now i m) = None \<longleftrightarrow> find_connection j m = None"
  "m_recv_connection (touch_connection now i m) = m_recv_connection m"
  "m_addr_to_id (touch_connection now i m) = m_addr_to_id m"
  "m_state (touch_connection now i m) = m_state m"
  "m_stream_id (touch_connection now i m) = m_stream_id m"
  by (simp_all add: touch_connection_def)

lemma touch_twice:
  "touch_connection now i ((touch_connection now i m)\<lparr>m_recv_connection := rc\<rparr>) =
     (touch_connection now i m)\<lparr>m_recv_connection := rc\<rparr>"
  by (cases m) (simp add: touch_connection_def update_connection_def o_def case_prod_beta)

lemma read_prefix_total:
  assumes "length data = UDPPKT_IN_PREFIX_SIZE"
  shows "\<exists>info. read_prefix ops m data = Some info"
proof -
  have len: "length data = 40" using assms by (simp add: udp_sizes)
  obtain n where n: "get_u32 data = Some (n, drop 4 data)" using get_u32_long [of data] len by auto
  obtain src where src: "get_ip_padded ops (drop 4 data) = Some (src, drop 16 (drop 4 data))"
    using get_ip_padded_long [of "drop 4 data" ops] len by auto
  obtain sp where sp: "get_u16 (drop 20 data) = Some (sp, drop 2 (drop 20 data))"
    using get_u16_long [of "drop 20 data"] len by auto
  obtain dst where dst: "get_ip_padded ops (drop 22 data) = Some (dst, drop 16 (drop 22 data))"
    using get_ip_padded_long [of "drop 22 data" ops] len by auto
  obtain dp where dp: "get_u16 (drop 38 data) = Some (dp, drop 2 (drop 38 data))"
    using get_u16_long [of "drop 38 data"] len by auto
  from n src sp dst dp assms show ?thesis by (simp add: read_prefix_def)
qed

lemma read_step_total:
  assumes "recv_ok m"
  shows "\<exists>m' es rest. read_step ops now m data = Some (m', es, rest) \<and> recv_ok m' \<and>
           m_state m' = m_state m \<and> m_stream_id m' = m_stream_id m"
proof (cases "rc_state (m_recv_connection m)")
  case RCS_IDLE
  let ?rc = "m_recv_connection m"
  let ?buffer = "rc_buffer ?rc @ take (min (UDPPKT_IN_PREFIX_SIZE - length (rc_buffer ?rc)) (length data)) data"
  have short: "length (rc_buffer ?rc) < UDPPKT_IN_PREFIX_SIZE"
    using assms RCS_IDLE by (simp add: recv_ok_def)
  show ?thesis
  proof (cases "length ?buffer < UDPPKT_IN_PREFIX_SIZE")
    case True
    then have "length (rc_buffer ?rc) + length data < UDPPKT_IN_PREFIX_SIZE" using short by simp
    then show ?thesis
      using RCS_IDLE short by (simp add: read_step_def read_idle_def Let_def recv_ok_def)
  next
    case False
    then have "length ?buffer = UDPPKT_IN_PREFIX_SIZE" using short by simp
    then obtain info where "read_prefix ops m ?buffer = Some info" using read_prefix_total by blast
    then show ?thesis
      using RCS_IDLE short False
      by (auto simp: read_step_def read_idle_def Let_def recv_ok_def drop_packet_def split: option.splits)
  qed
next
  case RCS_PAYLOAD
  then show ?thesis
    using assms
    by (auto simp: read_step_def read_payload_def Let_def recv_ok_def recv_init_def udp_sizes)
next
  case RCS_DROPPING
  then show ?thesis
    by (auto simp: read_step_def read_dropping_def Let_def recv_ok_def recv_init_def udp_sizes)
qed

lemma process_loop_total:
  "recv_ok m \<Longrightarrow> \<exists>m' es. process_loop ops now m data = Some (m', es) \<and> recv_ok m' \<and>
     m_state m' = m_state m \<and> m_stream_id m' = m_stream_id m"
proof (induction ops now m data rule: process_loop.induct)
  case (1 ops now m data)
  show ?case
  proof (cases "data = []")
    case True
    then show ?thesis using "1.prems" by (simp add: process_loop.simps)
  next
    case False
    obtain m1 e1 rest where step: "read_step ops now m data = Some (m1, e1, rest)" "recv_ok m1"
      "m_state m1 = m_state m" "m_stream_id m1 = m_stream_id m"
      using read_step_total [OF "1.prems"] by blast
    obtain m2 e2 where "process_loop ops now m1 rest = Some (m2, e2)" "recv_ok m2"
      "m_state m2 = m_state m" "m_stream_id m2 = m_stream_id m"
      using "1.IH" [OF False step(1) refl refl step(2)] step by auto
    then show ?thesis using False step by (simp add: process_loop.simps [of ops now m data])
  qed
qed

section \<open>Pieces of the stream\<close>

definition needed :: "'sa HttpUdpMultiplexer \<Rightarrow> nat" where
  "needed m =
     (case rc_state (m_recv_connection m) of
        RCS_IDLE \<Rightarrow> UDPPKT_IN_PREFIX_SIZE - length (rc_buffer (m_recv_connection m))
      | _ \<Rightarrow> bytes_left (m_recv_connection m))"

lemma read_step_enough:
  assumes "needed m \<le> length xs" "read_step ops now m xs = Some (m1, e1, rest)"
  shows "read_step ops now m (xs @ ys) = Some (m1, e1, rest @ ys)"
proof (cases "rc_state (m_recv_connection m)")
  case RCS_IDLE
  define k where "k = UDPPKT_IN_PREFIX_SIZE - length (rc_buffer (m_recv_connection m))"
  have "k \<le> length xs" using assms(1) RCS_IDLE by (simp add: needed_def k_def)
  then show ?thesis
    using assms(2) RCS_IDLE
    by (auto simp: read_step_def read_idle_def Let_def k_def [symmetric] bind_eq_Some_conv split: if_splits)
next
  case RCS_PAYLOAD
  then have "bytes_left (m_recv_connection m) \<le> length xs" using assms(1) by (simp add: needed_def)
  then show ?thesis
    using assms(2) RCS_PAYLOAD by (auto simp: read_step_def read_payload_def Let_def split: if_splits)
next
  case RCS_DROPPING
  then have "bytes_left (m_recv_connection m) \<le> length xs" using assms(1) by (simp add: needed_def)
  then show ?thesis
    using assms(2) RCS_DROPPING by (auto simp: read_step_def read_dropping_def Let_def split: if_splits)
qed

lemma addr_to_id_recv: "m_addr_to_id (m\<lparr>m_recv_connection := rc\<rparr>) = m_addr_to_id m"
  by simp

lemma read_prefix_recv: "read_prefix ops (m\<lparr>m_recv_connection := rc\<rparr>) = read_prefix ops m"
  unfolding read_prefix_def addr_to_id_recv ..

lemma drop_packet_recv: "drop_packet info (m\<lparr>m_recv_connection := rc\<rparr>) = drop_packet info m"
  by (simp add: drop_packet_def)

lemma read_step_short:
  assumes "length xs < needed m" "recv_ok m"
  shows "\<exists>m1. read_step ops now m xs = Some (m1, [], []) \<and> recv_ok m1 \<and>
           read_step ops now m1 ys = read_step ops now m (xs @ ys)"
proof (cases "rc_state (m_recv_connection m)")
  case RCS_IDLE
  let ?rc = "m_recv_connection m"
  define k where "k = UDPPKT_IN_PREFIX_SIZE - length (rc_buffer ?rc)"
  let ?m1 = "m\<lparr>m_recv_connection := ?rc\<lparr>rc_buffer := rc_buffer ?rc @ xs\<rparr>\<rparr>"
  have k: "length xs < k" "length (rc_buffer ?rc) + k = UDPPKT_IN_PREFIX_SIZE"
    using assms RCS_IDLE by (auto simp: needed_def k_def recv_ok_def)
  have "read_step ops now m xs = Some (?m1, [], [])"
    using RCS_IDLE k by (simp add: read_step_def read_idle_def Let_def)
  moreover have "recv_ok ?m1" using RCS_IDLE k by (simp add: recv_ok_def)
  moreover have "read_step ops now ?m1 ys = read_step ops now m (xs @ ys)"
  proof -
    have sizes: "UDPPKT_IN_PREFIX_SIZE - length (rc_buffer ?rc @ xs) = k - length xs"
      "UDPPKT_IN_PREFIX_SIZE - length (rc_buffer ?rc) = k"
      "length (rc_buffer ?rc @ xs) < UDPPKT_IN_PREFIX_SIZE" "length (rc_buffer ?rc) < UDPPKT_IN_PREFIX_SIZE"
      using k by simp_all
    have pieces: "take (min k (length (xs @ ys))) (xs @ ys) = xs @ take (min (k - length xs) (length ys)) ys"
      "drop (min k (length (xs @ ys))) (xs @ ys) = drop (min (k - length xs) (length ys)) ys"
      unfolding take_min_length drop_min_length using k(1) by simp_all
    show ?thesis
      using RCS_IDLE
      by (simp add: read_step_def read_idle_def Let_def sizes [simplified] pieces [simplified]
          read_prefix_recv drop_packet_recv)
        (intro impI Option.bind_cong refl, cases "m_recv_connection m", simp)
  qed
  ultimately show ?thesis by blast
next
  case RCS_PAYLOAD
  then show ?thesis
    using assms
    by (auto simp: read_step_def needed_def read_payload_def Let_def recv_ok_def min_def touch_twice)
next
  case RCS_DROPPING
  then show ?thesis
    using assms by (auto simp: read_step_def needed_def read_dropping_def Let_def recv_ok_def min_def)
qed

lemma process_loop_append:
  "recv_ok m \<Longrightarrow> process_loop ops now m (xs @ ys) =
     do {
       (m1, e1) \<leftarrow> process_loop ops now m xs;
       (m2, e2) \<leftarrow> process_loop ops now m1 ys;
       Some (m2, e1 @ e2)
     }"
proof (induction ops now m xs rule: process_loop.induct)
  case (1 ops now m xs)
  consider "xs = []" | "xs \<noteq> []" "needed m \<le> length xs" | "xs \<noteq> []" "length xs < needed m" by fastforce
  then show ?case
  proof cases
    case 1
    then show ?thesis by (cases "process_loop ops now m ys") (simp_all add: process_loop.simps [of ops now m "[]"])
  next
    case 2
    obtain m1 e1 rest where step: "read_step ops now m xs = Some (m1, e1, rest)" "recv_ok m1"
      using read_step_total [OF "1.prems"] by blast
    have whole: "process_loop ops now m (xs @ ys) =
        process_loop ops now m1 (rest @ ys) \<bind> (\<lambda>(m2, e2). Some (m2, e1 @ e2))"
      using 2 read_step_enough [OF 2(2) step(1)] by (simp add: process_loop.simps [of ops now m "xs @ ys"])
    have part: "process_loop ops now m xs =
        process_loop ops now m1 rest \<bind> (\<lambda>(m2, e2). Some (m2, e1 @ e2))"
      using 2 step by (simp add: process_loop.simps [of ops now m xs])
    show ?thesis
      unfolding whole part "1.IH" [OF 2(1) step(1) refl refl step(2)] by (rule bind_assoc_pairs)
  next
    case 3
    obtain m1 where m1: "read_step ops now m xs = Some (m1, [], [])" "recv_ok m1"
      "read_step ops now m1 ys = read_step ops now m (xs @ ys)"
      using read_step_short [OF 3(2) "1.prems"] by blast
    have whole: "process_loop ops now m xs = Some (m1, [])"
      using 3 m1 by (simp add: process_loop.simps [of ops now m xs] process_loop.simps [of ops now m1 "[]"])
    show ?thesis
    proof (cases "ys = []")
      case True
      then show ?thesis using whole by (simp add: process_loop.simps [of ops now m1 "[]"])
    next
      case False
      then have "process_loop ops now m (xs @ ys) = process_loop ops now m1 ys"
        using m1 3 by (simp add: process_loop.simps [of ops now m "xs @ ys"] process_loop.simps [of ops now m1 ys])
      then show ?thesis using whole by (cases "process_loop ops now m1 ys") auto
    qed
  qed
qed

interpretation um: stream_reader "process_loop ops now" recv_ok for ops now
proof (unfold_locales, goal_cases)
  case (1 m)
  show ?case by (simp add: process_loop.simps)
next
  case (2 m xs)
  then show ?case using process_loop_total by blast
next
  case (3 m xs ys)
  then show ?case by (rule process_loop_append)
qed

end
