(* ===== verification/Udp_Mux_Properties.thy ===== *)
theory Udp_Mux_Properties
  imports Udp_Mux_Reader
begin

text \<open>
  Properties of the UDP multiplexer: packets of a stream are delivered in order whatever the
  pieces, what happens to packets of a wrong length, the outgoing format, the life of
  connections, and that no assertion fails in a reachable state.
\<close>

section \<open>Delivery\<close>

text \<open>
  A packet of the endpoint in the format of the header file, from \<open>src\<close> to \<open>dst\<close>; the length
  field is given separately.
\<close>

definition in_prefix :: "'sa sa_ops \<Rightarrow> nat \<Rightarrow> 'sa \<Rightarrow> 'sa \<Rightarrow> bytes" where
  "in_prefix ops len src dst =
     bytes_of_u32 (word_of_nat len) @ padded_ip ops src @ bytes_of_u16 (so_port ops src) @
     padded_ip ops dst @ bytes_of_u16 (so_port ops dst)"

definition in_packet :: "'sa sa_ops \<Rightarrow> 'sa \<times> 'sa \<times> bytes \<Rightarrow> bytes" where
  "in_packet ops p = (case p of (src, dst, payload) \<Rightarrow> in_prefix ops (length payload + 36) src dst @ payload)"

text \<open>The connection that a packet belongs to, when it is open for reading.\<close>

definition packet_target :: "'sa HttpUdpMultiplexer \<Rightarrow> 'sa \<Rightarrow> 'sa \<Rightarrow> u64 option" where
  "packet_target m src dst =
     (case m_addr_to_id m \<lparr>ap_src = dst, ap_dst = Address src\<rparr> of
        None \<Rightarrow> None
      | Some i \<Rightarrow>
          if i = NON_ID then None
          else case find_connection i m of
              None \<Rightarrow> None
            | Some c \<Rightarrow> if read_enabled c then Some i else None)"

definition delivered :: "'sa HttpUdpMultiplexer \<Rightarrow> 'sa \<times> 'sa \<times> bytes \<Rightarrow> 'sa ServerEvent list" where
  "delivered m p =
     (case p of (src, dst, payload) \<Rightarrow>
        case packet_target m src dst of None \<Rightarrow> [] | Some i \<Rightarrow> [SERVER_EVENT_READ i payload])"

lemma length_in_prefix:
  "sa_laws ops \<Longrightarrow> so_is_ip ops src \<Longrightarrow> so_is_ip ops dst \<Longrightarrow> length (in_prefix ops n src dst) = 40"
  by (simp add: in_prefix_def length_padded_ip)

lemma read_in_prefix:
  assumes "sa_laws ops" "good_address ops src" "good_address ops dst" "36 \<le> n" "n < 2 ^ 32"
  shows "read_prefix ops m (in_prefix ops n src dst) =
    Some (if n > MAX_UDP_IN_PACKET_LENGTH then \<lparr>pk_id = NON_ID, payload_length = 0\<rparr>
          else \<lparr>pk_id = (case m_addr_to_id m \<lparr>ap_src = dst, ap_dst = Address src\<rparr> of
                            None \<Rightarrow> NON_ID | Some i \<Rightarrow> i),
                payload_length = n - 36\<rparr>)"
proof -
  have ip: "so_is_ip ops src" "so_is_ip ops dst" using assms by (simp_all add: good_address_def)
  have len: "length (in_prefix ops n src dst) = UDPPKT_IN_PREFIX_SIZE"
    using length_in_prefix [OF assms(1) ip] by (simp add: udp_sizes)
  have n: "unat (word_of_nat n :: u32) = n" using assms(5) by (simp add: unsigned_of_nat take_bit_nat_eq_self)
  have last: "get_u16 (bytes_of_u16 v) = Some (v, [])" for v using get_u16_put [of v "[]"] by simp
  show ?thesis
    using assms(2-4) padded_ip_ok [OF assms(1) ip(1)] padded_ip_ok [OF assms(1) ip(2)]
    unfolding read_prefix_def if_not_P [OF not_not [THEN iffD2, OF len]]
    by (simp add: in_prefix_def wire_simps last n good_address_def udp_sizes
        set_port_back [OF assms(1) ip(1)] set_port_back [OF assms(1) ip(2)])
qed

lemma idle_prefix_step:
  assumes "m_recv_connection m = recv_init" "length pre = 40" "read_prefix ops m pre = Some info"
  shows "process_loop ops now m pre =
    Some (m\<lparr>m_recv_connection :=
            (if drop_packet info m then recv_init\<lparr>rc_state := RCS_DROPPING\<rparr>
             else recv_init\<lparr>rc_state := RCS_PAYLOAD, rc_id := pk_id info\<rparr>)\<lparr>bytes_left := payload_length info\<rparr>\<rparr>, [])"
    (is "_ = Some (?m1, [])")
proof -
  have "read_step ops now m pre = Some (?m1, [], [])"
    using assms by (simp add: read_step_def read_idle_def Let_def recv_init_def udp_sizes)
  moreover have "pre \<noteq> []" using assms(2) by auto
  ultimately show ?thesis
    by (simp add: process_loop.simps [of ops now m pre] process_loop.simps [of ops now ?m1 "[]"])
qed

lemma recv_ok_init: "m_recv_connection m = recv_init \<Longrightarrow> recv_ok m"
  by (simp add: recv_ok_def recv_init_def udp_sizes)

lemma set_recv_init: "m_recv_connection m = recv_init \<Longrightarrow> m\<lparr>m_recv_connection := recv_init\<rparr> = m"
  by (cases m) simp

lemma packet_dropped:
  assumes "m_recv_connection m = recv_init" "length payload = n" "payload \<noteq> []"
  shows "process_loop ops now (m\<lparr>m_recv_connection := recv_init\<lparr>rc_state := RCS_DROPPING, bytes_left := n\<rparr>\<rparr>) payload =
    Some (m, [])"
  using assms
  by (simp add: process_loop.simps [of ops now _ payload] read_step_def read_dropping_def Let_def set_recv_init
      process_loop.simps [of ops now _ "[]"])

lemma packet_received:
  assumes "m_recv_connection m = recv_init" "length payload = n" "payload \<noteq> []" "find_connection i m \<noteq> None"
  shows "process_loop ops now
      (m\<lparr>m_recv_connection := recv_init\<lparr>rc_state := RCS_PAYLOAD, rc_id := i, bytes_left := n\<rparr>\<rparr>) payload =
    Some (touch_connection now i m, [SERVER_EVENT_READ i payload])" (is "process_loop _ _ ?m _ = _")
proof -
  have "(touch_connection now i ?m)\<lparr>m_recv_connection := recv_init\<rparr> = touch_connection now i m"
    using assms(1) by (cases m) (simp add: touch_connection_def update_connection_def)
  then have "read_step ops now ?m payload =
      Some (touch_connection now i m, [SERVER_EVENT_READ i payload], [])"
    using assms by (simp add: read_step_def read_payload_def Let_def recv_init_def)
  then show ?thesis
    using assms(3) by (simp add: process_loop.simps [of ops now _ payload] process_loop.simps [of ops now _ "[]"])
qed

definition good_packet :: "'sa sa_ops \<Rightarrow> 'sa \<times> 'sa \<times> bytes \<Rightarrow> bool" where
  "good_packet ops p \<longleftrightarrow>
     (case p of (src, dst, payload) \<Rightarrow>
        good_address ops src \<and> good_address ops dst \<and> payload \<noteq> [] \<and> length payload \<le> MAX_UDP_PAYLOAD_SIZE)"

lemma one_packet:
  assumes "sa_laws ops" "m_recv_connection m = recv_init" "good_packet ops (src, dst, payload)"
  shows "process_loop ops now m (in_packet ops (src, dst, payload)) =
    Some (case packet_target m src dst of None \<Rightarrow> m | Some i \<Rightarrow> touch_connection now i m,
          delivered m (src, dst, payload))"
proof -
  let ?n = "length payload + 36"
  let ?pre = "in_prefix ops ?n src dst"
  let ?info = "\<lparr>pk_id = (case m_addr_to_id m \<lparr>ap_src = dst, ap_dst = Address src\<rparr> of None \<Rightarrow> NON_ID | Some i \<Rightarrow> i),
                payload_length = length payload\<rparr>"
  have good: "good_address ops src" "good_address ops dst" "payload \<noteq> []" "length payload \<le> 65527"
    using assms(3) by (simp_all add: good_packet_def udp_sizes)
  have info: "read_prefix ops m ?pre = Some ?info"
    using read_in_prefix [OF assms(1) good(1,2), of ?n m] good(4) by (simp add: udp_sizes)
  have pre: "length ?pre = 40"
    using good(1,2) by (simp add: length_in_prefix [OF assms(1)] good_address_def)
  have drop: "drop_packet ?info m \<longleftrightarrow> packet_target m src dst = None"
    by (auto simp: drop_packet_def packet_target_def split: option.splits)
  have target: "packet_target m src dst = Some i \<Longrightarrow> pk_id ?info = i \<and> find_connection i m \<noteq> None" for i
    by (auto simp: packet_target_def split: option.splits if_splits)
  have first: "process_loop ops now m ?pre =
      Some (m\<lparr>m_recv_connection :=
              (if packet_target m src dst = None then recv_init\<lparr>rc_state := RCS_DROPPING\<rparr>
               else recv_init\<lparr>rc_state := RCS_PAYLOAD, rc_id := pk_id ?info\<rparr>)
                 \<lparr>bytes_left := length payload\<rparr>\<rparr>, [])"
    using idle_prefix_step [OF assms(2) pre info, of now] by (simp add: drop)
  show ?thesis
  proof (cases "packet_target m src dst")
    case None
    then show ?thesis
      using packet_dropped [OF assms(2) refl good(3), of ops now] first
      by (simp add: in_packet_def delivered_def process_loop_append [OF recv_ok_init [OF assms(2)]])
  next
    case (Some i)
    then show ?thesis
      using packet_received [OF assms(2) refl good(3), of i ops now] first target [OF Some]
      by (simp add: in_packet_def delivered_def process_loop_append [OF recv_ok_init [OF assms(2)]])
  qed
qed

lemma packet_target_touch: "packet_target (touch_connection now i m) = packet_target m"
  by (auto simp: packet_target_def fun_eq_iff touch_connection_def split: option.splits)

lemma delivered_touch: "delivered (touch_connection now i m) = delivered m"
  by (simp add: delivered_def packet_target_touch fun_eq_iff)

lemma packets_delivered:
  "sa_laws ops \<Longrightarrow> m_recv_connection m = recv_init \<Longrightarrow> \<forall>p \<in> set ps. good_packet ops p \<Longrightarrow>
   \<exists>m'. process_loop ops now m (concat (map (in_packet ops) ps)) = Some (m', concat (map (delivered m) ps)) \<and>
     m_recv_connection m' = recv_init"
proof (induction ps arbitrary: m)
  case Nil
  then show ?case by (simp add: process_loop.simps)
next
  case (Cons p ps)
  obtain src dst payload where p: "p = (src, dst, payload)" by (cases p) auto
  let ?m1 = "case packet_target m src dst of None \<Rightarrow> m | Some i \<Rightarrow> touch_connection now i m"
  have m1: "m_recv_connection ?m1 = recv_init" "delivered ?m1 = delivered m"
    using Cons.prems(2) by (auto simp: delivered_touch split: option.splits)
  obtain m' where "process_loop ops now ?m1 (concat (map (in_packet ops) ps)) =
      Some (m', concat (map (delivered m) ps))" "m_recv_connection m' = recv_init"
    using Cons.IH [OF Cons.prems(1) m1(1)] Cons.prems(3) m1(2) by auto
  moreover have "process_loop ops now m (in_packet ops p) = Some (?m1, delivered m p)"
    using one_packet [OF Cons.prems(1,2), of src dst payload now] Cons.prems(3) p by auto
  ultimately show ?case by (simp add: process_loop_append [OF recv_ok_init [OF Cons.prems(2)]])
qed

text \<open>
  Claim C14: datagrams are delivered exactly, in order and to the right connection, however the
  stream is cut. When the receiver is between packets and the stream is any sequence of packets
  of the endpoint with a payload of at most the largest size, any division of the stream into
  reads raises for each packet, in order, one read event with its payload for the connection
  registered for the reversed address pair if it is open for reading, raises nothing for the
  other packets, and leaves the receiver between packets.
\<close>

theorem datagrams_delivered:
  assumes "sa_laws ops" "m_recv_connection m = recv_init" "\<forall>p \<in> set ps. good_packet ops p"
    and "concat chunks = concat (map (in_packet ops) ps)"
  shows "\<exists>m'. feed (process_loop ops now) m chunks = Some (m', concat (map (delivered m) ps)) \<and>
           m_recv_connection m' = recv_init"
  using packets_delivered [OF assms(1-3), of now] by (simp add: um.feed_concat [OF recv_ok_init [OF assms(2)]] assms(4))

text \<open>A multiplexer with one connection, and a packet for it that arrives in three pieces.\<close>

definition sample_pair :: "(bytes \<times> u16) TunnelAddressPair" where
  "sample_pair = \<lparr>ap_src = ([10, 0, 0, 2], 4000), ap_dst = Address ([192, 0, 2, 1], 53)\<rparr>"

definition sample_mux :: "(bytes \<times> u16) HttpUdpMultiplexer" where
  "sample_mux =
     set_read_enabled 5 True (fst (complete_udp_connection 5
       (case open_connection (Some 8) 0 5 sample_pair [] udp_mux_new of Some (_, m, _) \<Rightarrow> m | None \<Rightarrow> udp_mux_new)))"

definition sample_packet :: "(bytes \<times> u16) \<times> (bytes \<times> u16) \<times> bytes" where
  "sample_packet = (([192, 0, 2, 1], 53), ([10, 0, 0, 2], 4000), [1, 2, 3])"

lemma sample_mux_facts:
  "m_recv_connection sample_mux = recv_init" "m_state sample_mux = MS_ESTABLISHED" "m_stream_id sample_mux = 8"
  "m_addr_to_id sample_mux = [sample_pair \<mapsto> 5]"
  "m_connections sample_mux =
     [(5, \<lparr>read_enabled = True, cn_addr = sample_pair, cn_app_name = [], sent_bytes_since_flush = 0,
           cn_timeout = udp_deadline 0, open_task_id = False, close_task_id = False\<rparr>)]"
  by (simp_all add: sample_mux_def udp_mux_new_def open_connection_def sample_pair_def find_connection_def
      add_connection_def complete_udp_connection_def update_connection_def set_read_enabled_def)

lemma sample_delivered: "delivered sample_mux sample_packet = [SERVER_EVENT_READ 5 [1, 2, 3]]"
  by (simp add: delivered_def sample_packet_def packet_target_def sample_mux_facts sample_pair_def find_connection_def
      NON_ID_def)

lemma sample_good: "good_packet plain_ops sample_packet"
  by (simp add: good_packet_def sample_packet_def good_address_def so_is_ip_def plain_ops_def ambiguous_ip_def
      udp_sizes)

theorem datagrams_delivered_witness:
  "\<exists>m'. feed (process_loop plain_ops 0) sample_mux
          [take 7 (in_packet plain_ops sample_packet), take 34 (drop 7 (in_packet plain_ops sample_packet)),
           drop 41 (in_packet plain_ops sample_packet)] =
        Some (m', [SERVER_EVENT_READ 5 [1, 2, 3]])"
proof -
  let ?p = "in_packet plain_ops sample_packet"
  have cut: "concat [take 7 ?p, take 34 (drop 7 ?p), drop 41 ?p] = concat (map (in_packet plain_ops) [sample_packet])"
    using append_take_drop_id [of 34 "drop 7 ?p"] append_take_drop_id [of 7 ?p] by simp
  have "\<forall>p \<in> set [sample_packet]. good_packet plain_ops p" by (simp add: sample_good)
  from datagrams_delivered [OF plain_ops_laws sample_mux_facts(1) this cut, of 0] show ?thesis
    by (auto simp: sample_delivered simp del: feed.simps)
qed

text \<open>
  Claim C16: a packet that is announced as longer than the largest datagram is not skipped. Only
  its prefix is discarded: the bytes after it, its payload, are read as new packets, exactly as
  if the stream started with them.
\<close>

theorem oversized_payload_reread:
  assumes "sa_laws ops" "m_recv_connection m = recv_init" "good_address ops src" "good_address ops dst"
    and "MAX_UDP_IN_PACKET_LENGTH < n" "n < 2 ^ 32" "rest \<noteq> []"
  shows "process_loop ops now m (in_prefix ops n src dst @ rest) = process_loop ops now m rest"
proof -
  let ?d = "m\<lparr>m_recv_connection := recv_init\<lparr>rc_state := RCS_DROPPING, bytes_left := 0\<rparr>\<rparr>"
  have len: "length (in_prefix ops n src dst) = 40"
    using assms(3,4) by (simp add: length_in_prefix [OF assms(1)] good_address_def)
  have info: "read_prefix ops m (in_prefix ops n src dst) = Some \<lparr>pk_id = NON_ID, payload_length = 0\<rparr>"
    using read_in_prefix [OF assms(1,3,4) _ assms(6), of m] assms(5) by (simp add: udp_sizes)
  have "process_loop ops now m (in_prefix ops n src dst) = Some (?d, [])"
    using idle_prefix_step [OF assms(2) len info, of now] by (simp add: drop_packet_def)
  moreover have "process_loop ops now ?d rest = process_loop ops now m rest"
    using assms(7) set_recv_init [OF assms(2)]
    by (cases "process_loop ops now m rest")
      (simp_all add: process_loop.simps [of ops now ?d rest] read_step_def read_dropping_def Let_def)
  ultimately show ?thesis
    by (cases "process_loop ops now m rest") (simp_all add: process_loop_append [OF recv_ok_init [OF assms(2)]])
qed

theorem oversized_payload_reread_witness:
  "\<exists>m'. process_loop plain_ops 0 sample_mux
          (in_prefix plain_ops 70000 ([198, 51, 100, 7], 9) ([10, 0, 0, 2], 4001) @ in_packet plain_ops sample_packet) =
        Some (m', [SERVER_EVENT_READ 5 [1, 2, 3]])"
proof -
  have good: "good_address plain_ops ([198, 51, 100, 7], 9)" "good_address plain_ops ([10, 0, 0, 2], 4001)"
    by (simp_all add: good_address_def so_is_ip_def plain_ops_def ambiguous_ip_def)
  have rest: "in_packet plain_ops sample_packet \<noteq> []" by (simp add: in_packet_def sample_packet_def)
  show ?thesis
    using oversized_payload_reread [OF plain_ops_laws sample_mux_facts(1) good _ _ rest, of 70000 0]
      packets_delivered [OF plain_ops_laws sample_mux_facts(1), of "[sample_packet]" 0]
    by (auto simp: udp_sizes sample_good sample_delivered)
qed

section \<open>Outgoing packets\<close>

text \<open>A reader of the outgoing format as the header file documents it.\<close>

definition parse_out :: "'sa sa_ops \<Rightarrow> bytes \<Rightarrow> ('sa \<times> 'sa \<times> bytes \<times> bytes) option" where
  "parse_out ops p =
     do {
       (len, r) \<leftarrow> get_u32 p;
       if unat len \<noteq> length r then None
       else do {
         (src, r) \<leftarrow> get_ip_padded ops r;
         (src_port, r) \<leftarrow> get_u16 r;
         (dst, r) \<leftarrow> get_ip_padded ops r;
         (dst_port, r) \<leftarrow> get_u16 r;
         (n, r) \<leftarrow> get_u8 r;
         (app, payload) \<leftarrow> get_bytes (unat n) r;
         Some (so_set_port ops src_port src, so_set_port ops dst_port dst, app, payload)
       }
     }"

lemma compose_bytes:
  assumes "sa_laws ops" "so_is_ip ops src" "so_is_ip ops dst"
  shows "compose_udp_packet ops src dst app data =
    Some (bytes_of_u32 (word_of_nat (37 + length app + length data)) @ padded_ip ops src @
          bytes_of_u16 (so_port ops src) @ padded_ip ops dst @ bytes_of_u16 (so_port ops dst) @
          [word_of_nat (min 255 (length app))] @ take 255 app @ data @ replicate (length app - 255) 0)"
proof -
  have "length (padded_ip ops src) = 16" "length (padded_ip ops dst) = 16"
    using assms by (simp_all add: length_padded_ip)
  moreover have "length (take 255 app) \<le> length app + length data"
    "length app + length data - length (take 255 app) - length data = length app - 255" by simp_all
  ultimately show ?thesis
    by (simp add: compose_udp_packet_def Let_def udp_sizes writer_new_def put_u32_def put_u16_def put_u8_def
        put_data_zeros put_byte_zeros put_ip_zeros writer_buffer_def min.commute add.assoc del: of_nat_add)
qed

text \<open>
  Claim C17: a reader of the documented format gets back what was sent. The addresses and the
  payload survive and the length field matches; an application name is cut to 255 bytes, and
  then the payload that the reader sees ends with as many zero bytes as were cut off.
\<close>

theorem outgoing_packet_roundtrip:
  assumes "sa_laws ops" "good_address ops src" "good_address ops dst" "37 + length app + length data < 2 ^ 32"
  shows "\<exists>p. compose_udp_packet ops src dst app data = Some p \<and>
           parse_out ops p = Some (src, dst, take 255 app, data @ replicate (length app - 255) 0)"
proof -
  have ip: "so_is_ip ops src" "so_is_ip ops dst" using assms by (simp_all add: good_address_def)
  have len: "unat (word_of_nat (37 + length app + length data) :: u32) = 37 + length app + length data"
    using assms(4) by (simp add: unsigned_of_nat take_bit_nat_eq_self del: of_nat_add)
  have n: "unat (word_of_nat (min 255 (length app)) :: byte) = length (take 255 app)"
    by (simp add: unsigned_of_nat take_bit_nat_eq_self min.commute)
  have cut: "get_bytes (length (take 255 app)) (take 255 app @ r) = Some (take 255 app, r)" for r
    using take_min_length [of 255 app] by (simp add: get_bytes_def min.commute)
  have total: "length (take 255 app) + (length app - 255) = length app" by simp
  show ?thesis
    using assms(2,3) padded_ip_ok [OF assms(1) ip(1)] padded_ip_ok [OF assms(1) ip(2)] total
    by (simp add: compose_bytes [OF assms(1) ip] parse_out_def wire_simps len n cut
        length_padded_ip [OF assms(1)] ip good_address_def
        set_port_back [OF assms(1) ip(1)] set_port_back [OF assms(1) ip(2)] del: length_take of_nat_add)
qed

theorem outgoing_packet_roundtrip_witness:
  "\<exists>p. compose_udp_packet plain_ops ([10, 0, 0, 2], 4000) ([192, 0, 2, 1], 53) (replicate 256 97) [1] = Some p \<and>
       parse_out plain_ops p = Some (([10, 0, 0, 2], 4000), ([192, 0, 2, 1], 53), replicate 255 97, [1, 0])"
  using outgoing_packet_roundtrip [OF plain_ops_laws, of "([10, 0, 0, 2], 4000)" "([192, 0, 2, 1], 53)"
      "replicate 256 97" "[1]"]
  by (simp add: good_address_def so_is_ip_def plain_ops_def ambiguous_ip_def)

section \<open>The life of connections\<close>

lemma clean_connections:
  "m_connections (snd (clean_connection_data i m)) = filter (\<lambda>(k, c). k \<noteq> i) (m_connections m)"
proof (cases "find_connection i m")
  case None
  then have "filter (\<lambda>(k, c). k \<noteq> i) (m_connections m) = m_connections m"
    by (force simp: filter_id_conv find_connection_def map_of_eq_None_iff)
  then show ?thesis using None by (simp add: clean_connection_data_def)
qed (simp add: clean_connection_data_def)

lemma clean_fields [simp]:
  "m_state (snd (clean_connection_data i m)) = m_state m"
  "m_stream_id (snd (clean_connection_data i m)) = m_stream_id m"
  "m_pending_error (snd (clean_connection_data i m)) = m_pending_error m"
  by (auto simp: clean_connection_data_def split: option.splits)

lemma close_all_effect:
  "snd (close_all e is m) = map (\<lambda>i. Handler (close_event e i)) is"
  "m_connections (fst (close_all e is m)) = filter (\<lambda>(k, c). k \<notin> set is) (m_connections m)"
  "m_pending_error (fst (close_all e is m)) = m_pending_error m"
  by (induction "is" arbitrary: m) (auto simp: case_prod_beta Let_def clean_connections intro: filter_cong)

text \<open>
  closing the multiplexer ends every connection with exactly one event, an error when
  one is pending or given and a normal close otherwise, and leaves it idle and empty. The
  pending error itself is kept: connections of the next stream that ends normally are reported
  with the error of this one.
\<close>

theorem close_ends_every_connection:
  "let (m', out) = udp_close e m;
       error = (if m_pending_error m = None \<and> code (se_error e) \<noteq> 0 then Some e else m_pending_error m)
   in out = map (\<lambda>(i, c). Handler (close_event error i)) (m_connections m) \<and>
      m_connections m' = [] \<and> m_state m' = MS_IDLE \<and> m_addr_to_id m' = Map.empty \<and>
      m_recv_connection m' = recv_init \<and> m_pending_error m' = m_pending_error m"
proof -
  have "filter (\<lambda>(k, c). k \<notin> fst ` set (m_connections m)) (m_connections m) = []"
    by (auto simp: filter_empty_conv image_iff)
  then show ?thesis
    by (simp add: udp_close_def Let_def case_prod_beta udp_reset_def close_all_effect comp_def)
qed

lemma expire_all_effect:
  "distinct (map fst xs) \<Longrightarrow>
   snd (expire_all now xs m) =
     map (\<lambda>(i, c). Handler (SERVER_EVENT_CONNECTION_CLOSED i)) (filter (\<lambda>(i, c). cn_timeout c \<le> now) xs) \<and>
   m_connections (fst (expire_all now xs m)) =
     filter (\<lambda>(k, c). k \<notin> fst ` set (filter (\<lambda>(i, c). cn_timeout c \<le> now) xs)) (m_connections m)"
  by (induction xs arbitrary: m) (auto simp: case_prod_unfold Let_def clean_connections intro: filter_cong)

text \<open>
  the timer closes exactly the connections whose deadline has passed, each with one
  event, and keeps the others. Sending and receiving move the deadline of the connection to
  five minutes from now.
\<close>

theorem timer_closes_expired:
  assumes "distinct (map fst (m_connections m))"
  shows "let (m', out) = udp_timer_callback now m
    in out = map (\<lambda>(i, c). Handler (SERVER_EVENT_CONNECTION_CLOSED i))
               (filter (\<lambda>(i, c). cn_timeout c \<le> now) (m_connections m)) \<and>
       m_connections m' = filter (\<lambda>(i, c). now < cn_timeout c) (m_connections m)"
proof -
  let ?expired = "fst ` set (filter (\<lambda>(i, c). cn_timeout c \<le> now) (m_connections m))"
  have same: "k \<in> ?expired \<longleftrightarrow> cn_timeout c \<le> now" if "(k, c) \<in> set (m_connections m)" for k c
    using that assms by (force dest: eq_key_imp_eq_value)
  have "filter (\<lambda>(k, c). k \<notin> ?expired) (m_connections m) =
      filter (\<lambda>(i, c). now < cn_timeout c) (m_connections m)"
  proof (rule filter_cong [OF refl])
    fix x assume x: "x \<in> set (m_connections m)"
    obtain k c where kc: "x = (k, c)" by (cases x)
    show "(\<lambda>(k, c). k \<notin> ?expired) x = (\<lambda>(i, c). now < cn_timeout c) x"
      unfolding kc prod.case same [OF x [unfolded kc]] by (rule not_le)
  qed
  then show ?thesis
    using expire_all_effect [OF assms, of now m] by (simp add: udp_timer_callback_def case_prod_beta)
qed

theorem timer_closes_expired_witness:
  "snd (udp_timer_callback (udp_deadline 0) sample_mux) = [Handler (SERVER_EVENT_CONNECTION_CLOSED 5)] \<and>
   m_connections (fst (udp_timer_callback (udp_deadline 0) sample_mux)) = []"
  using timer_closes_expired [of sample_mux "udp_deadline 0"] by (simp add: sample_mux_facts case_prod_beta)

text \<open>
  Claim C18: closing an old connection cuts off a newer one. When two connections have the same
  address pair, closing one of them removes the only registration of the pair: the other one
  stays open, but every packet for it is dropped from then on.
\<close>

theorem stale_close_cuts_off:
  assumes "find_connection i m = Some c" "find_connection j m = Some d" "i \<noteq> j"
    and "cn_addr c = \<lparr>ap_src = dst, ap_dst = Address src\<rparr>" "cn_addr d = cn_addr c"
  shows "let m' = fst (close_connection i False m)
    in find_connection j m' = Some d \<and> packet_target m' src dst = None \<and> delivered m' (src, dst, payload) = []"
proof -
  have "map_of (filter (\<lambda>(k, c). k \<noteq> i) xs) j = map_of xs j" for xs :: "(u64 \<times> 'a Connection) list"
    using assms(3) by (induction xs) auto
  then show ?thesis
    using assms
    by (simp add: close_connection_def close_connection_now_def clean_connection_data_def Let_def
        find_connection_def packet_target_def delivered_def)
qed

definition sample_twice :: "(bytes \<times> u16) HttpUdpMultiplexer" where
  "sample_twice = fst (complete_udp_connection 6 (add_connection 1 6 sample_pair [] sample_mux))"

theorem stale_close_cuts_off_witness:
  "check_connection 6 (fst (close_connection 5 False sample_twice)) \<and>
   packet_target (fst (close_connection 5 False sample_twice)) ([192, 0, 2, 1], 53) ([10, 0, 0, 2], 4000) = None"
proof -
  have two: "\<exists>c. find_connection 5 sample_twice = Some c \<and> cn_addr c = sample_pair"
    "\<exists>d. find_connection 6 sample_twice = Some d \<and> cn_addr d = sample_pair"
    by (simp_all add: sample_twice_def complete_udp_connection_def add_connection_def find_connection_def
        sample_mux_facts update_connection_def)
  then obtain c d where "find_connection 5 sample_twice = Some c" "find_connection 6 sample_twice = Some d"
    "cn_addr c = sample_pair" "cn_addr d = cn_addr c" by auto
  then show ?thesis
    using stale_close_cuts_off [of 5 sample_twice c 6 d "([10, 0, 0, 2], 4000)" "([192, 0, 2, 1], 53)" "[]"]
    by (simp add: sample_pair_def check_connection_def Let_def)
qed

end
