(* ===== verification/Udp_Mux_Safety.thy ===== *)
theory Udp_Mux_Safety
  imports Udp_Mux_Properties
begin

text \<open>
  The steps of the UDP multiplexer, its invariant, and that no assertion of it can fail in a
  reachable state. A caller opens connections with fresh identifiers and IP addresses, and
  sends, reads and hands over the response only while a stream is open.
\<close>

definition valid_pair :: "'sa sa_ops \<Rightarrow> 'sa TunnelAddressPair \<Rightarrow> bool" where
  "valid_pair ops p \<longleftrightarrow>
     so_is_ip ops (ap_src p) \<and> (case ap_dst p of Address d \<Rightarrow> so_is_ip ops d | Name n \<Rightarrow> False)"

inductive udp_step :: "'sa sa_ops \<Rightarrow> 'sa HttpUdpMultiplexer \<Rightarrow> 'sa HttpUdpMultiplexer \<Rightarrow> bool" for ops where
  ustep_open: "valid_pair ops addr \<Longrightarrow> \<not> check_connection i m \<Longrightarrow>
    open_connection stream now i addr app m = Some (ok, m', out) \<Longrightarrow> udp_step ops m m'"
| ustep_complete: "udp_step ops m (fst (complete_udp_connection i m))"
| ustep_close_connection: "udp_step ops m (fst (close_connection i async m))"
| ustep_close_task: "udp_step ops m (fst (close_connection_now i m))"
| ustep_send: "m_state m = MS_ESTABLISHED \<Longrightarrow>
    udp_send ops r now i data m = Some (n, m', out) \<Longrightarrow> udp_step ops m m'"
| ustep_read: "m_state m = MS_ESTABLISHED \<Longrightarrow>
    process_read_event ops now data m = Some (m', out) \<Longrightarrow> udp_step ops m m'"
| ustep_timer: "udp_step ops m (fst (udp_timer_callback now m))"
| ustep_response: "handle_response e status m = Some m' \<Longrightarrow> udp_step ops m m'"
| ustep_report: "udp_step ops m (fst (report_sent_bytes m))"
| ustep_read_enabled: "udp_step ops m (set_read_enabled i v m)"
| ustep_close: "udp_step ops m (fst (udp_close e m))"
| ustep_reset: "udp_step ops m (udp_reset m)"

inductive udp_reachable :: "'sa sa_ops \<Rightarrow> 'sa HttpUdpMultiplexer \<Rightarrow> bool" for ops where
  ureach_new: "udp_reachable ops udp_mux_new"
| ureach_step: "udp_reachable ops m \<Longrightarrow> udp_step ops m m' \<Longrightarrow> udp_reachable ops m'"

definition conn_addr :: "'sa HttpUdpMultiplexer \<Rightarrow> u64 \<rightharpoonup> 'sa TunnelAddressPair" where
  "conn_addr m i = map_option cn_addr (find_connection i m)"

definition udp_inv :: "'sa sa_ops \<Rightarrow> 'sa HttpUdpMultiplexer \<Rightarrow> bool" where
  "udp_inv ops m \<longleftrightarrow>
     distinct (map fst (m_connections m)) \<and> recv_ok m \<and>
     (\<forall>i a. conn_addr m i = Some a \<longrightarrow> valid_pair ops a) \<and>
     (\<forall>a i. m_addr_to_id m a = Some i \<longrightarrow> conn_addr m i = Some a) \<and>
     (m_state m = MS_IDLE \<longrightarrow> m_stream_id m = 0)"

lemma find_None_conn_addr: "find_connection i m = None \<longleftrightarrow> conn_addr m i = None"
  by (simp add: conn_addr_def)

lemma recv_ok_same:
  "recv_ok m \<Longrightarrow> m_recv_connection m' = m_recv_connection m \<Longrightarrow> conn_addr m' = conn_addr m \<Longrightarrow> recv_ok m'"
  by (auto simp: recv_ok_def find_None_conn_addr split: RecvConnectionState.splits)

lemma udp_inv_same:
  assumes "udp_inv ops m" "map fst (m_connections m') = map fst (m_connections m)" "conn_addr m' = conn_addr m"
    "m_recv_connection m' = m_recv_connection m" "m_addr_to_id m' = m_addr_to_id m"
    "m_state m' = m_state m" "m_stream_id m' = m_stream_id m"
  shows "udp_inv ops m'"
  using assms recv_ok_same [of m m'] unfolding udp_inv_def by simp

lemma conn_addr_update:
  assumes "\<And>c. cn_addr (f c) = cn_addr c"
  shows "conn_addr (update_connection i f m) = conn_addr m"
proof
  show "conn_addr (update_connection i f m) j = conn_addr m j" for j
    using assms by (cases "find_connection j m") (auto simp: conn_addr_def)
qed

lemma conn_addr_other:
  "conn_addr (m\<lparr>m_addr_to_id := x\<rparr>) = conn_addr m" "conn_addr (m\<lparr>m_pending_error := y\<rparr>) = conn_addr m"
  by (simp_all add: conn_addr_def find_connection_def fun_eq_iff)

lemma udp_inv_update:
  assumes "udp_inv ops m" "\<And>c. cn_addr (f c) = cn_addr c"
  shows "udp_inv ops (update_connection i f m)"
  using assms(1) by (rule udp_inv_same) (simp_all add: conn_addr_update assms(2))

lemma udp_inv_recv:
  "udp_inv ops m \<Longrightarrow> recv_ok (m\<lparr>m_recv_connection := rc\<rparr>) \<Longrightarrow> udp_inv ops (m\<lparr>m_recv_connection := rc\<rparr>)"
  by (simp add: udp_inv_def conn_addr_def)

lemma map_of_filter_key: "map_of (filter (\<lambda>(k, c). k \<noteq> i) xs) j = (if j = i then None else map_of xs j)"
  by (induction xs) auto

lemma conn_addr_clean: "conn_addr (snd (clean_connection_data i m)) = (conn_addr m)(i := None)"
  by (auto simp: conn_addr_def fun_eq_iff find_connection_def clean_connections map_of_filter_key)

lemma recv_ok_clean: "recv_ok m \<Longrightarrow> recv_ok (snd (clean_connection_data i m))"
  by (auto simp: recv_ok_def clean_connection_data_def find_connection_def map_of_filter_key
      split: RecvConnectionState.splits option.splits)

lemma udp_inv_clean:
  assumes "udp_inv ops m"
  shows "udp_inv ops (snd (clean_connection_data i m))"
proof -
  let ?m = "snd (clean_connection_data i m)"
  have "distinct (map fst (m_connections ?m))"
    using assms by (auto simp: udp_inv_def clean_connections intro: distinct_map_filter)
  moreover have "conn_addr ?m j = Some a" if "m_addr_to_id ?m a = Some j" for a j
  proof -
    from that have "m_addr_to_id m a = Some j" "conn_addr m i \<noteq> Some a"
      by (auto simp: clean_connection_data_def conn_addr_def split: option.splits if_splits)
    with assms have "conn_addr m j = Some a" "j \<noteq> i" by (auto simp: udp_inv_def)
    then show ?thesis by (simp add: conn_addr_clean)
  qed
  ultimately show ?thesis
    using assms recv_ok_clean [of m i] by (simp add: udp_inv_def conn_addr_clean)
qed

lemma udp_inv_reset: "udp_inv ops m \<Longrightarrow> udp_inv ops (udp_reset m)"
  by (simp add: udp_inv_def udp_reset_def recv_ok_def recv_init_def udp_sizes conn_addr_def find_connection_def)

lemma udp_inv_close_all: "udp_inv ops m \<Longrightarrow> udp_inv ops (fst (close_all e is m))"
  by (induction "is" arbitrary: m) (simp_all add: case_prod_beta Let_def udp_inv_clean)

lemma udp_inv_expire_all: "udp_inv ops m \<Longrightarrow> udp_inv ops (fst (expire_all now xs m))"
  by (induction xs arbitrary: m) (simp_all add: case_prod_beta Let_def udp_inv_clean)

lemma read_step_shape:
  assumes "read_step ops now m data = Some (m', es, rest)"
  shows "\<exists>rc n i. m' = (touch_connection n i m)\<lparr>m_recv_connection := rc\<rparr> \<or> m' = m\<lparr>m_recv_connection := rc\<rparr>"
proof (cases "rc_state (m_recv_connection m)")
  case RCS_IDLE
  then show ?thesis
    using assms by (auto simp: read_step_def read_idle_def Let_def bind_eq_Some_conv split: if_splits)
next
  case RCS_PAYLOAD
  then show ?thesis
    using assms by (auto simp: read_step_def read_payload_def Let_def split: if_splits)
next
  case RCS_DROPPING
  then show ?thesis
    using assms by (auto simp: read_step_def read_dropping_def Let_def)
qed

lemma udp_inv_read_step:
  assumes "udp_inv ops m" "read_step ops now m data = Some (m', es, rest)"
  shows "udp_inv ops m'"
proof -
  have ok: "recv_ok m'" using read_step_total [of m ops now data] assms by (auto simp: udp_inv_def)
  have touched: "udp_inv ops (touch_connection n i m)" for n i
    using assms(1) by (simp add: touch_connection_def udp_inv_update)
  show ?thesis using read_step_shape [OF assms(2)] ok assms(1) touched by (auto intro: udp_inv_recv)
qed

lemma udp_inv_process_loop:
  "udp_inv ops m \<Longrightarrow> process_loop ops now m data = Some (m', es) \<Longrightarrow> udp_inv ops m'"
proof (induction ops now m data arbitrary: es rule: process_loop.induct)
  case (1 ops now m data)
  show ?case
  proof (cases "data = []")
    case True
    then show ?thesis using "1.prems" by (simp add: process_loop.simps)
  next
    case False
    then obtain m1 e1 rest e2 where step: "read_step ops now m data = Some (m1, e1, rest)"
      "process_loop ops now m1 rest = Some (m', e2)"
      using "1.prems"(2) by (auto simp: process_loop.simps [of ops now m data] bind_eq_Some_conv)
    show ?thesis
      using "1.IH" [OF False step(1) refl refl udp_inv_read_step [OF "1.prems"(1) step(1)] step(2)] .
  qed
qed

lemma udp_inv_add:
  assumes "udp_inv ops m" "valid_pair ops addr" "find_connection i m = None"
  shows "udp_inv ops (add_connection now i addr app (m\<lparr>m_stream_id := s, m_state := MS_ESTABLISHED\<rparr>))" (is "udp_inv ops ?m")
proof -
  have fresh: "i \<notin> fst ` set (m_connections m)"
    using assms(3) by (simp add: find_connection_def map_of_eq_None_iff)
  have conn: "conn_addr ?m = (conn_addr m)(i \<mapsto> addr)"
  proof
    show "conn_addr ?m j = ((conn_addr m)(i \<mapsto> addr)) j" for j
      using assms(3)
      by (cases "map_of (m_connections m) j") (auto simp: conn_addr_def find_connection_def add_connection_def map_add_def)
  qed
  have "recv_ok ?m"
    using assms(1) conn
    by (auto simp: udp_inv_def recv_ok_def find_None_conn_addr add_connection_def split: RecvConnectionState.splits)
  then show ?thesis
    using assms fresh conn by (auto simp: udp_inv_def add_connection_def find_None_conn_addr)
qed

lemma udp_inv_open:
  assumes "udp_inv ops m" "valid_pair ops addr" "\<not> check_connection i m"
    and "open_connection stream now i addr app m = Some (ok, m', out)"
  shows "udp_inv ops m'"
proof -
  note add = udp_inv_add [OF assms(1,2), of i now app]
  have none: "find_connection i m = None" using assms(3) by (simp add: check_connection_def)
  have est: "udp_inv ops (add_connection now i addr app m)" if "m_state m = MS_ESTABLISHED"
  proof -
    have "m\<lparr>m_stream_id := m_stream_id m, m_state := MS_ESTABLISHED\<rparr> = m" using that by (cases m) simp
    then show ?thesis using add [OF none, of "m_stream_id m"] by (simp only:)
  qed
  show ?thesis
    using assms(1,4) add [OF none] est none
    by (auto simp: open_connection_def split: TunnelAddress.splits MultiplexerState.splits option.splits if_splits)
qed

lemma udp_inv_complete:
  assumes "udp_inv ops m"
  shows "udp_inv ops (fst (complete_udp_connection i m))"
proof (cases "m_state m = MS_ESTABLISHED \<and> find_connection i m \<noteq> None")
  case True
  then obtain c where c: "find_connection i m = Some c" by auto
  let ?u = "update_connection i (\<lambda>c. c\<lparr>open_task_id := False\<rparr>) m"
  have u: "udp_inv ops ?u" by (rule udp_inv_update [OF assms]) simp
  have same: "conn_addr ?u = conn_addr m" by (rule conn_addr_update) simp
  let ?w = "?u\<lparr>m_addr_to_id := (m_addr_to_id m)(cn_addr c \<mapsto> i)\<rparr>"
  have conn: "conn_addr ?w = conn_addr m" unfolding conn_addr_other(1) by (rule same)
  have own: "conn_addr m i = Some (cn_addr c)" using c by (simp add: conn_addr_def)
  have ok: "recv_ok ?w"
  proof (rule recv_ok_same [of m])
    show "recv_ok m" using assms by (simp add: udp_inv_def)
  qed (rule conn | simp)+
  have "udp_inv ops ?w"
  proof -
    have "distinct (map fst (m_connections ?w))" using assms by (simp add: udp_inv_def)
    moreover have "conn_addr m j = Some a" if "m_addr_to_id ?w a = Some j" for a j
      using that own assms by (cases "a = cn_addr c") (auto simp: udp_inv_def)
    ultimately show ?thesis using ok assms True unfolding udp_inv_def conn by auto
  qed
  then show ?thesis using c True by (simp add: complete_udp_connection_def)
qed (use assms in \<open>auto simp: complete_udp_connection_def\<close>)

lemma udp_inv_report:
  assumes "udp_inv ops m"
  shows "udp_inv ops (fst (report_sent_bytes m))"
proof -
  have "map_of (map (\<lambda>(k, c). (k, c\<lparr>sent_bytes_since_flush := 0\<rparr>)) xs) j =
      map_option (\<lambda>c. c\<lparr>sent_bytes_since_flush := 0\<rparr>) (map_of xs j)" for xs :: "(u64 \<times> 'a Connection) list" and j
    by (induction xs) auto
  then have "conn_addr (fst (report_sent_bytes m)) = conn_addr m"
    by (simp add: conn_addr_def report_sent_bytes_def find_connection_def fun_eq_iff option.map_comp comp_def)
  then show ?thesis
    by (rule udp_inv_same [OF assms, rotated]) (simp_all add: report_sent_bytes_def comp_def case_prod_unfold)
qed

lemma udp_inv_response: "udp_inv ops m \<Longrightarrow> handle_response e status m = Some m' \<Longrightarrow> udp_inv ops m'"
  by (auto simp: handle_response_def conn_addr_other split: if_splits elim!: udp_inv_same)

lemma udp_inv_send: "udp_inv ops m \<Longrightarrow> udp_send ops r now i data m = Some (n, m', out) \<Longrightarrow> udp_inv ops m'"
  by (auto simp: udp_send_def bind_eq_Some_conv intro: udp_inv_update
      split: option.splits TunnelAddress.splits if_splits)

lemma udp_inv_close_connection: "udp_inv ops m \<Longrightarrow> udp_inv ops (fst (close_connection_now i m))"
  by (simp add: close_connection_now_def case_prod_beta udp_inv_clean)

lemma udp_inv_close: "udp_inv ops m \<Longrightarrow> udp_inv ops (fst (udp_close e m))"
  unfolding udp_close_def Let_def by (auto simp: case_prod_beta intro: udp_inv_reset udp_inv_close_all)

lemma udp_inv_close_async: "udp_inv ops m \<Longrightarrow> udp_inv ops (fst (close_connection i async m))"
  unfolding close_connection_def by (auto intro: udp_inv_close_connection udp_inv_update)

lemma udp_inv_read: "udp_inv ops m \<Longrightarrow> process_read_event ops now data m = Some (m', out) \<Longrightarrow> udp_inv ops m'"
  by (auto simp: process_read_event_def bind_eq_Some_conv intro: udp_inv_process_loop split: if_splits)

lemma udp_inv_read_enabled: "udp_inv ops m \<Longrightarrow> udp_inv ops (set_read_enabled i v m)"
  unfolding set_read_enabled_def by (erule udp_inv_update) simp

lemma udp_inv_timer: "udp_inv ops m \<Longrightarrow> udp_inv ops (fst (udp_timer_callback now m))"
  unfolding udp_timer_callback_def by (rule udp_inv_expire_all)

lemmas udp_inv_ops = udp_inv_open udp_inv_complete udp_inv_close_async udp_inv_close_connection udp_inv_send
  udp_inv_read udp_inv_timer udp_inv_response udp_inv_report udp_inv_read_enabled udp_inv_close udp_inv_reset

lemma udp_inv_step: "udp_step ops m m' \<Longrightarrow> udp_inv ops m \<Longrightarrow> udp_inv ops m'"
  by (induction rule: udp_step.induct) (blast intro: udp_inv_ops)+

lemma udp_inv_reachable: "udp_reachable ops m \<Longrightarrow> udp_inv ops m"
proof (induction rule: udp_reachable.induct)
  case ureach_new
  show ?case
    by (simp add: udp_inv_def udp_mux_new_def recv_ok_def recv_init_def udp_sizes conn_addr_def find_connection_def)
qed (rule udp_inv_step)

text \<open>
  Claim C15: no assertion of the multiplexer fails. In every state that the steps reach, reading
  any data from an open stream ends with the data consumed and reported as consumed, sending on
  any identifier returns, and opening a connection with a fresh identifier and IP addresses
  returns; the connection of a packet that is being received exists, and every registered
  address pair is the pair of the connection it stands for.
\<close>

theorem udp_mux_no_assert:
  assumes "sa_laws ops" "udp_reachable ops m"
  shows "(m_state m = MS_ESTABLISHED \<longrightarrow>
            (\<exists>m' es. process_read_event ops now data m =
                      Some (m', map Handler es @ [Consume (m_stream_id m) (length data)])) \<and>
            udp_send ops r now i data m \<noteq> None) \<and>
         (valid_pair ops addr \<and> \<not> check_connection i m \<longrightarrow> open_connection stream now i addr app m \<noteq> None) \<and>
         (\<forall>a j. m_addr_to_id m a = Some j \<longrightarrow> (\<exists>c. find_connection j m = Some c \<and> cn_addr c = a))"
proof -
  have inv: "udp_inv ops m" using udp_inv_reachable [OF assms(2)] .
  have read: "\<exists>m' es. process_read_event ops now data m =
      Some (m', map Handler es @ [Consume (m_stream_id m) (length data)])" if "m_state m = MS_ESTABLISHED"
    using that inv process_loop_total [of m ops now data] by (auto simp: udp_inv_def process_read_event_def)
  have send: "udp_send ops r now i data m \<noteq> None" if "m_state m = MS_ESTABLISHED"
  proof (cases "find_connection i m")
    case (Some c)
    then have "conn_addr m i = Some (cn_addr c)" by (simp add: conn_addr_def)
    then have "valid_pair ops (cn_addr c)" using inv unfolding udp_inv_def by blast
    then obtain d where "ap_dst (cn_addr c) = Address d" "so_is_ip ops (ap_src (cn_addr c))" "so_is_ip ops d"
      by (auto simp: valid_pair_def split: TunnelAddress.splits)
    with Some that compose_bytes [OF assms(1)] show ?thesis by (simp add: udp_send_def)
  qed (use that in \<open>simp add: udp_send_def\<close>)
  have stream: "m_state m = MS_IDLE \<Longrightarrow> m_stream_id m = 0" using inv by (simp add: udp_inv_def)
  have "open_connection stream now i addr app m \<noteq> None" if "valid_pair ops addr" "\<not> check_connection i m"
    using that stream
    by (auto simp: open_connection_def valid_pair_def check_connection_def
        split: TunnelAddress.splits MultiplexerState.splits option.splits)
  moreover have "\<exists>c. find_connection j m = Some c \<and> cn_addr c = a" if "m_addr_to_id m a = Some j" for a j
  proof -
    have "conn_addr m j = Some a" using that inv unfolding udp_inv_def by blast
    then show ?thesis by (auto simp: conn_addr_def)
  qed
  ultimately show ?thesis using read send by blast
qed

lemma sample_mux_reachable: "udp_reachable plain_ops sample_mux"
proof -
  obtain m out where m: "open_connection (Some 8) 0 5 sample_pair [] udp_mux_new = Some (True, m, out)"
    by (simp add: open_connection_def sample_pair_def udp_mux_new_def find_connection_def)
  have "udp_step plain_ops udp_mux_new m"
    by (rule ustep_open [OF _ _ m])
      (simp_all add: valid_pair_def sample_pair_def so_is_ip_def plain_ops_def check_connection_def find_connection_def
        udp_mux_new_def)
  then have "udp_reachable plain_ops (fst (complete_udp_connection 5 m))"
    by (blast intro: ureach_new ureach_step ustep_complete)
  then show ?thesis
    unfolding sample_mux_def m option.case prod.case by (rule ureach_step [OF _ ustep_read_enabled])
qed

theorem udp_mux_no_assert_witness:
  "\<exists>m' es. process_read_event plain_ops 0 [1, 2, 3] sample_mux = Some (m', map Handler es @ [Consume 8 3])"
  using udp_mux_no_assert [OF plain_ops_laws sample_mux_reachable, of 0 "[1, 2, 3]" 0 5 sample_pair "Some 1" "[]"]
  by (simp add: sample_mux_facts numeral_3_eq_3)

end
