(* ===== verification/Icmp_Mux.thy ===== *)
theory Icmp_Mux
  imports Server_Upstream
begin

text \<open>
  The ICMP multiplexer (\<^verbatim>\<open>core/src/http_icmp_multiplexer.cpp\<close>): echo requests go out as fixed
  size packets over one HTTP stream, echo replies come back as fixed size packets and are put
  together from the pieces of the stream. A failed assertion or an empty optional is \<open>None\<close>.
\<close>

section \<open>State\<close>

definition ICMPPKT_REQ_SIZE :: nat where
  "ICMPPKT_REQ_SIZE = 2 + 16 + 2 + 1 + 2"

definition ICMPPKT_REPLY_SIZE :: nat where
  "ICMPPKT_REPLY_SIZE = 2 + 16 + 1 + 1 + 2"

lemmas icmp_sizes = ICMPPKT_REQ_SIZE_def ICMPPKT_REPLY_SIZE_def

datatype IcmpMuxState = IMS_IDLE | IMS_ESTABLISHED

record HttpIcmpMultiplexer =
  im_state :: IcmpMuxState
  im_stream_id :: "u64 option"
  m_reply_buffer :: bytes

definition icmp_mux_new :: HttpIcmpMultiplexer where
  "icmp_mux_new = \<lparr>im_state = IMS_IDLE, im_stream_id = None, m_reply_buffer = []\<rparr>"

definition icmp_close :: "HttpIcmpMultiplexer \<Rightarrow> HttpIcmpMultiplexer" where
  "icmp_close m = \<lparr>im_state = IMS_IDLE, im_stream_id = None, m_reply_buffer = []\<rparr>"

definition icmp_get_stream_id :: "HttpIcmpMultiplexer \<Rightarrow> u64 option" where
  "icmp_get_stream_id m = im_stream_id m"

section \<open>Requests\<close>

definition request_packet :: "'sa sa_ops \<Rightarrow> 'sa IcmpEchoRequest \<Rightarrow> bytes option" where
  "request_packet ops r =
     do {
       w \<leftarrow> put_u16 (rq_id r) (writer_new ICMPPKT_REQ_SIZE);
       w \<leftarrow> put_ip_padded ops (rq_peer r) w;
       w \<leftarrow> put_u16 (rq_seqno r) w;
       w \<leftarrow> put_u8 (rq_ttl r) w;
       w \<leftarrow> put_u16 (rq_data_size r) w;
       Some (writer_buffer w)
     }"

text \<open>\<open>r\<close> is the answer of the data callback.\<close>

definition send_request_established ::
  "'sa sa_ops \<Rightarrow> int \<Rightarrow> 'sa IcmpEchoRequest \<Rightarrow> HttpIcmpMultiplexer \<Rightarrow> (bool \<times> 'sa MuxCall list) option" where
  "send_request_established ops r req m =
     do {
       packet \<leftarrow> request_packet ops req;
       sid \<leftarrow> im_stream_id m;
       Some (r = 0, [SendData sid packet])
     }"

text \<open>The closure \<open>open_stream\<close>; \<open>stream\<close> is the answer of the connect request.\<close>

definition open_stream :: "u64 option \<Rightarrow> HttpIcmpMultiplexer \<Rightarrow> (bool \<times> HttpIcmpMultiplexer) option" where
  "open_stream stream m =
     (if im_stream_id m \<noteq> None then None
      else (case stream of
          None \<Rightarrow> Some (False, m\<lparr>im_stream_id := None, im_state := IMS_IDLE\<rparr>)
        | Some sid \<Rightarrow> Some (True, m\<lparr>im_stream_id := Some sid, im_state := IMS_ESTABLISHED\<rparr>)))"

definition open_and_send ::
  "'sa sa_ops \<Rightarrow> u64 option \<Rightarrow> int \<Rightarrow> 'sa IcmpEchoRequest \<Rightarrow> HttpIcmpMultiplexer \<Rightarrow>
   (bool \<times> HttpIcmpMultiplexer \<times> 'sa MuxCall list) option" where
  "open_and_send ops stream r req m =
     do {
       (opened, m) \<leftarrow> open_stream stream m;
       if \<not> opened then Some (False, m, [SendConnectRequest ''_icmp''])
       else do {
         (ok, out) \<leftarrow> send_request_established ops r req m;
         Some (ok, m, SendConnectRequest ''_icmp'' # out)
       }
     }"

text \<open>
  \<open>send_request\<close>; \<open>r1\<close> and \<open>r2\<close> are the answers of the first and the second attempt to send.
\<close>

definition send_request ::
  "'sa sa_ops \<Rightarrow> u64 option \<Rightarrow> int \<Rightarrow> int \<Rightarrow> 'sa IcmpEchoRequest \<Rightarrow> HttpIcmpMultiplexer \<Rightarrow>
   (bool \<times> HttpIcmpMultiplexer \<times> 'sa MuxCall list) option" where
  "send_request ops stream r1 r2 req m =
     (case im_state m of
        IMS_IDLE \<Rightarrow> open_and_send ops stream r1 req m
      | IMS_ESTABLISHED \<Rightarrow>
          do {
            (ok, out) \<leftarrow> send_request_established ops r1 req m;
            if ok then Some (True, m, out)
            else do {
              (ok2, m2, out2) \<leftarrow> open_and_send ops stream r2 req (icmp_close m);
              Some (ok2, m2, out @ out2)
            }
          })"

definition icmp_handle_response :: "HttpIcmpMultiplexer \<Rightarrow> HttpIcmpMultiplexer option" where
  "icmp_handle_response m = (if im_state m \<noteq> IMS_ESTABLISHED then None else Some m)"

section \<open>Replies\<close>

definition parse_reply :: "'sa sa_ops \<Rightarrow> bytes \<Rightarrow> 'sa IcmpEchoReply option" where
  "parse_reply ops raw =
     do {
       (i, r) \<leftarrow> get_u16 raw;
       (peer, r) \<leftarrow> get_ip_padded ops r;
       (t, r) \<leftarrow> get_u8 r;
       (c, r) \<leftarrow> get_u8 r;
       (seqno, r) \<leftarrow> get_u16 r;
       Some \<lparr>rp_peer = peer, rp_id = i, rp_seqno = seqno, rp_type = t, rp_code = c\<rparr>
     }"

definition process_reply_chunk ::
  "'sa sa_ops \<Rightarrow> HttpIcmpMultiplexer \<Rightarrow> bytes \<Rightarrow> (HttpIcmpMultiplexer \<times> 'sa ServerEvent list \<times> bytes) option" where
  "process_reply_chunk ops m data =
     (if m_reply_buffer m = [] \<and> ICMPPKT_REPLY_SIZE \<le> length data then
        do {
          reply \<leftarrow> parse_reply ops (take ICMPPKT_REPLY_SIZE data);
          Some (m\<lparr>m_reply_buffer := []\<rparr>, [SERVER_EVENT_ECHO_REPLY reply], drop ICMPPKT_REPLY_SIZE data)
        }
      else if ICMPPKT_REPLY_SIZE < length (m_reply_buffer m) then None
      else
        let to_read = min (length data) (ICMPPKT_REPLY_SIZE - length (m_reply_buffer m));
            buffer = m_reply_buffer m @ take to_read data
        in if length buffer < ICMPPKT_REPLY_SIZE
           then Some (m\<lparr>m_reply_buffer := buffer\<rparr>, [], drop to_read data)
           else do {
             reply \<leftarrow> parse_reply ops buffer;
             Some (m\<lparr>m_reply_buffer := []\<rparr>, [SERVER_EVENT_ECHO_REPLY reply], drop to_read data)
           })"

text \<open>A round consumes data, or empties a full buffer.\<close>

definition buffer_full :: "HttpIcmpMultiplexer \<Rightarrow> nat" where
  "buffer_full m = (if length (m_reply_buffer m) = ICMPPKT_REPLY_SIZE then 1 else 0)"

lemma process_reply_chunk_decreases:
  assumes "process_reply_chunk ops m data = Some (m', es, rest)" "data \<noteq> []"
  shows "2 * length rest + buffer_full m' < 2 * length data + buffer_full m"
  using assms
  by (auto simp: process_reply_chunk_def Let_def bind_eq_Some_conv buffer_full_def icmp_sizes split: if_splits)

function reply_loop ::
  "'sa sa_ops \<Rightarrow> HttpIcmpMultiplexer \<Rightarrow> bytes \<Rightarrow> (HttpIcmpMultiplexer \<times> 'sa ServerEvent list) option" where
  "reply_loop ops m data =
     (if data = [] then Some (m, [])
      else do {
        (m1, e1, rest) \<leftarrow> process_reply_chunk ops m data;
        (m2, e2) \<leftarrow> reply_loop ops m1 rest;
        Some (m2, e1 @ e2)
      })"
  by pat_completeness auto
termination
  by (relation "measure (\<lambda>(ops, m, data). 2 * length data + buffer_full m)") (auto dest: process_reply_chunk_decreases)

declare reply_loop.simps [simp del]

definition icmp_process_read_event ::
  "'sa sa_ops \<Rightarrow> bytes \<Rightarrow> HttpIcmpMultiplexer \<Rightarrow> (HttpIcmpMultiplexer \<times> 'sa MuxCall list) option" where
  "icmp_process_read_event ops data m =
     (if im_state m \<noteq> IMS_ESTABLISHED then None
      else do {
        (m', es) \<leftarrow> reply_loop ops m data;
        sid \<leftarrow> im_stream_id m';
        Some (m', map Handler es @ [Consume sid (length data)])
      })"

section \<open>Pieces of the stream\<close>

definition reply_ok :: "HttpIcmpMultiplexer \<Rightarrow> bool" where
  "reply_ok m \<longleftrightarrow> length (m_reply_buffer m) < ICMPPKT_REPLY_SIZE"

lemma parse_reply_total: "length raw = ICMPPKT_REPLY_SIZE \<Longrightarrow> \<exists>r. parse_reply ops raw = Some r"
proof -
  assume "length raw = ICMPPKT_REPLY_SIZE"
  then have len: "length raw = 22" by (simp add: icmp_sizes)
  obtain i where i: "get_u16 raw = Some (i, drop 2 raw)" using get_u16_long [of raw] len by auto
  obtain a where a: "get_ip_padded ops (drop 2 raw) = Some (a, drop 16 (drop 2 raw))"
    using get_ip_padded_long [of "drop 2 raw" ops] len by auto
  obtain t c s1 s2 where "drop 18 raw = [t, c, s1, s2]"
    using len by (auto simp: length_Suc_conv numeral_eq_Suc)
  then show ?thesis using i a by (simp add: parse_reply_def)
qed

lemma process_reply_chunk_eq:
  assumes "reply_ok m"
  shows "process_reply_chunk ops m data =
    (let k = ICMPPKT_REPLY_SIZE - length (m_reply_buffer m)
     in if length data < k then Some (m\<lparr>m_reply_buffer := m_reply_buffer m @ data\<rparr>, [], [])
        else do {
          reply \<leftarrow> parse_reply ops (m_reply_buffer m @ take k data);
          Some (m\<lparr>m_reply_buffer := []\<rparr>, [SERVER_EVENT_ECHO_REPLY reply], drop k data)
        })"
  using assms by (auto simp: process_reply_chunk_def Let_def reply_ok_def min_def)

lemma reply_chunk_total:
  assumes "reply_ok m"
  shows "\<exists>m' es rest. process_reply_chunk ops m data = Some (m', es, rest) \<and> reply_ok m' \<and>
           im_state m' = im_state m \<and> im_stream_id m' = im_stream_id m"
proof (cases "length data < ICMPPKT_REPLY_SIZE - length (m_reply_buffer m)")
  case True
  then show ?thesis using assms by (auto simp: process_reply_chunk_eq Let_def reply_ok_def)
next
  case False
  then have "length (m_reply_buffer m @ take (ICMPPKT_REPLY_SIZE - length (m_reply_buffer m)) data) = ICMPPKT_REPLY_SIZE"
    using assms by (simp add: reply_ok_def)
  then obtain r where "parse_reply ops (m_reply_buffer m @ take (ICMPPKT_REPLY_SIZE - length (m_reply_buffer m)) data) = Some r"
    using parse_reply_total by blast
  then show ?thesis using False assms by (auto simp: process_reply_chunk_eq Let_def reply_ok_def icmp_sizes)
qed

lemma reply_loop_total:
  "reply_ok m \<Longrightarrow> \<exists>m' es. reply_loop ops m data = Some (m', es) \<and> reply_ok m' \<and>
     im_state m' = im_state m \<and> im_stream_id m' = im_stream_id m"
proof (induction ops m data rule: reply_loop.induct)
  case (1 ops m data)
  show ?case
  proof (cases "data = []")
    case True
    then show ?thesis using "1.prems" by (simp add: reply_loop.simps)
  next
    case False
    obtain m1 e1 rest where step: "process_reply_chunk ops m data = Some (m1, e1, rest)" "reply_ok m1"
      "im_state m1 = im_state m" "im_stream_id m1 = im_stream_id m"
      using reply_chunk_total [OF "1.prems"] by blast
    from "1.IH" [OF False step(1) refl refl step(2)] show ?thesis
      using False step by (auto simp: reply_loop.simps [of ops m data])
  qed
qed

lemma reply_loop_append:
  "reply_ok m \<Longrightarrow> reply_loop ops m (xs @ ys) =
     do {
       (m1, e1) \<leftarrow> reply_loop ops m xs;
       (m2, e2) \<leftarrow> reply_loop ops m1 ys;
       Some (m2, e1 @ e2)
     }"
proof (induction ops m xs rule: reply_loop.induct)
  case (1 ops m xs)
  let ?k = "ICMPPKT_REPLY_SIZE - length (m_reply_buffer m)"
  consider "xs = []" | "xs \<noteq> []" "?k \<le> length xs" | "xs \<noteq> []" "length xs < ?k" by fastforce
  then show ?case
  proof cases
    case 1
    then show ?thesis by (cases "reply_loop ops m ys") (simp_all add: reply_loop.simps [of ops m "[]"])
  next
    case 2
    obtain m1 e1 rest where step: "process_reply_chunk ops m xs = Some (m1, e1, rest)" "reply_ok m1"
      using reply_chunk_total [OF "1.prems"] by blast
    have "process_reply_chunk ops m (xs @ ys) = Some (m1, e1, rest @ ys)"
      using step(1) 2 by (auto simp: process_reply_chunk_eq [OF "1.prems"] Let_def bind_eq_Some_conv split: if_splits)
    then have whole: "reply_loop ops m (xs @ ys) = reply_loop ops m1 (rest @ ys) \<bind> (\<lambda>(m2, e2). Some (m2, e1 @ e2))"
      using 2 by (simp add: reply_loop.simps [of ops m "xs @ ys"])
    have part: "reply_loop ops m xs = reply_loop ops m1 rest \<bind> (\<lambda>(m2, e2). Some (m2, e1 @ e2))"
      using 2 step by (simp add: reply_loop.simps [of ops m xs])
    show ?thesis
      unfolding whole part "1.IH" [OF 2(1) step(1) refl refl step(2)] by (rule bind_assoc_pairs)
  next
    case 3
    let ?m1 = "m\<lparr>m_reply_buffer := m_reply_buffer m @ xs\<rparr>"
    have m1: "process_reply_chunk ops m xs = Some (?m1, [], [])" "reply_ok ?m1"
      using 3 "1.prems" by (auto simp: process_reply_chunk_eq reply_ok_def)
    have whole: "reply_loop ops m xs = Some (?m1, [])"
      using 3 m1 by (simp add: reply_loop.simps [of ops m xs] reply_loop.simps [of ops ?m1 "[]"])
    have "process_reply_chunk ops ?m1 ys = process_reply_chunk ops m (xs @ ys)"
      using 3 by (auto simp: process_reply_chunk_eq [OF m1(2)] process_reply_chunk_eq [OF "1.prems"] Let_def)
    then have "ys \<noteq> [] \<Longrightarrow> reply_loop ops m (xs @ ys) = reply_loop ops ?m1 ys"
      using 3 by (simp add: reply_loop.simps [of ops m "xs @ ys"] reply_loop.simps [of ops ?m1 ys])
    then show ?thesis
      using whole by (cases "ys = []"; cases "reply_loop ops ?m1 ys") (auto simp: reply_loop.simps [of ops ?m1 "[]"])
  qed
qed

interpretation im: stream_reader "reply_loop ops" reply_ok for ops
proof (unfold_locales, goal_cases)
  case (1 m)
  show ?case by (simp add: reply_loop.simps)
next
  case (2 m xs)
  then show ?case using reply_loop_total by blast
next
  case (3 m xs ys)
  then show ?case by (rule reply_loop_append)
qed

section \<open>Properties\<close>

text \<open>A reply of the endpoint in the format that the source documents.\<close>

definition reply_bytes :: "'sa sa_ops \<Rightarrow> 'sa IcmpEchoReply \<Rightarrow> bytes" where
  "reply_bytes ops r =
     bytes_of_u16 (rp_id r) @ padded_ip ops (rp_peer r) @ [rp_type r, rp_code r] @ bytes_of_u16 (rp_seqno r)"

definition received_reply :: "'sa sa_ops \<Rightarrow> 'sa IcmpEchoReply \<Rightarrow> 'sa ServerEvent" where
  "received_reply ops r = SERVER_EVENT_ECHO_REPLY (r\<lparr>rp_peer := so_set_port ops 0 (rp_peer r)\<rparr>)"

lemma parse_reply_bytes:
  assumes "sa_laws ops" "good_address ops (rp_peer r)"
  shows "parse_reply ops (reply_bytes ops r) = Some (r\<lparr>rp_peer := so_set_port ops 0 (rp_peer r)\<rparr>)"
proof -
  have "get_u16 (bytes_of_u16 v) = Some (v, [])" for v using get_u16_put [of v "[]"] by simp
  then show ?thesis
    using assms padded_ip_ok [OF assms(1)]
    by (simp add: parse_reply_def reply_bytes_def wire_simps good_address_def)
qed

lemma one_reply:
  assumes "sa_laws ops" "good_address ops (rp_peer r)" "m_reply_buffer m = []"
  shows "reply_loop ops m (reply_bytes ops r) = Some (m, [received_reply ops r])"
proof -
  have len: "length (reply_bytes ops r) = ICMPPKT_REPLY_SIZE"
    using assms by (simp add: reply_bytes_def length_padded_ip good_address_def icmp_sizes)
  have m: "m\<lparr>m_reply_buffer := []\<rparr> = m" using assms(3) by (cases m) simp
  have "process_reply_chunk ops m (reply_bytes ops r) = Some (m, [received_reply ops r], [])"
    using assms(3) len m parse_reply_bytes [OF assms(1,2)] by (simp add: process_reply_chunk_def received_reply_def)
  moreover have "reply_bytes ops r \<noteq> []" using len by (auto simp: icmp_sizes)
  ultimately show ?thesis
    by (simp add: reply_loop.simps [of ops m "reply_bytes ops r"] reply_loop.simps [of ops m "[]"])
qed

text \<open>
  Claim C19: echo replies survive any division of the stream. When no reply is half read and the
  stream is a sequence of replies, any division of it into reads raises exactly one event per
  reply, in order, with the fields of the reply, and leaves no reply half read.
\<close>

theorem echo_replies_delivered:
  assumes "sa_laws ops" "m_reply_buffer m = []" "\<forall>r \<in> set rs. good_address ops (rp_peer r)"
    and "concat chunks = concat (map (reply_bytes ops) rs)"
  shows "feed (reply_loop ops) m chunks = Some (m, map (received_reply ops) rs)"
proof -
  have ok: "reply_ok m" using assms(2) by (simp add: reply_ok_def icmp_sizes)
  have "reply_loop ops m (concat (map (reply_bytes ops) rs)) = Some (m, map (received_reply ops) rs)"
    using assms(3)
  proof (induction rs)
    case (Cons r rs)
    then show ?case
      by (simp add: reply_loop_append [OF ok] one_reply [OF assms(1) _ assms(2)])
  qed (simp add: reply_loop.simps)
  then show ?thesis by (simp add: im.feed_concat [OF ok] assms(4))
qed

theorem echo_replies_delivered_witness:
  "let r = \<lparr>rp_peer = ([192, 0, 2, 1], 0), rp_id = 7, rp_seqno = 1, rp_type = 0, rp_code = 0\<rparr>;
       b = reply_bytes plain_ops r
   in feed (reply_loop plain_ops) icmp_mux_new [take 5 b, drop 5 b @ take 20 b, drop 20 b] =
      Some (icmp_mux_new, [SERVER_EVENT_ECHO_REPLY r, SERVER_EVENT_ECHO_REPLY r])"
proof -
  define r :: "(bytes \<times> u16) IcmpEchoReply"
    where "r = \<lparr>rp_peer = ([192, 0, 2, 1], 0), rp_id = 7, rp_seqno = 1, rp_type = 0, rp_code = 0\<rparr>"
  let ?b = "reply_bytes plain_ops r"
  have cut: "concat [take 5 ?b, drop 5 ?b @ take 20 ?b, drop 20 ?b] = concat (map (reply_bytes plain_ops) [r, r])"
    by simp
  have good: "\<forall>x \<in> set [r, r]. good_address plain_ops (rp_peer x)"
    by (simp add: r_def good_address_def so_is_ip_def plain_ops_def ambiguous_ip_def)
  have "received_reply plain_ops r = SERVER_EVENT_ECHO_REPLY r"
    by (simp add: received_reply_def plain_ops_def r_def)
  moreover have "m_reply_buffer icmp_mux_new = []" by (simp add: icmp_mux_new_def)
  ultimately show ?thesis
    using echo_replies_delivered [OF plain_ops_laws _ good cut, of icmp_mux_new]
    unfolding r_def [symmetric] Let_def by (simp del: feed.simps)
qed

text \<open>A reader of the outgoing format.\<close>

definition parse_request :: "'sa sa_ops \<Rightarrow> bytes \<Rightarrow> 'sa IcmpEchoRequest option" where
  "parse_request ops p =
     do {
       (i, r) \<leftarrow> get_u16 p;
       (peer, r) \<leftarrow> get_ip_padded ops r;
       (seqno, r) \<leftarrow> get_u16 r;
       (ttl, r) \<leftarrow> get_u8 r;
       (size, r) \<leftarrow> get_u16 r;
       if r = [] then Some \<lparr>rq_peer = peer, rq_id = i, rq_seqno = seqno, rq_ttl = ttl, rq_data_size = size\<rparr>
       else None
     }"

lemma request_packet_bytes:
  assumes "sa_laws ops" "so_is_ip ops (rq_peer r)"
  shows "request_packet ops r =
    Some (bytes_of_u16 (rq_id r) @ padded_ip ops (rq_peer r) @ bytes_of_u16 (rq_seqno r) @ [rq_ttl r] @
          bytes_of_u16 (rq_data_size r))"
  using length_padded_ip [OF assms]
  by (simp add: request_packet_def icmp_sizes writer_new_def put_u16_def put_u8_def put_data_zeros put_ip_zeros
      writer_buffer_def)

text \<open>
  an echo request is sent as a packet from which a reader of the format gets it back,
  and a stream that is dead is replaced once. The request goes out on the open stream; when
  that fails, or when no stream is open, one connect request is made and the packet is sent on
  the new stream. The call succeeds exactly when one of the attempts to send did, and the
  multiplexer has a stream exactly when it is established.
\<close>

theorem echo_request_sent:
  assumes "sa_laws ops" "good_address ops (rq_peer req)"
    and "(im_state m = IMS_ESTABLISHED) = (im_stream_id m \<noteq> None)"
  shows "\<exists>p ok m' out. request_packet ops req = Some p \<and>
    parse_request ops p = Some (req\<lparr>rq_peer := so_set_port ops 0 (rq_peer req)\<rparr>) \<and>
    send_request ops stream r1 r2 req m = Some (ok, m', out) \<and>
    (im_state m' = IMS_ESTABLISHED) = (im_stream_id m' \<noteq> None) \<and>
    (case im_stream_id m of
       None \<Rightarrow> out = SendConnectRequest ''_icmp'' # (case stream of None \<Rightarrow> [] | Some s \<Rightarrow> [SendData s p]) \<and>
               ok = (stream \<noteq> None \<and> r1 = 0)
     | Some sid \<Rightarrow>
         out = SendData sid p #
           (if r1 = 0 then []
            else SendConnectRequest ''_icmp'' # (case stream of None \<Rightarrow> [] | Some s \<Rightarrow> [SendData s p])) \<and>
         ok = (r1 = 0 \<or> stream \<noteq> None \<and> r2 = 0))"
proof -
  have ip: "so_is_ip ops (rq_peer req)" using assms(2) by (simp add: good_address_def)
  note p = request_packet_bytes [OF assms(1) ip]
  have last: "get_u16 (bytes_of_u16 v) = Some (v, [])" for v using get_u16_put [of v "[]"] by simp
  have parsed: "parse_request ops (the (request_packet ops req)) = Some (req\<lparr>rq_peer := so_set_port ops 0 (rq_peer req)\<rparr>)"
    using assms(2) padded_ip_ok [OF assms(1) ip]
    by (simp add: p parse_request_def wire_simps last good_address_def)
  obtain q where q: "request_packet ops req = Some q" using p by blast
  with parsed have "parse_request ops q = Some (req\<lparr>rq_peer := so_set_port ops 0 (rq_peer req)\<rparr>)" by simp
  then show ?thesis
    using q assms(3)
    by (cases "im_state m"; cases "im_stream_id m"; cases stream; cases "r1 = 0")
      (simp_all add: send_request_def send_request_established_def open_and_send_def open_stream_def icmp_close_def,
       blast+)
qed

theorem echo_request_sent_witness:
  "\<exists>p. send_request plain_ops (Some 9) (-1) 0
        \<lparr>rq_peer = ([192, 0, 2, 1], 0), rq_id = 7, rq_seqno = 1, rq_ttl = 64, rq_data_size = 56\<rparr>
        \<lparr>im_state = IMS_ESTABLISHED, im_stream_id = Some 8, m_reply_buffer = []\<rparr> =
      Some (True, \<lparr>im_state = IMS_ESTABLISHED, im_stream_id = Some 9, m_reply_buffer = []\<rparr>,
            [SendData 8 p, SendConnectRequest ''_icmp'', SendData 9 p])"
  using echo_request_sent [OF plain_ops_laws, of
      "\<lparr>rq_peer = ([192, 0, 2, 1], 0), rq_id = 7, rq_seqno = 1, rq_ttl = 64, rq_data_size = 56\<rparr>"
      "\<lparr>im_state = IMS_ESTABLISHED, im_stream_id = Some 8, m_reply_buffer = []\<rparr>" "Some 9" "-1" 0]
  by (auto simp: good_address_def so_is_ip_def plain_ops_def ambiguous_ip_def send_request_def
      send_request_established_def open_and_send_def open_stream_def icmp_close_def)

end
