(* ===== verification/Std_Map.thy ===== *)
theory Std_Map
  imports Main
begin

text \<open>
  \<open>std::map\<close> as the source uses it: an association list that is kept sorted by its key, so that
  iterating over it visits the keys in ascending order. Lookup is \<^const>\<open>map_of\<close>.
\<close>

fun smap_update :: "'k::linorder \<Rightarrow> 'v \<Rightarrow> ('k \<times> 'v) list \<Rightarrow> ('k \<times> 'v) list" where
  "smap_update k v [] = [(k, v)]"
| "smap_update k v ((k', v') # m) =
     (if k < k' then (k, v) # (k', v') # m
      else if k = k' then (k, v) # m
      else (k', v') # smap_update k v m)"

definition smap_erase :: "'k \<Rightarrow> ('k \<times> 'v) list \<Rightarrow> ('k \<times> 'v) list" where
  "smap_erase k m = filter (\<lambda>(k', v). k' \<noteq> k) m"

definition smap_ok :: "('k::linorder \<times> 'v) list \<Rightarrow> bool" where
  "smap_ok m \<longleftrightarrow> sorted_wrt (<) (map fst m)"

lemma smap_ok_Nil [simp]: "smap_ok []"
  by (simp add: smap_ok_def)

lemma smap_ok_Cons [simp]: "smap_ok ((k, v) # m) \<longleftrightarrow> (\<forall>k' \<in> fst ` set m. k < k') \<and> smap_ok m"
  by (auto simp: smap_ok_def)

lemma smap_ok_distinct: "smap_ok m \<Longrightarrow> distinct (map fst m)"
  by (simp add: smap_ok_def strict_sorted_iff)

lemma keys_smap_update [simp]: "fst ` set (smap_update k v m) = insert k (fst ` set m)"
  by (induction k v m rule: smap_update.induct) auto

lemma smap_ok_update [intro]: "smap_ok m \<Longrightarrow> smap_ok (smap_update k v m)"
  by (induction k v m rule: smap_update.induct) (auto dest: order.strict_trans)

lemma smap_ok_filter: "smap_ok m \<Longrightarrow> smap_ok (filter P m)"
  by (induction m) auto

lemma smap_ok_erase [intro]: "smap_ok m \<Longrightarrow> smap_ok (smap_erase k m)"
  by (simp add: smap_erase_def smap_ok_filter)

lemma map_of_smap_update: "smap_ok m \<Longrightarrow> map_of (smap_update k v m) = (map_of m)(k \<mapsto> v)"
proof (induction k v m rule: smap_update.induct)
  case (2 k v k' v' m)
  then show ?case by (cases "k < k'"; cases "k = k'") (auto simp: fun_eq_iff)
qed simp

lemma map_of_smap_erase: "map_of (smap_erase k m) = (map_of m)(k := None)"
  by (induction m) (auto simp: smap_erase_def fun_eq_iff)

text \<open>A present key splits the map: the update and the erasure act at its position only.\<close>

lemma smap_split:
  assumes "smap_ok m" "map_of m k = Some v"
  shows "\<exists>l r. m = l @ (k, v) # r \<and> k \<notin> fst ` set l \<and> k \<notin> fst ` set r \<and>
    (\<forall>w. smap_update k w m = l @ (k, w) # r) \<and> smap_erase k m = l @ r"
  using assms
proof (induction m)
  case (Cons kv m)
  obtain k' v' where kv: "kv = (k', v')" by force
  show ?case
  proof (cases "k' = k")
    case True
    then have "k \<notin> fst ` set m" using Cons.prems kv by auto
    moreover from this have "smap_erase k m = m" by (force simp: smap_erase_def filter_id_conv)
    ultimately show ?thesis
      using True Cons.prems kv by (intro exI [of _ "[]"] exI [of _ m]) (simp add: smap_erase_def)
  next
    case False
    then obtain l r where lr: "m = l @ (k, v) # r" "k \<notin> fst ` set l" "k \<notin> fst ` set r"
      "\<forall>w. smap_update k w m = l @ (k, w) # r" "smap_erase k m = l @ r"
      using Cons kv by auto
    then have "k' < k" using Cons.prems kv by auto
    then have "\<forall>w. smap_update k w (kv # m) = (k', v') # l @ (k, w) # r" using lr(4) kv by auto
    moreover have "smap_erase k (kv # m) = (k', v') # l @ r"
      using lr(5) kv False by (simp add: smap_erase_def)
    ultimately show ?thesis
      using lr(1-3) kv False by (intro exI [of _ "(k', v') # l"] exI [of _ r]) simp
  qed
qed simp

text \<open>A new key is inserted between a prefix and a suffix of the map.\<close>

lemma smap_insert_split:
  assumes "map_of m k = None"
  shows "\<exists>l r. m = l @ r \<and> (\<forall>w. smap_update k w m = l @ (k, w) # r)"
  using assms
proof (induction m)
  case (Cons kv m)
  obtain k' v' where kv: "kv = (k', v')" by force
  show ?case
  proof (cases "k < k'")
    case True
    then show ?thesis using kv by (intro exI [of _ "[]"] exI [of _ "kv # m"]) simp
  next
    case False
    have "k \<noteq> k'" "map_of m k = None" using Cons.prems kv by (auto split: if_splits)
    then obtain l r where "m = l @ r" "\<forall>w. smap_update k w m = l @ (k, w) # r"
      using Cons.IH by blast
    then show ?thesis
      using False kv \<open>k \<noteq> k'\<close> by (intro exI [of _ "kv # l"] exI [of _ r]) auto
  qed
qed auto

end
