(* ===== verification/Icmp_Manager.thy ===== *)
theory Icmp_Manager
  imports Common_Utils Server_Upstream Std_Map
begin

text \<open>
  The manager of the echo requests of the application
  (\<^verbatim>\<open>core/src/icmp_manager.cpp\<close>): it remembers which requests were passed to the
  endpoint, matches the replies with them and answers the ones that time out. The clock is an
  argument. \<open>None\<close> as a result is a failed assertion, a null dereference or the exception of
  reading an empty optional.
\<close>

section \<open>State\<close>

definition ICMP_MT_ECHO_REPLY :: u8 where "ICMP_MT_ECHO_REPLY = 0"
definition ICMPV6_MT_ECHO_REPLY :: u8 where "ICMPV6_MT_ECHO_REPLY = 129"
definition ICMP_MT_DROP :: u8 where "ICMP_MT_DROP = 84"

datatype IcmpManagerMessageStatus = IM_MSGS_PASS | IM_MSGS_DROP

record RequestAttempt =
  ra_seqno :: u16
  timeout_ts :: nanos

record 'sa RequestInfo =
  original_peer :: 'sa
  tries :: "RequestAttempt list"

definition DEFAULT_PING_REQUEST_TIMEOUT :: millis where
  "DEFAULT_PING_REQUEST_TIMEOUT = 3000"

text \<open>
  The map holds pointers, so that a value may be null. The timer is its period.
\<close>

record 'sa IcmpManager =
  m_requests :: "(u16 \<times> 'sa RequestInfo option) list"
  request_timeout :: "millis option"
  m_timer :: "millis option"

definition icmp_manager_new :: "'sa IcmpManager" where
  "icmp_manager_new = \<lparr>m_requests = [], request_timeout = None, m_timer = None\<rparr>"

definition icmp_init :: "millis option \<Rightarrow> 'sa IcmpManager \<Rightarrow> 'sa IcmpManager" where
  "icmp_init p m =
     m\<lparr>request_timeout := Some (case p of Some t \<Rightarrow> t | None \<Rightarrow> DEFAULT_PING_REQUEST_TIMEOUT)\<rparr>"

definition icmp_deinit :: "'sa IcmpManager \<Rightarrow> 'sa IcmpManager" where
  "icmp_deinit m = m\<lparr>m_timer := None, m_requests := []\<rparr>"

section \<open>Operations\<close>

text \<open>The cast of the period to 32 bits after the truncating division by ten.\<close>

definition timer_period :: "millis \<Rightarrow> millis" where
  "timer_period t = timer_ms (if 0 \<le> t then t div 10 else - ((- t) div 10))"

definition request_info :: "'sa IcmpEchoRequest \<Rightarrow> 'sa IcmpManager \<Rightarrow> 'sa RequestInfo" where
  "request_info req m =
     (case map_of (m_requests m) (rq_id req) of
        Some (Some info) \<Rightarrow> info
      | _ \<Rightarrow> \<lparr>original_peer = rq_peer req, tries = []\<rparr>)"

definition register_request ::
    "nanos \<Rightarrow> 'sa IcmpEchoRequest \<Rightarrow> 'sa IcmpManager \<Rightarrow> (IcmpManagerMessageStatus \<times> 'sa IcmpManager) option"
  where
  "register_request now req m =
     (let info = request_info req m
      in if \<exists>t \<in> set (tries info). ra_seqno t = rq_seqno req
         then Some (IM_MSGS_DROP, m\<lparr>m_requests := smap_update (rq_id req) (Some info) (m_requests m)\<rparr>)
         else
           do {
             timeout \<leftarrow> request_timeout m;
             let attempt = \<lparr>ra_seqno = rq_seqno req, timeout_ts = now + ns_of_ms timeout\<rparr>;
             Some (IM_MSGS_PASS,
                   m\<lparr>m_requests :=
                       smap_update (rq_id req) (Some (info\<lparr>tries := tries info @ [attempt]\<rparr>)) (m_requests m),
                     m_timer := (case m_timer m of None \<Rightarrow> Some (timer_period timeout) | Some p \<Rightarrow> Some p)\<rparr>)
           })"

text \<open>A reply that is not an echo reply is an answer to the oldest attempt.\<close>

definition is_echo_reply :: "'sa sa_ops \<Rightarrow> 'sa IcmpEchoReply \<Rightarrow> bool" where
  "is_echo_reply ops r \<longleftrightarrow>
     \<not> (so_is_ipv4 ops (rp_peer r) \<and> rp_type r \<noteq> ICMP_MT_ECHO_REPLY) \<and>
     \<not> (so_is_ipv6 ops (rp_peer r) \<and> rp_type r \<noteq> ICMPV6_MT_ECHO_REPLY)"

definition find_try ::
    "'sa sa_ops \<Rightarrow> 'sa IcmpEchoReply \<Rightarrow> RequestAttempt list \<Rightarrow>
     (RequestAttempt list \<times> RequestAttempt \<times> RequestAttempt list) option" where
  "find_try ops r ts =
     (if is_echo_reply ops r then List.extract (\<lambda>t. ra_seqno t = rp_seqno r) ts
      else (case ts of [] \<Rightarrow> None | t # ts \<Rightarrow> Some ([], t, ts)))"

definition register_reply ::
    "'sa sa_ops \<Rightarrow> 'sa IcmpEchoReply \<Rightarrow> 'sa IcmpManager \<Rightarrow>
     (IcmpManagerMessageStatus \<times> 'sa IcmpEchoReply \<times> 'sa IcmpManager) option" where
  "register_reply ops r m =
     (case map_of (m_requests m) (rp_id r) of
        None \<Rightarrow> Some (IM_MSGS_DROP, r, m)
      | Some None \<Rightarrow> None
      | Some (Some info) \<Rightarrow>
          (case find_try ops r (tries info) of
             None \<Rightarrow> Some (IM_MSGS_DROP, r, m)
           | Some (before, t, after) \<Rightarrow>
               let r' = (if is_echo_reply ops r then r else r\<lparr>rp_seqno := ra_seqno t\<rparr>);
                   left = before @ after
               in if rp_seqno r' = ra_seqno t
                  then Some (IM_MSGS_PASS, r',
                    m\<lparr>m_requests := (if left = [] then smap_erase (rp_id r) (m_requests m)
                       else smap_update (rp_id r) (Some (info\<lparr>tries := left\<rparr>)) (m_requests m))\<rparr>)
                  else None))"

definition make_reply_on_timeout :: "u16 \<Rightarrow> 'sa \<Rightarrow> u16 \<Rightarrow> 'sa IcmpEchoReply" where
  "make_reply_on_timeout key peer seqno =
     \<lparr>rp_peer = peer, rp_id = key, rp_seqno = seqno, rp_type = ICMP_MT_DROP, rp_code = 0\<rparr>"

text \<open>The inner loop of the timer: the raised replies and the attempts that are left.\<close>

primrec expire_tries ::
    "nanos \<Rightarrow> u16 \<Rightarrow> 'sa \<Rightarrow> RequestAttempt list \<Rightarrow> 'sa IcmpEchoReply list \<times> RequestAttempt list" where
  "expire_tries now key peer [] = ([], [])"
| "expire_tries now key peer (t # ts) =
     (let (out, left) = expire_tries now key peer ts
      in if now < timeout_ts t then (out, t # left)
         else (make_reply_on_timeout key peer (ra_seqno t) # out, left))"

fun expire_requests ::
    "nanos \<Rightarrow> (u16 \<times> 'sa RequestInfo option) list \<Rightarrow>
     ('sa IcmpEchoReply list \<times> (u16 \<times> 'sa RequestInfo option) list) option" where
  "expire_requests now [] = Some ([], [])"
| "expire_requests now ((key, None) # rs) = None"
| "expire_requests now ((key, Some info) # rs) =
     do {
       let (out, left) = expire_tries now key (original_peer info) (tries info);
       (out', rs') \<leftarrow> expire_requests now rs;
       Some (out @ out', if left = [] then rs' else (key, Some (info\<lparr>tries := left\<rparr>)) # rs')
     }"

definition icmp_timer_callback ::
    "nanos \<Rightarrow> 'sa IcmpManager \<Rightarrow> ('sa IcmpEchoReply list \<times> 'sa IcmpManager) option" where
  "icmp_timer_callback now m =
     map_option (\<lambda>(out, rs). (out, m\<lparr>m_requests := rs\<rparr>)) (expire_requests now (m_requests m))"

section \<open>Requests in flight\<close>

definition info_flights :: "u16 \<times> 'sa RequestInfo option \<Rightarrow> (u16 \<times> RequestAttempt) list" where
  "info_flights e = (case snd e of None \<Rightarrow> [] | Some info \<Rightarrow> map (Pair (fst e)) (tries info))"

definition flights :: "'sa IcmpManager \<Rightarrow> (u16 \<times> RequestAttempt) list" where
  "flights m = concat (map info_flights (m_requests m))"

definition flight_key :: "u16 \<times> RequestAttempt \<Rightarrow> u16 \<times> u16" where
  "flight_key f = (fst f, ra_seqno (snd f))"

definition in_flight :: "'sa IcmpManager \<Rightarrow> (u16 \<times> u16) list" where
  "in_flight m = map flight_key (flights m)"

text \<open>The invariant: a sorted map without null pointers, no entry without attempts, no repeated attempt.\<close>

definition good_entry :: "u16 \<times> 'sa RequestInfo option \<Rightarrow> bool" where
  "good_entry e \<longleftrightarrow> (\<exists>info. snd e = Some info \<and> tries info \<noteq> [] \<and> distinct (map ra_seqno (tries info)))"

definition icmp_inv :: "'sa IcmpManager \<Rightarrow> bool" where
  "icmp_inv m \<longleftrightarrow> smap_ok (m_requests m) \<and> request_timeout m \<noteq> None \<and> list_all good_entry (m_requests m)"

lemma expire_tries_filter:
  "expire_tries now key peer ts =
     (map (\<lambda>t. make_reply_on_timeout key peer (ra_seqno t)) (filter (\<lambda>t. timeout_ts t \<le> now) ts),
      filter (\<lambda>t. now < timeout_ts t) ts)"
  by (induction ts) auto

lemma info_flights_Some [simp]: "info_flights (k, Some info) = map (Pair k) (tries info)"
  by (simp add: info_flights_def)

lemma flights_split:
  "m_requests m = l @ e # r \<Longrightarrow>
   flights m = concat (map info_flights l) @ info_flights e @ concat (map info_flights r)"
  by (simp add: flights_def)

lemma icmp_inv_find:
  assumes "icmp_inv m" "map_of (m_requests m) k = Some i"
  shows "\<exists>info. i = Some info \<and> tries info \<noteq> [] \<and> distinct (map ra_seqno (tries info))"
proof -
  have "good_entry (k, i)"
    using assms(1) map_of_SomeD [OF assms(2)] by (auto simp: icmp_inv_def list_all_iff)
  then show ?thesis by (simp add: good_entry_def)
qed

lemma list_all_smap_update: "list_all P m \<Longrightarrow> P (k, v) \<Longrightarrow> list_all P (smap_update k v m)"
  by (induction k v m rule: smap_update.induct) auto

lemma icmp_inv_update:
  assumes "icmp_inv m" "tries info \<noteq> []" "distinct (map ra_seqno (tries info))"
    and "m_requests m' = smap_update k (Some info) (m_requests m)" "request_timeout m' = request_timeout m"
  shows "icmp_inv m'"
proof -
  have "good_entry (k, Some info)" using assms(2,3) by (simp add: good_entry_def)
  then show ?thesis
    using assms(1,4,5) list_all_smap_update [of good_entry "m_requests m"]
    by (simp add: icmp_inv_def smap_ok_update)
qed

lemma icmp_inv_erase:
  "icmp_inv m \<Longrightarrow> icmp_inv (m\<lparr>m_requests := smap_erase k (m_requests m)\<rparr>)"
  by (simp add: icmp_inv_def smap_ok_erase) (simp add: smap_erase_def list_all_iff)

lemma in_flight_iff:
  assumes "smap_ok (m_requests m)"
  shows "(k, s) \<in> set (in_flight m) \<longleftrightarrow>
    (\<exists>info. map_of (m_requests m) k = Some (Some info) \<and> s \<in> ra_seqno ` set (tries info))"
proof -
  have "(k, s) \<in> flight_key ` set (info_flights e) \<longleftrightarrow>
      (\<exists>i. e = (k, Some i) \<and> s \<in> ra_seqno ` set (tries i))" for e :: "u16 \<times> 'a RequestInfo option"
    by (cases e; cases "snd e") (auto simp: info_flights_def flight_key_def image_iff)
  then have "(k, s) \<in> set (in_flight m) \<longleftrightarrow>
      (\<exists>i. (k, Some i) \<in> set (m_requests m) \<and> s \<in> ra_seqno ` set (tries i))"
    unfolding in_flight_def flights_def set_map set_concat image_UN by auto
  then show ?thesis by (simp add: map_of_eq_Some_iff [OF smap_ok_distinct [OF assms]])
qed

lemma in_flight_id:
  assumes "icmp_inv m"
  shows "map_of (m_requests m) k = None \<Longrightarrow> (k, s) \<notin> set (in_flight m)"
    and "map_of (m_requests m) k = Some (Some info) \<Longrightarrow>
      (k, s) \<in> set (in_flight m) \<longleftrightarrow> s \<in> ra_seqno ` set (tries info)"
  using assms by (simp_all add: icmp_inv_def in_flight_iff)

section \<open>Effect of the operations\<close>

lemma flights_insert:
  assumes "map_of (m_requests m) k = None" "m_requests m' = smap_update k (Some info) (m_requests m)"
  shows "mset (flights m') = mset (map (Pair k) (tries info)) + mset (flights m)"
proof -
  obtain l r where "m_requests m = l @ r" "\<forall>w. smap_update k w (m_requests m) = l @ (k, w) # r"
    using smap_insert_split [OF assms(1)] by blast
  then show ?thesis using assms(2) by (simp add: flights_def)
qed

lemma flights_replace:
  assumes "icmp_inv m" "map_of (m_requests m) k = Some (Some old)"
  shows "m_requests m' = smap_update k (Some info) (m_requests m) \<Longrightarrow>
      mset (flights m') + mset (map (Pair k) (tries old)) = mset (map (Pair k) (tries info)) + mset (flights m)"
    and "m_requests m' = smap_erase k (m_requests m) \<Longrightarrow>
      mset (flights m') + mset (map (Pair k) (tries old)) = mset (flights m)"
    and "smap_update k (Some old) (m_requests m) = m_requests m"
proof -
  have ok: "smap_ok (m_requests m)" using assms by (simp add: icmp_inv_def)
  obtain l r where lr: "m_requests m = l @ (k, Some old) # r"
    "\<forall>w. smap_update k w (m_requests m) = l @ (k, w) # r" "smap_erase k (m_requests m) = l @ r"
    using smap_split [OF ok assms(2)] by blast
  show "m_requests m' = smap_update k (Some info) (m_requests m) \<Longrightarrow>
      mset (flights m') + mset (map (Pair k) (tries old)) = mset (map (Pair k) (tries info)) + mset (flights m)"
    using lr by (simp add: flights_def)
  show "m_requests m' = smap_erase k (m_requests m) \<Longrightarrow>
      mset (flights m') + mset (map (Pair k) (tries old)) = mset (flights m)"
    using lr by (simp add: flights_def)
  show "smap_update k (Some old) (m_requests m) = m_requests m" using lr by simp
qed

lemma register_request_effect:
  assumes "icmp_inv m" "request_timeout m = Some t"
  shows "\<exists>st m'. register_request now req m = Some (st, m') \<and> icmp_inv m' \<and>
    request_timeout m' = Some t \<and>
    (if (rq_id req, rq_seqno req) \<in> set (in_flight m)
     then st = IM_MSGS_DROP \<and> m' = m
     else st = IM_MSGS_PASS \<and>
       mset (flights m') = add_mset (rq_id req, \<lparr>ra_seqno = rq_seqno req, timeout_ts = now + ns_of_ms t\<rparr>) (mset (flights m)))"
proof -
  let ?k = "rq_id req"
  let ?a = "\<lparr>ra_seqno = rq_seqno req, timeout_ts = now + ns_of_ms t\<rparr>"
  define info where "info = request_info req m"
  define m' where "m' = m\<lparr>m_requests := smap_update ?k (Some (info\<lparr>tries := tries info @ [?a]\<rparr>)) (m_requests m),
    m_timer := (case m_timer m of None \<Rightarrow> Some (timer_period t) | Some p \<Rightarrow> Some p)\<rparr>"
  have fields: "m_requests m' = smap_update ?k (Some (info\<lparr>tries := tries info @ [?a]\<rparr>)) (m_requests m)"
    "request_timeout m' = request_timeout m" by (simp_all add: m'_def)
  have new: "register_request now req m = Some (IM_MSGS_PASS, m')"
    if "\<not> (\<exists>t \<in> set (tries info). ra_seqno t = rq_seqno req)"
    using that assms(2) by (simp add: register_request_def info_def m'_def Let_def)
  show ?thesis
  proof (cases "map_of (m_requests m) ?k")
    case None
    then have info: "tries info = []" by (simp add: info_def request_info_def)
    have "icmp_inv m'" by (rule icmp_inv_update [OF assms(1) _ _ fields]) (simp_all add: info)
    then show ?thesis
      using new info fields assms(2) in_flight_id(1) [OF assms(1) None]
        flights_insert [OF None fields(1)] by simp
  next
    case (Some i)
    then have i: "map_of (m_requests m) ?k = Some (Some info)" "distinct (map ra_seqno (tries info))"
      using icmp_inv_find [OF assms(1) Some] by (auto simp: info_def request_info_def)
    note known = in_flight_id(2) [OF assms(1) i(1), of "rq_seqno req"]
    show ?thesis
    proof (cases "rq_seqno req \<in> ra_seqno ` set (tries info)")
      case True
      then have "\<exists>t \<in> set (tries info). ra_seqno t = rq_seqno req" by auto
      then have "register_request now req m = Some (IM_MSGS_DROP, m)"
        using flights_replace(3) [OF assms(1) i(1)] by (simp add: register_request_def info_def [symmetric])
      then show ?thesis using True known assms by simp
    next
      case False
      have "icmp_inv m'" by (rule icmp_inv_update [OF assms(1) _ _ fields]) (use False i in auto)
      moreover have "\<not> (\<exists>t \<in> set (tries info). ra_seqno t = rq_seqno req)" using False by force
      ultimately show ?thesis
        using new known False fields assms(2) flights_replace(1) [OF assms(1) i(1) fields(1)] by simp
    qed
  qed
qed

lemma find_try_split:
  assumes "find_try ops r ts = Some (before, t, after)"
  shows "ts = before @ t # after" "is_echo_reply ops r \<Longrightarrow> ra_seqno t = rp_seqno r"
  using assms by (auto simp: find_try_def extract_Some_iff split: if_splits list.splits)

lemma register_reply_effect:
  assumes "icmp_inv m"
  shows "\<exists>st r' m'. register_reply ops r m = Some (st, r', m') \<and> icmp_inv m' \<and>
    request_timeout m' = request_timeout m \<and>
    (case st of IM_MSGS_DROP \<Rightarrow> m' = m
     | IM_MSGS_PASS \<Rightarrow> \<exists>t. ra_seqno t = rp_seqno r' \<and> mset (flights m) = add_mset (rp_id r', t) (mset (flights m')))"
proof (cases "map_of (m_requests m) (rp_id r)")
  case None
  then show ?thesis using assms by (simp add: register_reply_def)
next
  case (Some i)
  obtain info where i: "i = Some info" "distinct (map ra_seqno (tries info))"
    using icmp_inv_find [OF assms Some] by blast
  note entry = Some [unfolded i(1)]
  show ?thesis
  proof (cases "find_try ops r (tries info)")
    case None
    then show ?thesis using entry assms by (simp add: register_reply_def)
  next
    case found: (Some x)
    obtain before t after where x: "x = (before, t, after)" by (cases x)
    note split = find_try_split [OF found [unfolded x]]
    let ?info = "info\<lparr>tries := before @ after\<rparr>"
    define r' where "r' = (if is_echo_reply ops r then r else r\<lparr>rp_seqno := ra_seqno t\<rparr>)"
    define m' where "m' = m\<lparr>m_requests := (if before @ after = [] then smap_erase (rp_id r) (m_requests m)
      else smap_update (rp_id r) (Some ?info) (m_requests m))\<rparr>"
    have r': "rp_seqno r' = ra_seqno t" "rp_id r' = rp_id r" using split(2) by (auto simp: r'_def)
    have step: "register_reply ops r m = Some (IM_MSGS_PASS, r', m')"
      using entry found x r'(1) by (simp add: register_reply_def r'_def [symmetric] m'_def Let_def)
    have timeout: "request_timeout m' = request_timeout m" by (simp add: m'_def)
    have "icmp_inv m' \<and> mset (flights m) = add_mset (rp_id r, t) (mset (flights m'))"
    proof (cases "before @ after = []")
      case True
      then have "m' = m\<lparr>m_requests := smap_erase (rp_id r) (m_requests m)\<rparr>" by (simp add: m'_def)
      then show ?thesis
        using icmp_inv_erase [OF assms, of "rp_id r"] flights_replace(2) [OF assms entry, of m'] split(1) True by simp
    next
      case False
      then have m': "m_requests m' = smap_update (rp_id r) (Some ?info) (m_requests m)" by (auto simp: m'_def)
      have "icmp_inv m'"
        by (rule icmp_inv_update [OF assms _ _ m' timeout]) (use False split(1) i(2) in auto)
      then show ?thesis using flights_replace(1) [OF assms entry m'] split(1) by simp
    qed
    then show ?thesis using step timeout r' by auto
  qed
qed

lemma expire_requests_effect:
  assumes "list_all good_entry rs" "smap_ok rs"
  shows "\<exists>out rs'. expire_requests now rs = Some (out, rs') \<and> smap_ok rs' \<and>
    fst ` set rs' \<subseteq> fst ` set rs \<and> list_all good_entry rs' \<and>
    concat (map info_flights rs') = filter (\<lambda>f. now < timeout_ts (snd f)) (concat (map info_flights rs)) \<and>
    map (\<lambda>r. (rp_id r, rp_seqno r)) out =
      map flight_key (filter (\<lambda>f. timeout_ts (snd f) \<le> now) (concat (map info_flights rs))) \<and>
    list_all (\<lambda>r. rp_type r = ICMP_MT_DROP) out"
  using assms
proof (induction rs)
  case (Cons e rs)
  obtain k info where e: "e = (k, Some info)" "distinct (map ra_seqno (tries info))"
    using Cons.prems(1) by (cases e) (auto simp: good_entry_def)
  have pre: "list_all good_entry rs" "smap_ok rs" "\<forall>k' \<in> fst ` set rs. k < k'" using Cons.prems e by auto
  from Cons.IH [OF pre(1,2)] obtain out rs' where IH: "expire_requests now rs = Some (out, rs')" "smap_ok rs'"
    "fst ` set rs' \<subseteq> fst ` set rs" "list_all good_entry rs'"
    "concat (map info_flights rs') = filter (\<lambda>f. now < timeout_ts (snd f)) (concat (map info_flights rs))"
    "map (\<lambda>r. (rp_id r, rp_seqno r)) out =
      map flight_key (filter (\<lambda>f. timeout_ts (snd f) \<le> now) (concat (map info_flights rs)))"
    "list_all (\<lambda>r. rp_type r = ICMP_MT_DROP) out" by blast
  let ?left = "filter (\<lambda>t. now < timeout_ts t) (tries info)"
  let ?dead = "map (\<lambda>t. make_reply_on_timeout k (original_peer info) (ra_seqno t))
    (filter (\<lambda>t. timeout_ts t \<le> now) (tries info))"
  have above: "\<forall>k' \<in> fst ` set rs'. k < k'" using pre(3) IH(3) by blast
  have left: "distinct (map ra_seqno ?left)" using e(2) by (rule distinct_map_filter)
  have dead: "list_all (\<lambda>r. rp_type r = ICMP_MT_DROP) ?dead"
    by (simp add: list_all_iff make_reply_on_timeout_def)
  have keys: "map (\<lambda>r. (rp_id r, rp_seqno r)) ?dead =
      map flight_key (filter (\<lambda>f. timeout_ts (snd f) \<le> now) (map (Pair k) (tries info)))"
    by (simp add: filter_map comp_def make_reply_on_timeout_def flight_key_def)
  have step: "expire_requests now (e # rs) =
      Some (?dead @ out, if ?left = [] then rs' else (k, Some (info\<lparr>tries := ?left\<rparr>)) # rs')"
    using e IH(1) by (simp add: expire_tries_filter)
  have keep: "filter (\<lambda>f. now < timeout_ts (snd f)) (map (Pair k) (tries info)) = map (Pair k) ?left"
    by (simp add: filter_map comp_def)
  have flights: "concat (map info_flights (e # rs)) = map (Pair k) (tries info) @ concat (map info_flights rs)"
    using e by simp
  have dead_all: "list_all (\<lambda>r. rp_type r = ICMP_MT_DROP) (?dead @ out)" using dead IH(7) by (simp only: list_all_append simp_thms)
  have keys_all: "map (\<lambda>r. (rp_id r, rp_seqno r)) (?dead @ out) =
      map flight_key (filter (\<lambda>f. timeout_ts (snd f) \<le> now) (concat (map info_flights (e # rs))))"
    unfolding flights by (simp only: map_append filter_append keys IH(6))
  have left_all: "concat (map info_flights (if ?left = [] then rs' else (k, Some (info\<lparr>tries := ?left\<rparr>)) # rs')) =
      filter (\<lambda>f. now < timeout_ts (snd f)) (concat (map info_flights (e # rs)))"
    unfolding flights filter_append keep IH(5) [symmetric] by simp
  have good: "list_all good_entry (if ?left = [] then rs' else (k, Some (info\<lparr>tries := ?left\<rparr>)) # rs')"
    using IH(4) left by (simp add: good_entry_def [of "(k, _)"])
  have ok: "smap_ok (if ?left = [] then rs' else (k, Some (info\<lparr>tries := ?left\<rparr>)) # rs')"
    using IH(2) above by simp
  have sub: "fst ` set (if ?left = [] then rs' else (k, Some (info\<lparr>tries := ?left\<rparr>)) # rs') \<subseteq> fst ` set (e # rs)"
    using IH(3) e by auto
  show ?case by (intro exI conjI) (rule step ok sub good left_all keys_all dead_all)+
qed simp

lemma timer_effect:
  assumes "icmp_inv m"
  shows "\<exists>out m'. icmp_timer_callback now m = Some (out, m') \<and> icmp_inv m' \<and>
    request_timeout m' = request_timeout m \<and>
    flights m' = filter (\<lambda>f. now < timeout_ts (snd f)) (flights m) \<and>
    map (\<lambda>r. (rp_id r, rp_seqno r)) out = map flight_key (filter (\<lambda>f. timeout_ts (snd f) \<le> now) (flights m)) \<and>
    list_all (\<lambda>r. rp_type r = ICMP_MT_DROP) out"
proof -
  have "list_all good_entry (m_requests m)" "smap_ok (m_requests m)" using assms by (simp_all add: icmp_inv_def)
  from expire_requests_effect [OF this, of now] obtain out rs' where
    "expire_requests now (m_requests m) = Some (out, rs')" "smap_ok rs'" "list_all good_entry rs'"
    "concat (map info_flights rs') = filter (\<lambda>f. now < timeout_ts (snd f)) (flights m)"
    "map (\<lambda>r. (rp_id r, rp_seqno r)) out = map flight_key (filter (\<lambda>f. timeout_ts (snd f) \<le> now) (flights m))"
    "list_all (\<lambda>r. rp_type r = ICMP_MT_DROP) out" unfolding flights_def by blast
  then show ?thesis
    using assms
    by (intro exI [of _ out] exI [of _ "m\<lparr>m_requests := rs'\<rparr>"]) (simp add: icmp_timer_callback_def icmp_inv_def, simp add: flights_def)
qed

lemma distinct_info_flights:
  "good_entry (k, i) \<Longrightarrow> distinct (map flight_key (info_flights (k, i)))"
  by (auto simp: good_entry_def flight_key_def comp_def distinct_map inj_on_def)

lemma flight_key_ids: "fst ` flight_key ` set (info_flights (k, i)) \<subseteq> {k}"
  by (auto simp: info_flights_def flight_key_def split: option.splits)

lemma distinct_flight_keys:
  "list_all good_entry rs \<Longrightarrow> smap_ok rs \<Longrightarrow>
   distinct (concat (map (\<lambda>e. map flight_key (info_flights e)) rs)) \<and>
   fst ` set (concat (map (\<lambda>e. map flight_key (info_flights e)) rs)) \<subseteq> fst ` set rs"
proof (induction rs)
  case (Cons e rs)
  obtain k i where e: "e = (k, i)" by force
  let ?ks = "concat (map (\<lambda>e. map flight_key (info_flights e)) rs)"
  have IH: "distinct ?ks" "fst ` set ?ks \<subseteq> fst ` set rs" and k: "k \<notin> fst ` set rs" using Cons e by auto
  have "set (map flight_key (info_flights e)) \<inter> set ?ks = {}"
    using flight_key_ids [of k i] IH(2) k unfolding e set_map by blast
  moreover have "distinct (map flight_key (info_flights e))" using distinct_info_flights [of k i] Cons.prems e by simp
  moreover have "fst ` set (map flight_key (info_flights e)) \<subseteq> {k}" using flight_key_ids [of k i] e by simp
  ultimately show ?case
    using IH unfolding list.map concat.simps distinct_append set_append image_Un list.set image_insert e fst_conv by blast
qed simp

lemma distinct_in_flight: "icmp_inv m \<Longrightarrow> distinct (in_flight m)"
  using distinct_flight_keys [of "m_requests m"]
  by (simp add: icmp_inv_def in_flight_def flights_def map_concat comp_def)

section \<open>Runs\<close>

text \<open>
  What happens to the manager between its initialisation and its end: requests of the
  application, replies of the endpoint, and the timer. A run collects the requests that were
  passed to the endpoint and the replies that were passed to the application.
\<close>

datatype 'sa IcmpAction =
    GotRequest nanos "'sa IcmpEchoRequest"
  | GotReply "'sa IcmpEchoReply"
  | TimerFires nanos

definition icmp_do ::
    "'sa sa_ops \<Rightarrow> 'sa IcmpAction \<Rightarrow> 'sa IcmpManager \<Rightarrow>
     ((u16 \<times> u16) list \<times> 'sa IcmpEchoReply list \<times> 'sa IcmpManager) option" where
  "icmp_do ops a m =
     (case a of
        GotRequest now req \<Rightarrow>
          map_option (\<lambda>(st, m'). (if st = IM_MSGS_PASS then [(rq_id req, rq_seqno req)] else [], [], m'))
            (register_request now req m)
      | GotReply r \<Rightarrow>
          map_option (\<lambda>(st, r', m'). ([], if st = IM_MSGS_PASS then [r'] else [], m')) (register_reply ops r m)
      | TimerFires now \<Rightarrow> map_option (\<lambda>(out, m'). ([], out, m')) (icmp_timer_callback now m))"

fun icmp_run ::
    "'sa sa_ops \<Rightarrow> 'sa IcmpAction list \<Rightarrow> 'sa IcmpManager \<Rightarrow>
     ((u16 \<times> u16) list \<times> 'sa IcmpEchoReply list \<times> 'sa IcmpManager) option" where
  "icmp_run ops [] m = Some ([], [], m)"
| "icmp_run ops (a # as) m =
     do {
       (passed, answers, m') \<leftarrow> icmp_do ops a m;
       (passed', answers', m'') \<leftarrow> icmp_run ops as m';
       Some (passed @ passed', answers @ answers', m'')
     }"

definition reply_key :: "'sa IcmpEchoReply \<Rightarrow> u16 \<times> u16" where
  "reply_key r = (rp_id r, rp_seqno r)"

text \<open>The timer is armed while something is in flight.\<close>

definition timer_armed :: "'sa IcmpManager \<Rightarrow> bool" where
  "timer_armed m \<longleftrightarrow>
     (case m_timer m of None \<Rightarrow> m_requests m = []
      | Some p \<Rightarrow> map_option timer_period (request_timeout m) = Some p)"

lemma icmp_do_effect:
  assumes "icmp_inv m"
  shows "\<exists>passed answers m'. icmp_do ops a m = Some (passed, answers, m') \<and> icmp_inv m' \<and>
    request_timeout m' = request_timeout m \<and>
    mset passed + mset (in_flight m) = mset (map reply_key answers) + mset (in_flight m')"
proof (cases a)
  case (GotRequest now req)
  obtain t where t: "request_timeout m = Some t" using assms by (auto simp: icmp_inv_def)
  obtain st m' where r: "register_request now req m = Some (st, m')" "icmp_inv m'" "request_timeout m' = Some t"
    "if (rq_id req, rq_seqno req) \<in> set (in_flight m) then st = IM_MSGS_DROP \<and> m' = m
     else st = IM_MSGS_PASS \<and> mset (flights m') =
       add_mset (rq_id req, \<lparr>ra_seqno = rq_seqno req, timeout_ts = now + ns_of_ms t\<rparr>) (mset (flights m))"
    using register_request_effect [OF assms t, of now req] by blast
  have "icmp_do ops a m = Some (if st = IM_MSGS_PASS then [(rq_id req, rq_seqno req)] else [], [], m')"
    using r(1) GotRequest by (simp add: icmp_do_def)
  moreover have "mset (if st = IM_MSGS_PASS then [(rq_id req, rq_seqno req)] else []) + mset (in_flight m) =
      mset (in_flight m')"
    using r(4) by (auto simp: in_flight_def flight_key_def split: if_splits)
  ultimately show ?thesis using r(2,3) t by simp
next
  case (GotReply r)
  obtain st r' m' where r: "register_reply ops r m = Some (st, r', m')" "icmp_inv m'"
    "request_timeout m' = request_timeout m"
    "case st of IM_MSGS_DROP \<Rightarrow> m' = m
     | IM_MSGS_PASS \<Rightarrow> \<exists>t. ra_seqno t = rp_seqno r' \<and> mset (flights m) = add_mset (rp_id r', t) (mset (flights m'))"
    using register_reply_effect [OF assms, of ops r] by blast
  have "icmp_do ops a m = Some ([], if st = IM_MSGS_PASS then [r'] else [], m')"
    using r(1) GotReply by (simp add: icmp_do_def)
  moreover have "mset (in_flight m) = mset (map reply_key (if st = IM_MSGS_PASS then [r'] else [])) + mset (in_flight m')"
    using r(4) by (cases st) (auto simp: in_flight_def reply_key_def flight_key_def)
  ultimately show ?thesis using r(2,3) by simp
next
  case (TimerFires now)
  obtain out m' where t: "icmp_timer_callback now m = Some (out, m')" "icmp_inv m'"
    "request_timeout m' = request_timeout m"
    "flights m' = filter (\<lambda>f. now < timeout_ts (snd f)) (flights m)"
    "map reply_key out = map flight_key (filter (\<lambda>f. timeout_ts (snd f) \<le> now) (flights m))"
    using timer_effect [OF assms, of now] unfolding reply_key_def by blast
  have "mset (flights m) = mset (filter (\<lambda>f. timeout_ts (snd f) \<le> now) (flights m)) + mset (flights m')"
    using multiset_partition [of "mset (flights m)" "\<lambda>f. timeout_ts (snd f) \<le> now"]
    by (simp add: t(4) not_le)
  from arg_cong [where f = "image_mset flight_key", OF this]
  have "mset (in_flight m) = mset (map reply_key out) + mset (in_flight m')"
    unfolding t(5) in_flight_def mset_map by simp
  then show ?thesis using t(1-3) TimerFires by (simp add: icmp_do_def)
qed

lemma icmp_run_effect:
  assumes "icmp_inv m"
  shows "\<exists>passed answers m'. icmp_run ops as m = Some (passed, answers, m') \<and> icmp_inv m' \<and>
    request_timeout m' = request_timeout m \<and>
    mset passed + mset (in_flight m) = mset (map reply_key answers) + mset (in_flight m')"
  using assms
proof (induction as arbitrary: m)
  case (Cons a as)
  obtain passed answers m' where a: "icmp_do ops a m = Some (passed, answers, m')" "icmp_inv m'"
    "request_timeout m' = request_timeout m"
    "mset passed + mset (in_flight m) = mset (map reply_key answers) + mset (in_flight m')"
    using icmp_do_effect [OF Cons.prems] by blast
  obtain passed' answers' m'' where as: "icmp_run ops as m' = Some (passed', answers', m'')" "icmp_inv m''"
    "request_timeout m'' = request_timeout m'"
    "mset passed' + mset (in_flight m') = mset (map reply_key answers') + mset (in_flight m'')"
    using Cons.IH [OF a(2)] by blast
  have "mset (passed @ passed') + mset (in_flight m) = mset (map reply_key (answers @ answers')) + mset (in_flight m'')"
    using a(4) as(4) by (simp add: ac_simps)
  then show ?case using a(1,3) as(1-3) by simp
qed simp

lemma register_reply_timer:
  "register_reply ops r m = Some (st, r', m') \<Longrightarrow> m_timer m' = m_timer m \<and> request_timeout m' = request_timeout m"
  by (simp add: register_reply_def Let_def split: option.splits prod.splits if_splits) auto

lemma timer_armed_do:
  assumes "timer_armed m" "icmp_do ops a m = Some (passed, answers, m')"
  shows "timer_armed m'"
proof (cases a)
  case (GotRequest now req)
  then obtain st where "register_request now req m = Some (st, m')" using assms(2) by (auto simp: icmp_do_def)
  then show ?thesis
    using assms(1)
    by (cases "m_timer m"; cases "request_timeout m")
      (auto simp: timer_armed_def register_request_def request_info_def Let_def split: if_splits)
next
  case (GotReply r)
  then obtain st r' where step: "register_reply ops r m = Some (st, r', m')" using assms(2) by (auto simp: icmp_do_def)
  show ?thesis
  proof (cases "m_timer m")
    case None
    then have "m' = m" using step assms(1) by (simp add: timer_armed_def register_reply_def)
    then show ?thesis using assms(1) by simp
  next
    case (Some p)
    then show ?thesis using register_reply_timer [OF step] assms(1) by (simp add: timer_armed_def)
  qed
next
  case (TimerFires now)
  then obtain out where "icmp_timer_callback now m = Some (out, m')" using assms(2) by (auto simp: icmp_do_def)
  then show ?thesis
    using assms(1) by (cases "m_timer m") (auto simp: timer_armed_def icmp_timer_callback_def)
qed

lemma timer_armed_run:
  "icmp_run ops as m = Some (passed, answers, m') \<Longrightarrow> timer_armed m \<Longrightarrow> timer_armed m'"
proof (induction as arbitrary: m passed answers)
  case (Cons a as)
  then show ?case by (auto simp: bind_eq_Some_conv dest: timer_armed_do)
qed simp

lemma icmp_inv_init: "icmp_inv (icmp_init p icmp_manager_new)" "timer_armed (icmp_init p icmp_manager_new)"
  by (simp_all add: icmp_inv_def icmp_init_def icmp_manager_new_def timer_armed_def)

lemma in_flight_init: "in_flight (icmp_init p icmp_manager_new) = []"
  by (simp add: in_flight_def flights_def icmp_init_def icmp_manager_new_def)

section \<open>Properties\<close>

text \<open>
  Claim C20: echo requests are answered once. Whatever sequence of requests, replies and timer
  events the manager sees, no operation fails, the requests that it passed to the endpoint are
  exactly the ones it passed an answer for plus the ones in flight, each counted as often as it
  was passed, and no request is in flight twice.
\<close>

theorem echo_requests_answered_once:
  "\<exists>passed answers m.
     icmp_run ops actions (icmp_init timeout icmp_manager_new) = Some (passed, answers, m) \<and>
     mset passed = mset (map reply_key answers) + mset (in_flight m) \<and>
     distinct (in_flight m)"
  using icmp_run_effect [OF icmp_inv_init(1), of ops actions timeout] distinct_in_flight
  by (simp add: in_flight_init) blast

text \<open>
  no echo request is forgotten. In every state that a run reaches, the timer is armed
  with a tenth of the timeout as long as a request is in flight; when it fires, exactly the
  requests whose deadline has passed are answered, in the order of the table and with the type
  that stands for a dropped request, and the others stay in flight.
\<close>

theorem timer_answers_overdue_requests:
  assumes "icmp_run ops actions (icmp_init timeout icmp_manager_new) = Some (passed, answers, m)"
  shows "\<exists>out m'. icmp_timer_callback now m = Some (out, m') \<and>
    (in_flight m = [] \<or>
     m_timer m = Some (timer_period (case timeout of Some t \<Rightarrow> t | None \<Rightarrow> DEFAULT_PING_REQUEST_TIMEOUT))) \<and>
    map reply_key out = map flight_key (filter (\<lambda>f. timeout_ts (snd f) \<le> now) (flights m)) \<and>
    list_all (\<lambda>r. rp_type r = ICMP_MT_DROP) out \<and>
    flights m' = filter (\<lambda>f. now < timeout_ts (snd f)) (flights m)"
proof -
  have m: "icmp_inv m"
    "request_timeout m = Some (case timeout of Some t \<Rightarrow> t | None \<Rightarrow> DEFAULT_PING_REQUEST_TIMEOUT)"
    using icmp_run_effect [OF icmp_inv_init(1), of ops actions timeout] assms by (auto simp: icmp_init_def)
  have "timer_armed m" using timer_armed_run [OF assms icmp_inv_init(2)] .
  then have "in_flight m = [] \<or>
      m_timer m = Some (timer_period (case timeout of Some t \<Rightarrow> t | None \<Rightarrow> DEFAULT_PING_REQUEST_TIMEOUT))"
    using m(2) by (auto simp: timer_armed_def in_flight_def flights_def split: option.splits)
  then show ?thesis using timer_effect [OF m(1), of now] unfolding reply_key_def by blast
qed

definition sample_request :: "u16 \<Rightarrow> (bytes \<times> u16) IcmpEchoRequest" where
  "sample_request n = \<lparr>rq_peer = ([192, 0, 2, 1], 0), rq_id = 7, rq_seqno = n, rq_ttl = 64, rq_data_size = 56\<rparr>"

theorem timer_answers_overdue_requests_witness:
  "\<exists>passed m. icmp_run plain_ops [GotRequest 0 (sample_request 1), GotRequest 2000000000 (sample_request 2)]
       (icmp_init None icmp_manager_new) = Some (passed, [], m) \<and>
     m_timer m = Some 300 \<and>
     map_option (\<lambda>(out, m'). (map reply_key out, in_flight m')) (icmp_timer_callback 3000000000 m) =
       Some ([(7, 1)], [(7, 2)])"
proof -
  let ?m = "\<lparr>m_requests = [(7, Some \<lparr>original_peer = ([192, 0, 2, 1], 0), tries =
      [\<lparr>ra_seqno = 1, timeout_ts = 3000000000\<rparr>, \<lparr>ra_seqno = 2, timeout_ts = 5000000000\<rparr>]\<rparr>)],
    request_timeout = Some 3000, m_timer = Some 300\<rparr>"
  have period: "timer_period 3000 = 300" by (simp add: timer_period_def timer_ms_id)
  have run: "icmp_run plain_ops [GotRequest 0 (sample_request 1), GotRequest 2000000000 (sample_request 2)]
      (icmp_init None icmp_manager_new) = Some ([(7, 1), (7, 2)], [], ?m)"
    by (simp add: icmp_do_def register_request_def request_info_def icmp_init_def icmp_manager_new_def
        DEFAULT_PING_REQUEST_TIMEOUT_def ns_of_ms_def period sample_request_def)
  show ?thesis
    using timer_answers_overdue_requests [OF run, of 3000000000] run
    by (auto simp: in_flight_def flights_def flight_key_def)
qed

end
