(* ===== verification/Event_Loop.thy ===== *)
theory Event_Loop
  imports Prelude "HOL-Library.Multiset"
begin

text \<open>
  The event loop (\<^verbatim>\<open>common/src/event_loop.cpp\<close>): a queue of tasks and a list of deferred tasks
  behind a mutex, driven by a libevent base. Every section that holds the mutex is one function
  on the state. The step relation interleaves these sections, the actions that run between
  them, and the threads that submit, cancel, stop and restart. What libevent does is reduced to
  the number of pending one-shot events for \<open>run_task_queue\<close> and the choice of the timers that fire.
  Task identifiers come from a 64-bit counter and are integers here.
\<close>

section \<open>State\<close>

type_synonym TaskId = int

text \<open>The callbacks of a task are identified by the task; only the finalizer may be null.\<close>

record VpnEventLoopTask =
  has_finalize :: bool

record TaskInfo =
  ti_id :: TaskId
  ti_task :: VpnEventLoopTask

datatype EventLoopState = ELS_STOPPED | ELS_RUNNING | ELS_BASE_EXITED

record VpnEventLoop =
  task_queue_scheduled :: bool
  task_queue :: "TaskInfo list"
  deferred_task_queue :: "TaskInfo list"
  el_state :: EventLoopState
  stopping_externally :: bool

definition TASK_QUEUE_BUDGET :: nat where "TASK_QUEUE_BUDGET = 64"

definition event_loop_new :: VpnEventLoop where
  "event_loop_new =
     \<lparr>task_queue_scheduled = False, task_queue = [], deferred_task_queue = [], el_state = ELS_STOPPED,
      stopping_externally = False\<rparr>"

text \<open>
  What happens to the tasks, in the order in which it happens. \<open>Discarded\<close> is a task that is refused,
  cancelled or dropped at the end of the loop.
\<close>

datatype LoopEvent =
    Submitted TaskInfo
  | Ran TaskId
  | RanDeferred TaskId
  | Discarded TaskId
  | Finalized TaskId

text \<open>
  The loop and what is in progress around it: threads between setting the flag and calling
  \<open>event_base_once\<close> (\<open>arming\<close>), pending one-shot events (\<open>armed\<close>), the local variables of
  \<open>run_task_queue\<close> (\<open>runner\<close>: the last identifier of the batch and the number of tasks run), the task
  whose action is running, and the cancelled tasks whose finalizer is still to be called.
\<close>

record System =
  lp :: VpnEventLoop
  next_task_id :: TaskId
  arming :: nat
  armed :: nat
  runner :: "(TaskId \<times> nat) option"
  current :: "TaskInfo option"
  cancelling :: "TaskInfo list"
  history :: "LoopEvent list"

definition system_new :: System where
  "system_new =
     \<lparr>lp = event_loop_new, next_task_id = 0, arming = 0, armed = 0, runner = None, current = None,
      cancelling = [], history = []\<rparr>"

section \<open>Operations\<close>

definition note_event :: "LoopEvent \<Rightarrow> System \<Rightarrow> System" where
  "note_event e s = s\<lparr>history := history s @ [e]\<rparr>"

definition finalize_task :: "TaskInfo \<Rightarrow> System \<Rightarrow> System" where
  "finalize_task t s = (if has_finalize (ti_task t) then note_event (Finalized (ti_id t)) s else s)"

definition discard_task :: "TaskInfo \<Rightarrow> System \<Rightarrow> System" where
  "discard_task t s = finalize_task t (note_event (Discarded (ti_id t)) s)"

definition draw_id :: "VpnEventLoopTask \<Rightarrow> System \<Rightarrow> TaskInfo \<times> System" where
  "draw_id task s =
     (let t = \<lparr>ti_id = next_task_id s, ti_task = task\<rparr>
      in (t, note_event (Submitted t) (s\<lparr>next_task_id := next_task_id s + 1\<rparr>)))"

definition enqueue :: "TaskInfo \<Rightarrow> System \<Rightarrow> System" where
  "enqueue t s =
     (if task_queue_scheduled (lp s) then s\<lparr>lp := (lp s)\<lparr>task_queue := task_queue (lp s) @ [t]\<rparr>\<rparr>
      else s\<lparr>lp := (lp s)\<lparr>task_queue := task_queue (lp s) @ [t], task_queue_scheduled := True\<rparr>,
             arming := arming s + 1\<rparr>)"

text \<open>The result is the identifier or -1.\<close>

definition vpn_event_loop_submit :: "VpnEventLoopTask \<Rightarrow> System \<Rightarrow> TaskId \<times> System" where
  "vpn_event_loop_submit task s =
     (let (t, s1) = draw_id task s
      in if el_state (lp s1) = ELS_BASE_EXITED then (-1, discard_task t s1) else (ti_id t, enqueue t s1))"

text \<open>\<open>None\<close>: the finalizer is called through a null pointer.\<close>

definition vpn_event_loop_schedule :: "VpnEventLoopTask \<Rightarrow> System \<Rightarrow> (TaskId \<times> System) option" where
  "vpn_event_loop_schedule task s =
     (let (t, s1) = draw_id task s
      in if el_state (lp s1) = ELS_BASE_EXITED
         then (if has_finalize task then Some (-1, discard_task t s1) else None)
         else Some (ti_id t, s1\<lparr>lp := (lp s1)\<lparr>deferred_task_queue := deferred_task_queue (lp s1) @ [t]\<rparr>\<rparr>))"

text \<open>The section of \<open>vpn_event_loop_cancel\<close> that holds the mutex, and the part after it.\<close>

definition take_task :: "TaskId \<Rightarrow> VpnEventLoop \<Rightarrow> (TaskInfo \<times> VpnEventLoop) option" where
  "take_task i l =
     (case List.extract (\<lambda>t. ti_id t = i) (task_queue l) of
        Some (before, t, after) \<Rightarrow> Some (t, l\<lparr>task_queue := before @ after\<rparr>)
      | None \<Rightarrow>
          (case List.extract (\<lambda>t. ti_id t = i) (deferred_task_queue l) of
             Some (before, t, after) \<Rightarrow> Some (t, l\<lparr>deferred_task_queue := before @ after\<rparr>)
           | None \<Rightarrow> None))"

definition vpn_event_loop_cancel :: "TaskId \<Rightarrow> System \<Rightarrow> System" where
  "vpn_event_loop_cancel i s =
     (case take_task i (lp s) of
        None \<Rightarrow> s
      | Some (t, l) \<Rightarrow> note_event (Discarded (ti_id t)) (s\<lparr>lp := l, cancelling := t # cancelling s\<rparr>))"

definition finish_cancel :: "TaskInfo \<Rightarrow> System \<Rightarrow> System" where
  "finish_cancel t s = finalize_task t (s\<lparr>cancelling := remove1 t (cancelling s)\<rparr>)"

text \<open>The two halves of \<open>vpn_event_loop_run\<close>; \<open>None\<close> is the failed assertion.\<close>

definition vpn_event_loop_run_begin :: "VpnEventLoop \<Rightarrow> VpnEventLoop option" where
  "vpn_event_loop_run_begin l = (if el_state l = ELS_STOPPED then Some (l\<lparr>el_state := ELS_RUNNING\<rparr>) else None)"

definition vpn_event_loop_run_end :: "VpnEventLoop \<Rightarrow> VpnEventLoop" where
  "vpn_event_loop_run_end l =
     l\<lparr>el_state := (if stopping_externally l then ELS_BASE_EXITED else ELS_STOPPED)\<rparr>"

text \<open>
  \<open>vpn_event_loop_finalize_exit\<close> up to the wait, and after it; \<open>vpn_event_loop_hijack\<close> has the same
  first half.
\<close>

definition stop_begin :: "VpnEventLoop \<Rightarrow> VpnEventLoop" where
  "stop_begin l = l\<lparr>stopping_externally := True\<rparr>"

definition finalize_exit_end :: "System \<Rightarrow> System" where
  "finalize_exit_end s =
     (let s1 = fold discard_task (task_queue (lp s)) s;
          s2 = s1\<lparr>lp := (lp s1)\<lparr>task_queue := []\<rparr>\<rparr>;
          s3 = fold discard_task (deferred_task_queue (lp s2)) s2
      in s3\<lparr>lp := (lp s3)\<lparr>deferred_task_queue := [], el_state := ELS_STOPPED, stopping_externally := False\<rparr>\<rparr>)"

definition hijack_end :: "VpnEventLoop \<Rightarrow> VpnEventLoop" where
  "hijack_end l = l\<lparr>el_state := ELS_STOPPED, stopping_externally := False\<rparr>"

text \<open>The last two arguments are what libevent says of an exit or a break of the base.\<close>

definition vpn_event_loop_is_active :: "bool \<Rightarrow> bool \<Rightarrow> VpnEventLoop option \<Rightarrow> bool" where
  "vpn_event_loop_is_active got_exit got_break l =
     (case l of None \<Rightarrow> False | Some l \<Rightarrow> el_state l = ELS_RUNNING \<and> \<not> got_exit \<and> \<not> got_break)"

text \<open>The first section of \<open>run_task_queue\<close>; \<open>None\<close> is the failed assertion.\<close>

definition batch_last_id :: "VpnEventLoop \<Rightarrow> TaskId option" where
  "batch_last_id l =
     (case task_queue l of
        [] \<Rightarrow> Some (-1)
      | front # _ \<Rightarrow>
          if ti_id front \<le> ti_id (last (task_queue l)) then Some (ti_id (last (task_queue l))) else None)"

text \<open>
  The section at the head of its loop: the queue is empty, or the batch is over and the function
  is armed again, or a task is taken.
\<close>

datatype LoopHead = QueueEmpty | BatchOver | RunTask TaskInfo

definition loop_head :: "TaskId \<Rightarrow> nat \<Rightarrow> VpnEventLoop \<Rightarrow> LoopHead \<times> VpnEventLoop" where
  "loop_head last_id i l =
     (case task_queue l of
        [] \<Rightarrow> (QueueEmpty, l\<lparr>task_queue_scheduled := False\<rparr>)
      | front # rest \<Rightarrow>
          if last_id < ti_id front \<or> i = TASK_QUEUE_BUDGET then (BatchOver, l)
          else (RunTask front, l\<lparr>task_queue := rest\<rparr>))"

definition queue_step :: "TaskId \<Rightarrow> nat \<Rightarrow> System \<Rightarrow> System" where
  "queue_step last_id i s =
     (case loop_head last_id i (lp s) of
        (QueueEmpty, l) \<Rightarrow> s\<lparr>lp := l, runner := None\<rparr>
      | (BatchOver, l) \<Rightarrow> s\<lparr>lp := l, runner := None, armed := armed s + 1\<rparr>
      | (RunTask t, l) \<Rightarrow> note_event (Ran (ti_id t)) (s\<lparr>lp := l, current := Some t\<rparr>))"

definition end_action :: "TaskInfo \<Rightarrow> System \<Rightarrow> System" where
  "end_action t s =
     finalize_task t (s\<lparr>current := None, runner := map_option (\<lambda>(last_id, i). (last_id, i + 1)) (runner s)\<rparr>)"

definition run_deferred_task :: "TaskId \<Rightarrow> System \<Rightarrow> System" where
  "run_deferred_task i s =
     (case List.extract (\<lambda>t. ti_id t = i) (deferred_task_queue (lp s)) of
        None \<Rightarrow> s
      | Some (before, t, after) \<Rightarrow>
          note_event (RanDeferred (ti_id t))
            (s\<lparr>lp := (lp s)\<lparr>deferred_task_queue := before @ after\<rparr>, current := Some t\<rparr>))"

section \<open>Interleaving\<close>

text \<open>
  Callbacks of the base run one at a time, only while \<open>vpn_event_loop_run\<close> is in progress, and the base
  returns only between them.
\<close>

inductive el_step :: "System \<Rightarrow> System \<Rightarrow> bool" where
  submit: "vpn_event_loop_submit task s = (i, s') \<Longrightarrow> el_step s s'"
| schedule: "vpn_event_loop_schedule task s = Some (i, s') \<Longrightarrow> el_step s s'"
| arm: "arming s = Suc n \<Longrightarrow> el_step s (s\<lparr>arming := n, armed := armed s + 1\<rparr>)"
| cancel: "el_step s (vpn_event_loop_cancel i s)"
| cancelled: "t \<in> set (cancelling s) \<Longrightarrow> el_step s (finish_cancel t s)"
| run: "vpn_event_loop_run_begin (lp s) = Some l \<Longrightarrow> el_step s (s\<lparr>lp := l\<rparr>)"
| run_end: "el_state (lp s) = ELS_RUNNING \<Longrightarrow> runner s = None \<Longrightarrow> current s = None \<Longrightarrow>
    el_step s (s\<lparr>lp := vpn_event_loop_run_end (lp s)\<rparr>)"
| stop: "el_step s (s\<lparr>lp := stop_begin (lp s)\<rparr>)"
| stopped: "el_state (lp s) \<noteq> ELS_RUNNING \<Longrightarrow> el_step s (finalize_exit_end s)"
| hijacked: "el_state (lp s) \<noteq> ELS_RUNNING \<Longrightarrow> el_step s (s\<lparr>lp := hijack_end (lp s)\<rparr>)"
| fire: "el_state (lp s) = ELS_RUNNING \<Longrightarrow> runner s = None \<Longrightarrow> current s = None \<Longrightarrow> armed s = Suc n \<Longrightarrow>
    batch_last_id (lp s) = Some last_id \<Longrightarrow> el_step s (s\<lparr>armed := n, runner := Some (last_id, 0)\<rparr>)"
| queue: "runner s = Some (last_id, i) \<Longrightarrow> current s = None \<Longrightarrow> el_step s (queue_step last_id i s)"
| acted: "current s = Some t \<Longrightarrow> el_step s (end_action t s)"
| timer: "el_state (lp s) = ELS_RUNNING \<Longrightarrow> runner s = None \<Longrightarrow> current s = None \<Longrightarrow>
    el_step s (run_deferred_task i s)"

inductive el_reachable :: "System \<Rightarrow> bool" where
  start: "el_reachable system_new"
| more: "el_reachable s \<Longrightarrow> el_step s s' \<Longrightarrow> el_reachable s'"

lemmas [loop_defs] =
  note_event_def draw_id_def finish_cancel_def vpn_event_loop_run_begin_def vpn_event_loop_run_end_def
  stop_begin_def hijack_end_def end_action_def

end
