(* ===== verification/Event_Loop_Properties.thy ===== *)
theory Event_Loop_Properties
  imports Event_Loop
begin

text \<open>
  What the event loop guarantees in every interleaving: no task is lost or run twice, every
  finalizer is called once, the tasks of the queue run in the order of submission, and a queue
  with tasks in it is always about to be served.
\<close>

section \<open>Readings of the history\<close>

definition submitted :: "LoopEvent list \<Rightarrow> TaskInfo list" where
  "submitted h = concat (map (\<lambda>e. case e of Submitted t \<Rightarrow> [t] | _ \<Rightarrow> []) h)"

definition ran_ids :: "LoopEvent list \<Rightarrow> TaskId list" where
  "ran_ids h = concat (map (\<lambda>e. case e of Ran i \<Rightarrow> [i] | _ \<Rightarrow> []) h)"

definition ran_deferred :: "LoopEvent list \<Rightarrow> TaskId list" where
  "ran_deferred h = concat (map (\<lambda>e. case e of RanDeferred i \<Rightarrow> [i] | _ \<Rightarrow> []) h)"

definition discarded :: "LoopEvent list \<Rightarrow> TaskId list" where
  "discarded h = concat (map (\<lambda>e. case e of Discarded i \<Rightarrow> [i] | _ \<Rightarrow> []) h)"

definition finalized :: "LoopEvent list \<Rightarrow> TaskId list" where
  "finalized h = concat (map (\<lambda>e. case e of Finalized i \<Rightarrow> [i] | _ \<Rightarrow> []) h)"

lemmas readings = submitted_def ran_ids_def ran_deferred_def discarded_def finalized_def

definition fin_ids :: "TaskInfo list \<Rightarrow> TaskId list" where
  "fin_ids ts = map ti_id (filter (\<lambda>t. has_finalize (ti_task t)) ts)"

definition queued :: "System \<Rightarrow> TaskInfo list" where
  "queued s = task_queue (lp s) @ deferred_task_queue (lp s)"

definition pending :: "System \<Rightarrow> TaskInfo list" where
  "pending s = queued s @ (case current s of None \<Rightarrow> [] | Some t \<Rightarrow> [t]) @ cancelling s"

lemma fin_ids_simps [simp]:
  "fin_ids [] = []"
  "fin_ids (t # ts) = (if has_finalize (ti_task t) then ti_id t # fin_ids ts else fin_ids ts)"
  "fin_ids (ts @ us) = fin_ids ts @ fin_ids us"
  by (simp_all add: fin_ids_def)

lemma mset_fin_ids_remove1:
  "t \<in> set ts \<Longrightarrow> mset (fin_ids ts) = mset (fin_ids [t]) + mset (fin_ids (remove1 t ts))"
  by (induction ts) auto

definition outcome_events :: "TaskInfo \<Rightarrow> LoopEvent list" where
  "outcome_events t = (if has_finalize (ti_task t) then [Finalized (ti_id t)] else [])"

lemma finalize_task_eq: "finalize_task t s = s\<lparr>history := history s @ outcome_events t\<rparr>"
  by (simp add: finalize_task_def outcome_events_def note_event_def)

lemma discard_task_eq: "discard_task t s = s\<lparr>history := history s @ Discarded (ti_id t) # outcome_events t\<rparr>"
  by (simp add: discard_task_def finalize_task_eq note_event_def)

lemma fold_discard_eq:
  "fold discard_task ts s =
     s\<lparr>history := history s @ concat (map (\<lambda>t. Discarded (ti_id t) # outcome_events t) ts)\<rparr>"
  by (induction ts arbitrary: s) (simp_all add: discard_task_eq)

lemma finalize_exit_end_eq:
  "finalize_exit_end s =
     s\<lparr>history := history s @ concat (map (\<lambda>t. Discarded (ti_id t) # outcome_events t) (queued s)),
       lp := (lp s)\<lparr>task_queue := [], deferred_task_queue := [], el_state := ELS_STOPPED,
                    stopping_externally := False\<rparr>\<rparr>"
  by (simp add: finalize_exit_end_def fold_discard_eq queued_def Let_def)

lemma readings_outcome [simp]:
  "submitted (outcome_events t) = []" "ran_ids (outcome_events t) = []" "ran_deferred (outcome_events t) = []"
  "discarded (outcome_events t) = []" "finalized (outcome_events t) = fin_ids [t]"
  by (simp_all add: readings outcome_events_def)

lemma readings_append [simp]:
  "submitted (g @ h) = submitted g @ submitted h" "ran_ids (g @ h) = ran_ids g @ ran_ids h"
  "ran_deferred (g @ h) = ran_deferred g @ ran_deferred h" "discarded (g @ h) = discarded g @ discarded h"
  "finalized (g @ h) = finalized g @ finalized h"
  by (simp_all add: readings)

lemma readings_Nil [simp]:
  "submitted [] = []" "ran_ids [] = []" "ran_deferred [] = []" "discarded [] = []" "finalized [] = []"
  by (simp_all add: readings)

lemma readings_Cons [simp]:
  "submitted (e # h) = (case e of Submitted t \<Rightarrow> [t] | _ \<Rightarrow> []) @ submitted h"
  "ran_ids (e # h) = (case e of Ran i \<Rightarrow> [i] | _ \<Rightarrow> []) @ ran_ids h"
  "ran_deferred (e # h) = (case e of RanDeferred i \<Rightarrow> [i] | _ \<Rightarrow> []) @ ran_deferred h"
  "discarded (e # h) = (case e of Discarded i \<Rightarrow> [i] | _ \<Rightarrow> []) @ discarded h"
  "finalized (e # h) = (case e of Finalized i \<Rightarrow> [i] | _ \<Rightarrow> []) @ finalized h"
  by (simp_all add: readings)

lemma readings_discard_all [simp]:
  defines "d \<equiv> \<lambda>ts. concat (map (\<lambda>t. Discarded (ti_id t) # outcome_events t) ts)"
  shows "submitted (d ts) = []" "ran_ids (d ts) = []" "ran_deferred (d ts) = []"
    "discarded (d ts) = map ti_id ts" "finalized (d ts) = fin_ids ts"
  unfolding d_def by (induction ts) auto

section \<open>No task is lost\<close>

definition tasks_inv :: "System \<Rightarrow> bool" where
  "tasks_inv s \<longleftrightarrow>
     mset (map ti_id (submitted (history s))) =
       mset (ran_ids (history s)) + mset (ran_deferred (history s)) + mset (discarded (history s)) +
       mset (map ti_id (queued s)) \<and>
     mset (fin_ids (submitted (history s))) = mset (finalized (history s)) + mset (fin_ids (pending s)) \<and>
     distinct (map ti_id (submitted (history s))) \<and>
     (\<forall>t \<in> set (submitted (history s)). ti_id t < next_task_id s)"

lemmas tasks_defs = tasks_inv_def queued_def pending_def

lemma take_task_cases:
  assumes "take_task i l = Some (t, l')"
  obtains (queue) a b where "task_queue l = a @ t # b" "l' = l\<lparr>task_queue := a @ b\<rparr>"
  | (deferred) a b where "deferred_task_queue l = a @ t # b" "l' = l\<lparr>deferred_task_queue := a @ b\<rparr>"
proof (cases "List.extract (\<lambda>t. ti_id t = i) (task_queue l)")
  case None
  then show ?thesis using assms deferred by (auto simp: take_task_def extract_Some_iff split: option.splits)
next
  case (Some x)
  obtain a t' b where x: "x = (a, t', b)" by (cases x)
  then have "t' = t" "l' = l\<lparr>task_queue := a @ b\<rparr>" using assms Some by (simp_all add: take_task_def)
  moreover have "task_queue l = a @ t' # b" using Some x by (simp add: extract_Some_iff)
  ultimately show ?thesis using queue by blast
qed

lemma take_task_eq:
  assumes "take_task i l = Some (t, l')"
  shows "\<exists>a b. task_queue l @ deferred_task_queue l = a @ t # b \<and>
    task_queue l' @ deferred_task_queue l' = a @ b"
  using assms
proof (cases rule: take_task_cases)
  case (queue a b)
  then show ?thesis by (intro exI [of _ a] exI [of _ "b @ deferred_task_queue l"]) simp
next
  case (deferred a b)
  then show ?thesis by (intro exI [of _ "task_queue l @ a"] exI [of _ b]) simp
qed

text \<open>The two operations that take in a task, with the state written out.\<close>

lemma submit_effect:
  assumes "vpn_event_loop_submit task s = (i, s')"
  defines "t \<equiv> \<lparr>ti_id = next_task_id s, ti_task = task\<rparr>"
  shows "s' = (if el_state (lp s) = ELS_BASE_EXITED
    then s\<lparr>next_task_id := next_task_id s + 1,
           history := history s @ Submitted t # Discarded (ti_id t) # outcome_events t\<rparr>
    else s\<lparr>next_task_id := next_task_id s + 1, history := history s @ [Submitted t],
           lp := (lp s)\<lparr>task_queue := task_queue (lp s) @ [t], task_queue_scheduled := True\<rparr>,
           arming := (if task_queue_scheduled (lp s) then arming s else arming s + 1)\<rparr>)"
proof -
  have "(lp s)\<lparr>task_queue_scheduled := True\<rparr> = lp s" if "task_queue_scheduled (lp s)"
    using that by (cases "lp s") simp
  then have "(lp s)\<lparr>task_queue := q, task_queue_scheduled := True\<rparr> = (lp s)\<lparr>task_queue := q\<rparr>"
    if "task_queue_scheduled (lp s)" for q using that by (cases "lp s") simp
  then show ?thesis
    using assms
    by (cases "task_queue_scheduled (lp s)")
      (auto simp: vpn_event_loop_submit_def draw_id_def note_event_def discard_task_eq enqueue_def Let_def split: if_splits)
qed

lemma schedule_effect:
  assumes "vpn_event_loop_schedule task s = Some (i, s')"
  defines "t \<equiv> \<lparr>ti_id = next_task_id s, ti_task = task\<rparr>"
  shows "s' = (if el_state (lp s) = ELS_BASE_EXITED
    then s\<lparr>next_task_id := next_task_id s + 1,
           history := history s @ Submitted t # Discarded (ti_id t) # outcome_events t\<rparr>
    else s\<lparr>next_task_id := next_task_id s + 1, history := history s @ [Submitted t],
           lp := (lp s)\<lparr>deferred_task_queue := deferred_task_queue (lp s) @ [t]\<rparr>\<rparr>)"
  using assms
  by (auto simp: vpn_event_loop_schedule_def draw_id_def note_event_def discard_task_eq Let_def split: if_splits)

lemma tasks_inv_taken_in:
  assumes "tasks_inv s" and t: "t = \<lparr>ti_id = next_task_id s, ti_task = task\<rparr>"
    and "next_task_id s' = next_task_id s + 1" "current s' = current s" "cancelling s' = cancelling s"
    and "queued s' = queued s \<and> history s' = history s @ Submitted t # Discarded (ti_id t) # outcome_events t \<or>
         mset (queued s') = add_mset t (mset (queued s)) \<and> mset (fin_ids (queued s')) = mset (fin_ids [t]) + mset (fin_ids (queued s)) \<and>
         history s' = history s @ [Submitted t]"
  shows "tasks_inv s'"
proof -
  have "\<forall>x \<in> set (submitted (history s)). ti_id x \<noteq> next_task_id s" using assms(1) by (auto simp: tasks_inv_def)
  then have "distinct (map ti_id (submitted (history s) @ [t]))"
    using assms(1) t by (auto simp: tasks_inv_def)
  moreover have "\<forall>x \<in> set (submitted (history s) @ [t]). ti_id x < next_task_id s'"
    using assms(1,3) t by (auto simp: tasks_inv_def)
  ultimately show ?thesis
    using assms(1,4-) by (auto simp: tasks_inv_def pending_def)
qed

lemma tasks_inv_step:
  assumes "el_step s s'" "tasks_inv s"
  shows "tasks_inv s'"
  using assms(1)
proof (cases rule: el_step.cases)
  case (submit task i)
  show ?thesis
    by (rule tasks_inv_taken_in [OF assms(2) refl, of _ task])
      (use submit_effect [OF submit] in \<open>auto simp: queued_def split: if_splits\<close>)
next
  case (schedule task i)
  show ?thesis
    by (rule tasks_inv_taken_in [OF assms(2) refl, of _ task])
      (use schedule_effect [OF schedule] in \<open>auto simp: queued_def split: if_splits\<close>)
next
  case (cancel i)
  show ?thesis
  proof (cases "take_task i (lp s)")
    case None
    then show ?thesis using cancel assms(2) by (simp add: vpn_event_loop_cancel_def)
  next
    case (Some x)
    obtain t l where x: "x = (t, l)" by force
    with Some obtain a b where ab: "queued s = a @ t # b" "task_queue l @ deferred_task_queue l = a @ b"
      using take_task_eq unfolding queued_def by blast
    then have "queued s' = a @ b" "cancelling s' = t # cancelling s" "current s' = current s"
      "history s' = history s @ [Discarded (ti_id t)]" "next_task_id s' = next_task_id s"
      using Some x cancel by (simp_all add: vpn_event_loop_cancel_def note_event_def queued_def)
    then show ?thesis using ab(1) assms(2) by (simp add: tasks_inv_def pending_def)
  qed
next
  case (cancelled t)
  then show ?thesis
    using assms(2) mset_fin_ids_remove1 [of t "cancelling s"]
    by (simp add: finish_cancel_def finalize_task_eq tasks_defs)
next
  case stopped
  then show ?thesis
    using assms(2) by (simp add: finalize_exit_end_eq tasks_defs)
next
  case (queue last_id i)
  then show ?thesis
    using assms(2)
    by (cases "task_queue (lp s)") (simp_all add: queue_step_def loop_head_def note_event_def tasks_defs)
next
  case (acted t)
  then show ?thesis using assms(2) by (simp add: end_action_def finalize_task_eq tasks_defs)
next
  case (timer i)
  then show ?thesis
    using assms(2)
    by (cases "List.extract (\<lambda>t. ti_id t = i) (deferred_task_queue (lp s))")
      (auto simp: run_deferred_task_def extract_Some_iff note_event_def tasks_defs)
qed (use assms(2) in \<open>auto simp: tasks_defs vpn_event_loop_run_begin_def vpn_event_loop_run_end_def stop_begin_def
    hijack_end_def split: if_splits\<close>)

lemma tasks_inv_reachable: "el_reachable s \<Longrightarrow> tasks_inv s"
proof (induction rule: el_reachable.induct)
  case start
  show ?case by (simp add: system_new_def event_loop_new_def tasks_defs)
qed (rule tasks_inv_step)

section \<open>Order and scheduling\<close>

definition order_inv :: "System \<Rightarrow> bool" where
  "order_inv s \<longleftrightarrow>
     sorted_wrt (<) (ran_ids (history s) @ map ti_id (task_queue (lp s))) \<and>
     list_all (\<lambda>i. 0 \<le> i \<and> i < next_task_id s) (ran_ids (history s) @ map ti_id (task_queue (lp s))) \<and>
     0 \<le> next_task_id s"

lemma order_inv_same:
  "order_inv s \<Longrightarrow> ran_ids (history s') = ran_ids (history s) \<Longrightarrow> task_queue (lp s') = task_queue (lp s) \<Longrightarrow>
   next_task_id s \<le> next_task_id s' \<Longrightarrow> order_inv s'"
  by (auto simp: order_inv_def list_all_iff intro: less_le_trans)

lemma order_inv_step:
  assumes "el_step s s'" "order_inv s"
  shows "order_inv s'"
  using assms(1)
proof (cases rule: el_step.cases)
  case (submit task i)
  from submit_effect [OF submit] show ?thesis
  proof (cases "el_state (lp s) = ELS_BASE_EXITED")
    case True
    with submit_effect [OF submit] show ?thesis by (intro order_inv_same [OF assms(2)]) simp_all
  next
    case False
    with submit_effect [OF submit] show ?thesis
      using assms(2) by (auto simp: order_inv_def sorted_wrt_append list_all_iff intro: less_imp_le)
  qed
next
  case (schedule task i)
  with schedule_effect [OF schedule] show ?thesis by (intro order_inv_same [OF assms(2)]) simp_all
next
  case (cancel i)
  show ?thesis
  proof (cases "take_task i (lp s)")
    case (Some x)
    obtain t l where x: "x = (t, l)" by force
    have s': "ran_ids (history s') = ran_ids (history s)" "lp s' = l" "next_task_id s' = next_task_id s"
      using cancel Some x by (simp_all add: vpn_event_loop_cancel_def note_event_def)
    from Some [unfolded x] show ?thesis
      using assms(2) s' by (cases rule: take_task_cases) (auto simp: order_inv_def sorted_wrt_append)
  qed (use cancel assms(2) in \<open>simp add: vpn_event_loop_cancel_def\<close>)
next
  case stopped
  then show ?thesis using assms(2) by (simp add: finalize_exit_end_eq order_inv_def sorted_wrt_append)
next
  case (queue last_id i)
  then show ?thesis
    using assms(2)
    by (cases "task_queue (lp s)")
      (simp_all add: queue_step_def loop_head_def note_event_def order_inv_def)
qed (use assms(2) in \<open>auto simp: finish_cancel_def end_action_def run_deferred_task_def finalize_task_eq note_event_def
    vpn_event_loop_run_begin_def vpn_event_loop_run_end_def stop_begin_def hijack_end_def
    split: if_splits option.splits intro!: order_inv_same [OF assms(2)]\<close>)

lemma order_inv_reachable: "el_reachable s \<Longrightarrow> order_inv s"
proof (induction rule: el_reachable.induct)
  case start
  show ?case by (simp add: system_new_def event_loop_new_def order_inv_def)
qed (rule order_inv_step)

text \<open>The flag stands for exactly one thread, pending event or batch that will look at the queue.\<close>

definition servers :: "System \<Rightarrow> nat" where
  "servers s = arming s + armed s + (if runner s = None then 0 else 1)"

definition sched_inv :: "System \<Rightarrow> bool" where
  "sched_inv s \<longleftrightarrow>
     servers s = (if task_queue_scheduled (lp s) then 1 else 0) \<and>
     (task_queue (lp s) \<noteq> [] \<longrightarrow> task_queue_scheduled (lp s)) \<and>
     (case runner s of None \<Rightarrow> True
      | Some (last_id, i) \<Rightarrow> i \<le> TASK_QUEUE_BUDGET \<and> (current s \<noteq> None \<longrightarrow> i < TASK_QUEUE_BUDGET)) \<and>
     (runner s \<noteq> None \<or> current s \<noteq> None \<longrightarrow> el_state (lp s) = ELS_RUNNING)"

lemmas sched_defs = sched_inv_def servers_def

lemma take_task_keeps:
  assumes "take_task i l = Some (t, l')"
  shows "el_state l' = el_state l" "task_queue_scheduled l' = task_queue_scheduled l"
    "task_queue l' \<noteq> [] \<Longrightarrow> task_queue l \<noteq> []"
  using assms by (auto elim: take_task_cases)

lemma sched_inv_same:
  assumes "sched_inv s" "arming s' = arming s" "armed s' = armed s" "runner s' = runner s" "current s' = current s"
    and "el_state (lp s') = el_state (lp s)" "task_queue_scheduled (lp s') = task_queue_scheduled (lp s)"
    and "task_queue (lp s') \<noteq> [] \<Longrightarrow> task_queue (lp s) \<noteq> []"
  shows "sched_inv s'"
  using assms unfolding sched_defs by (cases "runner s") auto

lemma sched_inv_step:
  assumes "el_step s s'" "sched_inv s"
  shows "sched_inv s'"
  using assms(1)
proof (cases rule: el_step.cases)
  case (submit task i)
  then show ?thesis
    using assms(2) submit_effect [OF submit] by (auto simp: sched_defs split: if_splits option.splits)
next
  case (schedule task i)
  then show ?thesis
    using assms(2) schedule_effect [OF schedule] by (auto simp: sched_defs split: if_splits option.splits)
next
  case (cancel i)
  show ?thesis
  proof (cases "take_task i (lp s)")
    case (Some x)
    obtain t l where x: "x = (t, l)" by force
    note k = take_task_keeps [OF Some [unfolded x]]
    show ?thesis
      by (rule sched_inv_same [OF assms(2)])
        (use cancel Some x k in \<open>simp_all add: vpn_event_loop_cancel_def note_event_def\<close>)
  qed (use cancel assms(2) in \<open>simp add: vpn_event_loop_cancel_def\<close>)
next
  case stopped
  then show ?thesis using assms(2) by (auto simp: finalize_exit_end_eq sched_defs split: option.splits)
next
  case (queue last_id i)
  then show ?thesis
    using assms(2)
    by (cases "task_queue (lp s)")
      (auto simp: queue_step_def loop_head_def note_event_def sched_defs split: if_splits)
next
  case (acted t)
  then show ?thesis
    using assms(2) by (cases "runner s") (auto simp: end_action_def finalize_task_eq sched_defs)
qed (use assms(2) in \<open>auto simp: finish_cancel_def run_deferred_task_def finalize_task_eq note_event_def sched_defs
    vpn_event_loop_run_begin_def vpn_event_loop_run_end_def stop_begin_def hijack_end_def
    split: if_splits option.splits\<close>)

lemma sched_inv_reachable: "el_reachable s \<Longrightarrow> sched_inv s"
proof (induction rule: el_reachable.induct)
  case start
  show ?case by (simp add: system_new_def event_loop_new_def sched_defs)
qed (rule sched_inv_step)

section \<open>Abstract specification\<close>

text \<open>
  What the users of the loop rely on: a first-in first-out queue of tasks, a bag of deferred
  tasks of which any may run, and the outcomes of the tasks in the order in which they happen.
  The mutex, the one-shot events, the batches and the states of the loop are gone.
\<close>

record LoopSpec =
  sp_queue :: "TaskInfo list"
  sp_later :: "TaskInfo multiset"
  sp_outcomes :: "LoopEvent list"

definition discards :: "TaskInfo list \<Rightarrow> LoopEvent list" where
  "discards ts = map (\<lambda>t. Discarded (ti_id t)) ts"

inductive spec_step :: "LoopSpec \<Rightarrow> LoopSpec \<Rightarrow> bool" where
  add: "spec_step a (a\<lparr>sp_queue := sp_queue a @ [t]\<rparr>)"
| add_later: "spec_step a (a\<lparr>sp_later := add_mset t (sp_later a)\<rparr>)"
| refuse: "spec_step a (a\<lparr>sp_outcomes := sp_outcomes a @ [Discarded i]\<rparr>)"
| run_first: "sp_queue a = t # ts \<Longrightarrow>
    spec_step a (a\<lparr>sp_queue := ts, sp_outcomes := sp_outcomes a @ [Ran (ti_id t)]\<rparr>)"
| run_later: "sp_later a = add_mset t ts \<Longrightarrow>
    spec_step a (a\<lparr>sp_later := ts, sp_outcomes := sp_outcomes a @ [RanDeferred (ti_id t)]\<rparr>)"
| cancel_queued: "sp_queue a = xs @ t # ys \<Longrightarrow>
    spec_step a (a\<lparr>sp_queue := xs @ ys, sp_outcomes := sp_outcomes a @ [Discarded (ti_id t)]\<rparr>)"
| cancel_later: "sp_later a = add_mset t ts \<Longrightarrow>
    spec_step a (a\<lparr>sp_later := ts, sp_outcomes := sp_outcomes a @ [Discarded (ti_id t)]\<rparr>)"
| drop_all: "mset ts = sp_later a \<Longrightarrow>
    spec_step a (a\<lparr>sp_queue := [], sp_later := {#}, sp_outcomes := sp_outcomes a @ discards (sp_queue a @ ts)\<rparr>)"

definition spec_new :: LoopSpec where
  "spec_new = \<lparr>sp_queue = [], sp_later = {#}, sp_outcomes = []\<rparr>"

definition outcomes :: "LoopEvent list \<Rightarrow> LoopEvent list" where
  "outcomes h = filter (\<lambda>e. case e of Ran _ \<Rightarrow> True | RanDeferred _ \<Rightarrow> True | Discarded _ \<Rightarrow> True | _ \<Rightarrow> False) h"

definition loop_abs :: "System \<Rightarrow> LoopSpec" where
  "loop_abs s =
     \<lparr>sp_queue = task_queue (lp s), sp_later = mset (deferred_task_queue (lp s)), sp_outcomes = outcomes (history s)\<rparr>"

lemma outcomes_simps [simp]:
  "outcomes [] = []" "outcomes (g @ h) = outcomes g @ outcomes h"
  "outcomes (e # h) = (case e of Ran i \<Rightarrow> [Ran i] | RanDeferred i \<Rightarrow> [RanDeferred i] | Discarded i \<Rightarrow> [Discarded i] | _ \<Rightarrow> []) @ outcomes h"
  "outcomes (outcome_events t) = []"
  by (auto simp: outcomes_def outcome_events_def split: LoopEvent.splits)

lemma outcomes_discard_all [simp]:
  "outcomes (concat (map (\<lambda>t. Discarded (ti_id t) # outcome_events t) ts)) = discards ts"
  by (induction ts) (simp_all add: discards_def)

lemma simulation_step:
  assumes "el_step s s'"
  shows "spec_step (loop_abs s) (loop_abs s') \<or> loop_abs s' = loop_abs s"
  using assms
proof (cases rule: el_step.cases)
  case (submit task i)
  let ?t = "\<lparr>ti_id = next_task_id s, ti_task = task\<rparr>"
  show ?thesis
    using submit_effect [OF submit] spec_step.add [of "loop_abs s" ?t] spec_step.refuse [of "loop_abs s" "next_task_id s"]
    by (auto simp: loop_abs_def split: if_splits)
next
  case (schedule task i)
  let ?t = "\<lparr>ti_id = next_task_id s, ti_task = task\<rparr>"
  show ?thesis
    using schedule_effect [OF schedule] spec_step.add_later [of "loop_abs s" ?t]
      spec_step.refuse [of "loop_abs s" "next_task_id s"]
    by (auto simp: loop_abs_def split: if_splits)
next
  case (cancel i)
  show ?thesis
  proof (cases "take_task i (lp s)")
    case (Some x)
    obtain t l where x: "x = (t, l)" by force
    from Some [unfolded x] show ?thesis
    proof (cases rule: take_task_cases)
      case (queue a b)
      then show ?thesis
        using Some x cancel spec_step.cancel_queued [of "loop_abs s" a t b]
        by (simp add: vpn_event_loop_cancel_def note_event_def loop_abs_def)
    next
      case (deferred a b)
      then show ?thesis
        using Some x cancel spec_step.cancel_later [of "loop_abs s" t "mset (a @ b)"]
        by (simp add: vpn_event_loop_cancel_def note_event_def loop_abs_def)
    qed
  qed (use cancel in \<open>simp add: vpn_event_loop_cancel_def\<close>)
next
  case stopped
  then show ?thesis
    using spec_step.drop_all [of "deferred_task_queue (lp s)" "loop_abs s"]
    by (simp add: finalize_exit_end_eq loop_abs_def queued_def) (simp add: discards_def)
next
  case (queue last_id i)
  show ?thesis
  proof (cases "task_queue (lp s)")
    case (Cons t ts)
    then show ?thesis
      using queue spec_step.run_first [of "loop_abs s" t ts]
      by (simp add: queue_step_def loop_head_def note_event_def loop_abs_def)
  qed (use queue in \<open>simp add: queue_step_def loop_head_def loop_abs_def\<close>)
next
  case (timer i)
  show ?thesis
  proof (cases "List.extract (\<lambda>t. ti_id t = i) (deferred_task_queue (lp s))")
    case (Some x)
    obtain a t b where x: "x = (a, t, b)" by (cases x)
    then show ?thesis
      using timer Some spec_step.run_later [of "loop_abs s" t "mset (a @ b)"]
      by (simp add: run_deferred_task_def extract_Some_iff note_event_def loop_abs_def)
  qed (use timer in \<open>simp add: run_deferred_task_def\<close>)
qed (auto simp: loop_abs_def finish_cancel_def end_action_def finalize_task_eq
    vpn_event_loop_run_begin_def vpn_event_loop_run_end_def stop_begin_def hijack_end_def split: if_splits)

section \<open>Properties\<close>

text \<open>
  A run with two tasks: the first is submitted, the event is armed, the loop starts and takes
  the first task; while it runs the second one is submitted.
\<close>

definition sample_task :: "TaskId \<Rightarrow> TaskInfo" where
  "sample_task i = \<lparr>ti_id = i, ti_task = \<lparr>has_finalize = True\<rparr>\<rparr>"

definition run_two :: System where
  "run_two =
     \<lparr>lp = \<lparr>task_queue_scheduled = True, task_queue = [sample_task 1], deferred_task_queue = [],
            el_state = ELS_RUNNING, stopping_externally = False\<rparr>,
      next_task_id = 2, arming = 0, armed = 0, runner = Some (0, 0), current = Some (sample_task 0), cancelling = [],
      history = [Submitted (sample_task 0), Ran 0, Submitted (sample_task 1)]\<rparr>"

lemma run_two_reachable: "el_reachable run_two"
proof -
  let ?task = "\<lparr>has_finalize = True\<rparr>"
  define s1 where "s1 = snd (vpn_event_loop_submit ?task system_new)"
  define s2 where "s2 = s1\<lparr>arming := 0, armed := 1\<rparr>"
  define s3 where "s3 = s2\<lparr>lp := (lp s2)\<lparr>el_state := ELS_RUNNING\<rparr>\<rparr>"
  define s4 where "s4 = s3\<lparr>armed := 0, runner := Some (0, 0)\<rparr>"
  define s5 where "s5 = queue_step 0 0 s4"
  note defs = vpn_event_loop_submit_def draw_id_def note_event_def enqueue_def system_new_def event_loop_new_def
    sample_task_def
  have e1: "s1 = \<lparr>lp = \<lparr>task_queue_scheduled = True, task_queue = [sample_task 0], deferred_task_queue = [],
      el_state = ELS_STOPPED, stopping_externally = False\<rparr>, next_task_id = 1, arming = 1, armed = 0, runner = None,
      current = None, cancelling = [], history = [Submitted (sample_task 0)]\<rparr>"
    by (simp add: s1_def defs Let_def)
  have r1: "el_reachable s1"
    unfolding s1_def by (rule el_reachable.more [OF el_reachable.start el_step.submit [OF surjective_pairing]])
  have "el_step s1 s2" using el_step.arm [of s1 0] by (simp add: e1 s2_def)
  moreover have "el_step s2 s3" using el_step.run [of s2] by (simp add: e1 s2_def s3_def vpn_event_loop_run_begin_def)
  moreover have "el_step s3 s4"
    using el_step.fire [of s3 0 0] by (simp add: e1 s2_def s3_def s4_def batch_last_id_def sample_task_def)
  moreover have "el_step s4 s5" using el_step.queue [of s4 0 0] by (simp add: s4_def s5_def e1 s2_def s3_def)
  ultimately have r5: "el_reachable s5" using r1 by (blast intro: el_reachable.more)
  have "vpn_event_loop_submit ?task s5 = (1, run_two)"
    by (simp add: s5_def s4_def s3_def s2_def e1 queue_step_def loop_head_def TASK_QUEUE_BUDGET_def
        vpn_event_loop_submit_def draw_id_def note_event_def enqueue_def sample_task_def run_two_def Let_def)
  then show ?thesis using r5 by (blast intro: el_reachable.more el_step.submit)
qed

text \<open>
  Claim C21: the event loop implements a first-in first-out task queue. The loop starts as an empty
  specification, and in every reachable state each step of it, in any interleaving of the
  threads, is a step of the specification (the front task runs, a deferred task runs, a task
  is added, refused, cancelled, or all are dropped) or changes nothing that the
  specification sees.
\<close>

theorem loop_refines_fifo_queue:
  assumes "el_reachable s" "el_step s s'"
  shows "loop_abs system_new = spec_new \<and>
    rtranclp spec_step spec_new (loop_abs s) \<and>
    (spec_step (loop_abs s) (loop_abs s') \<or> loop_abs s' = loop_abs s)"
proof -
  have init: "loop_abs system_new = spec_new"
    by (simp add: loop_abs_def system_new_def event_loop_new_def spec_new_def)
  have "rtranclp spec_step spec_new (loop_abs s)"
    using assms(1)
  proof (induction rule: el_reachable.induct)
    case (more s s')
    then show ?case using simulation_step [OF more(2)] by (auto intro: rtranclp.rtrancl_into_rtrancl)
  qed (simp add: init)
  then show ?thesis using init simulation_step [OF assms(2)] by blast
qed

theorem loop_refines_fifo_queue_witness:
  "spec_step (loop_abs run_two) (loop_abs (vpn_event_loop_cancel 1 run_two)) \<and>
   loop_abs (vpn_event_loop_cancel 1 run_two) = \<lparr>sp_queue = [], sp_later = {#}, sp_outcomes = [Ran 0, Discarded 1]\<rparr>"
proof -
  have e: "loop_abs (vpn_event_loop_cancel 1 run_two) = \<lparr>sp_queue = [], sp_later = {#}, sp_outcomes = [Ran 0, Discarded 1]\<rparr>"
    by (simp add: vpn_event_loop_cancel_def take_task_def extract_Cons_code note_event_def loop_abs_def run_two_def
        sample_task_def)
  moreover have "loop_abs (vpn_event_loop_cancel 1 run_two) \<noteq> loop_abs run_two"
    unfolding e by (simp add: loop_abs_def run_two_def)
  ultimately show ?thesis
    using loop_refines_fifo_queue [OF run_two_reachable el_step.cancel [of run_two 1]] by blast
qed

text \<open>
  Claim C22: no task is lost, run twice or finalized twice. In every reachable state the tasks that
  were handed to the loop are exactly the ones that ran from the queue, ran from a timer, were
  discarded, or are still queued, each once; and the tasks with a finalizer are exactly the ones
  whose finalizer was called plus the ones that are queued, running or being cancelled, each once.
\<close>

theorem tasks_never_lost:
  assumes "el_reachable s"
  shows "mset (map ti_id (submitted (history s))) =
      mset (ran_ids (history s) @ ran_deferred (history s) @ discarded (history s) @ map ti_id (queued s)) \<and>
    mset (fin_ids (submitted (history s))) = mset (finalized (history s) @ fin_ids (pending s)) \<and>
    distinct (map ti_id (submitted (history s)))"
  using tasks_inv_reachable [OF assms] by (simp add: tasks_inv_def ac_simps)

theorem tasks_never_lost_witness:
  "mset (map ti_id (submitted (history run_two))) = mset [0, 1] \<and> ran_ids (history run_two) = [0] \<and>
   fin_ids (pending run_two) = [1, 0]"
  using tasks_never_lost [OF run_two_reachable]
  by (simp add: run_two_def sample_task_def pending_def queued_def)

text \<open>
  Claim C23: the tasks of the queue run in the order in which they were submitted, whatever is
  cancelled or submitted meanwhile: the identifiers of the ones that ran, followed by the ones
  that wait, ascend. The check for this in the source never fails.
\<close>

theorem tasks_run_in_order:
  assumes "el_reachable s"
  shows "sorted_wrt (<) (ran_ids (history s) @ map ti_id (task_queue (lp s))) \<and> batch_last_id (lp s) \<noteq> None"
proof -
  have inv: "sorted_wrt (<) (ran_ids (history s) @ map ti_id (task_queue (lp s)))"
    using order_inv_reachable [OF assms] by (simp add: order_inv_def)
  then have "sorted_wrt (<) (map ti_id (task_queue (lp s)))" by (simp add: sorted_wrt_append)
  then have "batch_last_id (lp s) \<noteq> None"
    by (cases "task_queue (lp s)") (auto simp: batch_last_id_def intro: less_imp_le)
  with inv show ?thesis by blast
qed

theorem tasks_run_in_order_witness:
  "sorted_wrt (<) [0 :: int, 1] \<and> ran_ids (history run_two) @ map ti_id (task_queue (lp run_two)) = [0, 1] \<and>
   batch_last_id (lp run_two) \<noteq> None"
  using tasks_run_in_order [OF run_two_reachable] by (simp add: run_two_def sample_task_def)

text \<open>
  Claim C24: no wake-up is lost. In every reachable state with tasks in the queue, exactly one of
  these will look at it: a thread that is about to arm the queue event, the armed event, or a
  batch in progress; without tasks there is at most one. A batch runs at most 64 tasks.
\<close>

theorem queue_always_served:
  assumes "el_reachable s"
  shows "(if task_queue (lp s) = [] then servers s \<le> 1 else servers s = 1) \<and>
    (case runner s of None \<Rightarrow> True | Some (last_id, i) \<Rightarrow> i \<le> 64)"
  using sched_inv_reachable [OF assms] by (auto simp: sched_inv_def TASK_QUEUE_BUDGET_def split: if_splits option.splits)

theorem queue_always_served_witness:
  "task_queue (lp run_two) \<noteq> [] \<and> servers run_two = 1"
  using queue_always_served [OF run_two_reachable] by (simp add: run_two_def sample_task_def)

end
