(* ===== verification/Single_Connector.thy ===== *)
theory Single_Connector
  imports Vpn_State Server_Upstream
begin

text \<open>
  The procedure that opens a session with the endpoint
  (\<^verbatim>\<open>core/src/single_upstream_connector.cpp\<close>) and the interface that it implements
  (\<^verbatim>\<open>core/include/vpn/internal/endpoint_connector.h\<close>). The connector is a state machine on
  the engine of \<open>Fsm\<close>. The upstream is outside: the calls to it are recorded and its answers are
  arguments. The deferred task of the event loop is a flag.
\<close>

section \<open>The interface\<close>

datatype EndpointConnectorResult = ConnectedUpstream | ConnectFailed VpnError

text \<open>
  What the owner of a connector relies on. A connector is ready until it is started, and then
  \<^emph>\<open>running\<close> until it has a result or is interrupted. \<open>step\<close> is whatever the upstream and the
  event loop do with it. A running connector either goes on or stops with exactly one result
  passed to the handler, and a connector that is not running never passes a result.
\<close>

locale endpoint_connector =
  fixes invar :: "'c \<Rightarrow> bool"
    and running :: "'c \<Rightarrow> bool"
    and results :: "'c \<Rightarrow> EndpointConnectorResult list"
    and step :: "'c \<Rightarrow> 'c \<Rightarrow> bool"
    and disconnect :: "'c \<Rightarrow> 'c"
  assumes step_invar: "invar c \<Longrightarrow> step c c' \<Longrightarrow> invar c'"
    and step_running: "invar c \<Longrightarrow> running c \<Longrightarrow> step c c' \<Longrightarrow>
      running c' \<and> results c' = results c \<or> \<not> running c' \<and> (\<exists>r. results c' = results c @ [r])"
    and step_stopped: "invar c \<Longrightarrow> \<not> running c \<Longrightarrow> step c c' \<Longrightarrow> \<not> running c' \<and> results c' = results c"
    and disconnect_invar: "invar c \<Longrightarrow> invar (disconnect c)"
    and disconnect_stops: "invar c \<Longrightarrow> \<not> running (disconnect c) \<and> results (disconnect c) = results c"
begin

lemma steps_stopped:
  "rtranclp step c c' \<Longrightarrow> invar c \<Longrightarrow> \<not> running c \<Longrightarrow> invar c' \<and> \<not> running c' \<and> results c' = results c"
proof (induction rule: rtranclp_induct)
  case (step c' c'')
  then show ?case using step_stopped [of c' c''] step_invar by metis
qed simp

text \<open>From a start on, a connector that is left alone passes one result, and then it has stopped.\<close>

lemma one_result:
  assumes "rtranclp step c c'" "invar c" "running c"
  shows "invar c' \<and> (if running c' then results c' = results c else \<exists>r. results c' = results c @ [r])"
  using assms
proof (induction rule: rtranclp_induct)
  case (step c' c'')
  then have c': "invar c'" "if running c' then results c' = results c else \<exists>r. results c' = results c @ [r]" by auto
  then show ?case
    using step_running [OF c'(1) _ step.hyps(2)] step_stopped [OF c'(1) _ step.hyps(2)] step_invar [OF c'(1) step.hyps(2)]
    by (cases "running c'") (auto split: if_splits)
qed simp

lemma no_result_after_disconnect:
  "invar c \<Longrightarrow> rtranclp step (disconnect c) c' \<Longrightarrow> results c' = results c"
  using steps_stopped disconnect_invar disconnect_stops by metis

end

section \<open>State\<close>

datatype SuState = SU_DISCONNECTED | SU_CONNECTING | SU_DISCONNECTING

datatype SuEvent =
    SUE_RUN_CONNECT | SUE_DISCONNECT | SUE_DEFERRED_DISCONNECT | SUE_SESSION_OPENED | SUE_SESSION_CLOSED
  | SUE_SESSION_ERROR | SUE_HEALTH_CHECK_ERROR

fun su :: "SuState \<Rightarrow> FsmState" where
  "su SU_DISCONNECTED = 0"
| "su SU_CONNECTING = 1"
| "su SU_DISCONNECTING = 2"

fun sue :: "SuEvent \<Rightarrow> FsmEvent" where
  "sue SUE_RUN_CONNECT = 0"
| "sue SUE_DISCONNECT = 1"
| "sue SUE_DEFERRED_DISCONNECT = 2"
| "sue SUE_SESSION_OPENED = 3"
| "sue SUE_SESSION_CLOSED = 4"
| "sue SUE_SESSION_ERROR = 5"
| "sue SUE_HEALTH_CHECK_ERROR = 6"

text \<open>The calls to the upstream; \<open>UC_null\<close> is a call through a null pointer.\<close>

datatype UpstreamCall =
    UC_init
  | UC_open_session "millis option"
  | UC_close_session
  | UC_deinit
  | UC_parent_handler
  | UC_handle_sleep
  | UC_handle_wake
  | UC_null

record Connector =
  cn_fsm :: Fsm
  cn_upstream :: bool
  cn_pending_error :: "VpnError option"
  cn_deferred_task :: bool
  cn_calls :: "UpstreamCall list"
  cn_results :: "EndpointConnectorResult list"

datatype SuData = SuNone | SuTimeout "millis option" | SuError VpnError

definition single_connector_new :: Connector where
  "single_connector_new =
     \<lparr>cn_fsm = \<lparr>m_current_state = su SU_DISCONNECTED, m_recursive = False\<rparr>, cn_upstream = True,
      cn_pending_error = None, cn_deferred_task = False, cn_calls = [], cn_results = []\<rparr>"

definition call_upstream :: "UpstreamCall \<Rightarrow> Connector \<Rightarrow> Connector" where
  "call_upstream u c = c\<lparr>cn_calls := cn_calls c @ [if cn_upstream c then u else UC_null]\<rparr>"

definition raise_result :: "EndpointConnectorResult \<Rightarrow> Connector \<Rightarrow> Connector" where
  "raise_result r c = c\<lparr>cn_results := cn_results c @ [r]\<rparr>"

section \<open>Actions\<close>

definition su_do_connect :: "bool \<Rightarrow> Connector \<Rightarrow> SuData \<Rightarrow> Connector" where
  "su_do_connect opened c d =
     (let c1 = call_upstream (UC_open_session (case d of SuTimeout t \<Rightarrow> t | _ \<Rightarrow> None)) c
      in if \<not> opened
         then c1\<lparr>cn_pending_error := Some (mk_error VPN_EC_ERROR ''Failed to open session with endpoint'')\<rparr>
         else c1)"

definition note_data_error :: "SuData \<Rightarrow> Connector \<Rightarrow> Connector" where
  "note_data_error d c =
     (case d of
        SuError e \<Rightarrow> if cn_pending_error c = None \<and> code e \<noteq> VPN_EC_NOERROR then c\<lparr>cn_pending_error := Some e\<rparr> else c
      | _ \<Rightarrow> c)"

definition su_do_disconnect :: "Connector \<Rightarrow> SuData \<Rightarrow> Connector" where
  "su_do_disconnect c d =
     (call_upstream UC_deinit (call_upstream UC_close_session (note_data_error d c)))\<lparr>cn_deferred_task := False\<rparr>"

definition su_submit_disconnect :: "Connector \<Rightarrow> SuData \<Rightarrow> Connector" where
  "su_submit_disconnect c d = (note_data_error d c)\<lparr>cn_deferred_task := True\<rparr>"

definition su_raise_connected :: "Connector \<Rightarrow> SuData \<Rightarrow> Connector" where
  "su_raise_connected c d =
     raise_result ConnectedUpstream ((call_upstream UC_parent_handler c)\<lparr>cn_upstream := False\<rparr>)"

definition su_raise_disconnected :: "Connector \<Rightarrow> SuData \<Rightarrow> Connector" where
  "su_raise_disconnected c d =
     (case cn_pending_error c of
        Some e \<Rightarrow> raise_result (ConnectFailed e) (c\<lparr>cn_pending_error := None\<rparr>)
      | None \<Rightarrow> raise_result (ConnectFailed (case d of SuError e \<Rightarrow> e | _ \<Rightarrow> no_error)) c)"

section \<open>The machine\<close>

definition SU_TABLE :: "bool \<Rightarrow> (Connector, SuData) FsmTransitionTable" where
  "SU_TABLE opened =
   [entry (su SU_DISCONNECTED) (sue SUE_RUN_CONNECT) None (Some (su_do_connect opened)) (su SU_CONNECTING) None,
    entry (su SU_DISCONNECTED) (sue SUE_SESSION_CLOSED) None None SAME_TARGET_STATE None,
    entry (su SU_DISCONNECTED) (sue SUE_DISCONNECT) None None SAME_TARGET_STATE None,

    entry (su SU_CONNECTING) (sue SUE_SESSION_OPENED) None None (su SU_DISCONNECTED) (Some su_raise_connected),
    entry (su SU_CONNECTING) (sue SUE_SESSION_CLOSED) None None (su SU_DISCONNECTED) (Some su_raise_disconnected),
    entry (su SU_CONNECTING) (sue SUE_SESSION_ERROR) None (Some su_submit_disconnect) (su SU_DISCONNECTING) None,

    entry (su SU_DISCONNECTING) (sue SUE_SESSION_CLOSED) None None (su SU_DISCONNECTED) (Some su_raise_disconnected),
    entry (su SU_DISCONNECTING) (sue SUE_DEFERRED_DISCONNECT) None (Some su_do_disconnect) (su SU_DISCONNECTED)
      (Some su_raise_disconnected),

    entry ANY_SOURCE_STATE (sue SUE_DISCONNECT) None (Some su_do_disconnect) (su SU_DISCONNECTED) None]"

definition su_perform :: "bool \<Rightarrow> SuEvent \<Rightarrow> SuData \<Rightarrow> Connector \<Rightarrow> Connector" where
  "su_perform opened ev d c = perform_transition cn_fsm cn_fsm_update (SU_TABLE opened) (sue ev) d c"

section \<open>Operations\<close>

text \<open>The handler of the upstream's events; \<open>None\<close> is a failed assertion.\<close>

definition su_upstream_handler :: "'sa ServerEvent \<Rightarrow> Connector \<Rightarrow> Connector option" where
  "su_upstream_handler what c =
     (case what of
        SERVER_EVENT_SESSION_OPENED \<Rightarrow> Some (su_perform True SUE_SESSION_OPENED SuNone c)
      | SERVER_EVENT_SESSION_CLOSED \<Rightarrow> Some (su_perform True SUE_SESSION_CLOSED SuNone c)
      | SERVER_EVENT_HEALTH_CHECK_ERROR e \<Rightarrow> Some (su_perform True SUE_HEALTH_CHECK_ERROR (SuError e) c)
      | SERVER_EVENT_ERROR e \<Rightarrow>
          if se_id e = NON_ID then Some (su_perform True SUE_SESSION_ERROR (SuError (se_error e)) c) else None
      | _ \<Rightarrow> None)"

definition su_run_deferred :: "Connector \<Rightarrow> Connector" where
  "su_run_deferred c = su_perform True SUE_DEFERRED_DISCONNECT SuNone (c\<lparr>cn_deferred_task := False\<rparr>)"

definition su_disconnect :: "Connector \<Rightarrow> Connector" where
  "su_disconnect c = su_perform True SUE_DISCONNECT SuNone c"

text \<open>\<open>inited\<close> and \<open>opened\<close> are the answers of the upstream's \<open>init\<close> and \<open>open_session\<close>.\<close>

definition su_connect :: "bool \<Rightarrow> bool \<Rightarrow> millis option \<Rightarrow> Connector \<Rightarrow> VpnError \<times> Connector" where
  "su_connect inited opened timeout c =
     (if get_state cn_fsm c \<noteq> su SU_DISCONNECTED then (mk_error VPN_EC_ERROR ''Invalid state'', c)
      else
        let c1 = call_upstream UC_init c
        in if \<not> inited then (mk_error VPN_EC_ERROR ''Failed to initialize upstream'', c1)
           else
             let c2 = su_perform opened SUE_RUN_CONNECT (SuTimeout timeout) c1
             in case cn_pending_error c2 of
                  Some e \<Rightarrow> (e, su_disconnect (c2\<lparr>cn_pending_error := None\<rparr>))
                | None \<Rightarrow> (no_error, c2))"

definition su_handle_sleep :: "Connector \<Rightarrow> Connector" where
  "su_handle_sleep c = (if get_state cn_fsm c = su SU_CONNECTING then call_upstream UC_handle_sleep c else c)"

definition su_handle_wake :: "Connector \<Rightarrow> Connector" where
  "su_handle_wake c = (if get_state cn_fsm c = su SU_CONNECTING then call_upstream UC_handle_wake c else c)"

section \<open>Effect of an event\<close>

lemma cn_fsm_update_keep: "f (cn_fsm c) = cn_fsm c \<Longrightarrow> cn_fsm_update f c = c"
  by (cases c) simp

interpretation sf: fsm_host cn_fsm cn_fsm_update
  by unfold_locales (simp_all add: comp_def cn_fsm_update_keep)

abbreviation su_state :: "Connector \<Rightarrow> FsmState" where
  "su_state c \<equiv> m_current_state (cn_fsm c)"

definition su_enter :: "SuState \<Rightarrow> Connector \<Rightarrow> Connector" where
  "su_enter s c = c\<lparr>cn_fsm := \<lparr>m_current_state = su s, m_recursive = False\<rparr>\<rparr>"

lemmas su_action_defs = su_do_connect_def note_data_error_def su_do_disconnect_def su_submit_disconnect_def
  su_raise_connected_def su_raise_disconnected_def call_upstream_def raise_result_def Let_def

lemma su_table_valid: "Fsm_new (su SU_DISCONNECTED) (SU_TABLE opened) \<noteq> None"
  by (simp add: Fsm_new_def validate_transition_table_def SU_TABLE_def entry_def ANY_SOURCE_STATE_def SAME_TARGET_STATE_def)

text \<open>The machine as a case distinction: the effect of every event in every state.\<close>

fun su_effect :: "bool \<Rightarrow> SuState \<Rightarrow> SuEvent \<Rightarrow> SuData \<Rightarrow> Connector \<Rightarrow> Connector" where
  "su_effect opened SU_DISCONNECTED SUE_RUN_CONNECT d c = su_enter SU_CONNECTING (su_do_connect opened c d)"
| "su_effect opened SU_CONNECTING SUE_SESSION_OPENED d c = su_raise_connected (su_enter SU_DISCONNECTED c) d"
| "su_effect opened SU_CONNECTING SUE_SESSION_CLOSED d c = su_raise_disconnected (su_enter SU_DISCONNECTED c) d"
| "su_effect opened SU_CONNECTING SUE_SESSION_ERROR d c = su_enter SU_DISCONNECTING (su_submit_disconnect c d)"
| "su_effect opened SU_CONNECTING SUE_DISCONNECT d c = su_enter SU_DISCONNECTED (su_do_disconnect c d)"
| "su_effect opened SU_DISCONNECTING SUE_SESSION_CLOSED d c = su_raise_disconnected (su_enter SU_DISCONNECTED c) d"
| "su_effect opened SU_DISCONNECTING SUE_DEFERRED_DISCONNECT d c =
     su_raise_disconnected (su_enter SU_DISCONNECTED (su_do_disconnect c d)) d"
| "su_effect opened SU_DISCONNECTING SUE_DISCONNECT d c = su_enter SU_DISCONNECTED (su_do_disconnect c d)"
| "su_effect opened s ev d c = c"

lemma su_perform_effect:
  assumes "\<not> m_recursive (cn_fsm c)" "su_state c = su s"
  shows "su_perform opened ev d c = su_effect opened s ev d c"
proof -
  obtain f u p t cs rs where c: "c = \<lparr>cn_fsm = f, cn_upstream = u, cn_pending_error = p, cn_deferred_task = t,
    cn_calls = cs, cn_results = rs\<rparr>" by (cases c)
  have f: "f = \<lparr>m_current_state = su s, m_recursive = False\<rparr>" using assms by (cases f) (simp add: c)
  show ?thesis
    unfolding c f
    by (cases s; cases ev; cases p; cases d)
      (simp_all add: su_perform_def perform_transition_def SU_TABLE_def entry_def entry_matches_def fire_def
        run_action_def su_enter_def su_action_defs Let_def ANY_SOURCE_STATE_def SAME_TARGET_STATE_def)
qed

section \<open>Invariant\<close>

text \<open>
  The machine is between transitions and in one of its states; while it runs it owns the upstream,
  and in the state disconnecting the deferred task is queued; the upstream was never called
  through a null pointer.
\<close>

definition su_running :: "Connector \<Rightarrow> bool" where
  "su_running c \<longleftrightarrow> su_state c \<noteq> su SU_DISCONNECTED"

definition su_inv :: "Connector \<Rightarrow> bool" where
  "su_inv c \<longleftrightarrow>
     \<not> m_recursive (cn_fsm c) \<and> su_state c \<in> {su SU_DISCONNECTED, su SU_CONNECTING, su SU_DISCONNECTING} \<and> (su_running c \<longrightarrow> cn_upstream c) \<and>
     (su_state c = su SU_DISCONNECTING \<longrightarrow> cn_deferred_task c) \<and> UC_null \<notin> set (cn_calls c)"

definition su_ready :: "Connector \<Rightarrow> bool" where
  "su_ready c \<longleftrightarrow> su_inv c \<and> \<not> su_running c \<and> cn_upstream c \<and> cn_pending_error c = None"

text \<open>What the upstream and the event loop do: events while the connector owns the upstream, the deferred task.\<close>

inductive su_step :: "Connector \<Rightarrow> Connector \<Rightarrow> bool" where
  event: "cn_upstream c \<Longrightarrow> su_upstream_handler (what :: unit ServerEvent) c = Some c' \<Longrightarrow> su_step c c'"
| deferred: "cn_deferred_task c \<Longrightarrow> su_step c (su_run_deferred c)"
| sleep: "su_step c (su_handle_sleep c)"
| wake: "su_step c (su_handle_wake c)"

lemmas su_inv_simps = su_inv_def su_running_def su_enter_def su_action_defs

lemma su_eq_iff [simp]: "su s = su s' \<longleftrightarrow> s = s'"
  by (cases s; cases s') simp_all

lemma su_invE:
  assumes "su_inv c"
  obtains s where "\<not> m_recursive (cn_fsm c)" "su_state c = su s"
  using assms unfolding su_inv_def by blast

lemma su_perform_inv:
  assumes "su_inv c" "ev = SUE_RUN_CONNECT \<longrightarrow> cn_upstream c"
  shows "su_inv (su_perform opened ev d c)"
proof -
  obtain s where s: "\<not> m_recursive (cn_fsm c)" "su_state c = su s" using assms(1) by (rule su_invE)
  show ?thesis
    unfolding su_perform_effect [OF s]
    using assms s
    by (cases s; cases ev; cases "cn_pending_error c"; cases d) (auto simp: su_inv_simps)
qed

lemma su_perform_results:
  assumes "su_inv c" "ev \<noteq> SUE_RUN_CONNECT"
  shows "su_running c \<Longrightarrow>
      su_running (su_perform opened ev d c) \<and> cn_results (su_perform opened ev d c) = cn_results c \<or>
      \<not> su_running (su_perform opened ev d c) \<and>
        (if ev = SUE_DISCONNECT then cn_results (su_perform opened ev d c) = cn_results c
         else \<exists>r. cn_results (su_perform opened ev d c) = cn_results c @ [r])"
    and "\<not> su_running c \<Longrightarrow> su_perform opened ev d c = c"
proof -
  obtain s where s: "\<not> m_recursive (cn_fsm c)" "su_state c = su s" using assms(1) by (rule su_invE)
  show "su_running c \<Longrightarrow>
      su_running (su_perform opened ev d c) \<and> cn_results (su_perform opened ev d c) = cn_results c \<or>
      \<not> su_running (su_perform opened ev d c) \<and>
        (if ev = SUE_DISCONNECT then cn_results (su_perform opened ev d c) = cn_results c
         else \<exists>r. cn_results (su_perform opened ev d c) = cn_results c @ [r])"
    unfolding su_perform_effect [OF s]
    using assms(2) s
    by (cases s; cases ev; cases "cn_pending_error c"; cases d) (simp_all add: su_running_def su_enter_def su_action_defs)
  show "\<not> su_running c \<Longrightarrow> su_perform opened ev d c = c"
    unfolding su_perform_effect [OF s] using assms(2) s by (cases s; cases ev) (simp_all add: su_running_def)
qed

lemma su_disconnect_stops:
  assumes "su_inv c"
  shows "su_inv (su_disconnect c)" "\<not> su_running (su_disconnect c)" "cn_results (su_disconnect c) = cn_results c"
    "\<not> su_running c \<Longrightarrow> su_disconnect c = c"
proof -
  obtain s where s: "\<not> m_recursive (cn_fsm c)" "su_state c = su s" using assms by (rule su_invE)
  show "su_inv (su_disconnect c)" unfolding su_disconnect_def by (rule su_perform_inv [OF assms]) simp
  show "\<not> su_running (su_disconnect c)" "cn_results (su_disconnect c) = cn_results c"
    unfolding su_disconnect_def su_perform_effect [OF s]
    using s by (cases s; simp add: su_running_def su_enter_def su_action_defs)+
  show "\<not> su_running c \<Longrightarrow> su_disconnect c = c"
    unfolding su_disconnect_def using su_perform_results(2) [OF assms] by simp
qed

text \<open>A step is one event on the machine, or leaves the machine and the results alone.\<close>

lemma su_step_cases:
  assumes "su_step c c'" "su_inv c"
  obtains (perform) ev d where "ev \<noteq> SUE_RUN_CONNECT" "ev \<noteq> SUE_DISCONNECT" "c' = su_perform True ev d c"
  | (deferred) "c' = su_perform True SUE_DEFERRED_DISCONNECT SuNone (c\<lparr>cn_deferred_task := False\<rparr>)"
      "cn_deferred_task c"
  | (other) u where "c' = c \<or> su_running c \<and> u \<noteq> UC_null \<and> c' = call_upstream u c"
  using assms(1)
proof (cases rule: su_step.cases)
  case (event what)
  then show ?thesis using perform by (auto simp: su_upstream_handler_def split: ServerEvent.splits if_splits)
next
  case deferred
  then show ?thesis using that(2) by (simp add: su_run_deferred_def)
next
  case sleep
  then show ?thesis using other [of UC_handle_sleep] by (auto simp: su_handle_sleep_def get_state_def su_running_def)
next
  case wake
  then show ?thesis using other [of UC_handle_wake] by (auto simp: su_handle_wake_def get_state_def su_running_def)
qed

lemma su_deferred_effect:
  assumes "su_inv c"
  defines "c' \<equiv> su_perform True SUE_DEFERRED_DISCONNECT SuNone (c\<lparr>cn_deferred_task := False\<rparr>)"
  shows "su_inv c'"
    "su_running c \<Longrightarrow> su_running c' \<and> cn_results c' = cn_results c \<or>
       \<not> su_running c' \<and> (\<exists>r. cn_results c' = cn_results c @ [r])"
    "\<not> su_running c \<Longrightarrow> \<not> su_running c' \<and> cn_results c' = cn_results c"
proof -
  obtain s where s: "\<not> m_recursive (cn_fsm c)" "su_state c = su s" using assms(1) by (rule su_invE)
  have s': "\<not> m_recursive (cn_fsm (c\<lparr>cn_deferred_task := False\<rparr>))" "su_state (c\<lparr>cn_deferred_task := False\<rparr>) = su s"
    using s by simp_all
  show "su_inv c'" unfolding c'_def su_perform_effect [OF s']
    using assms(1) s by (cases s; cases "cn_pending_error c") (auto simp: su_inv_simps)
  show "su_running c \<Longrightarrow> su_running c' \<and> cn_results c' = cn_results c \<or>
       \<not> su_running c' \<and> (\<exists>r. cn_results c' = cn_results c @ [r])"
    and "\<not> su_running c \<Longrightarrow> \<not> su_running c' \<and> cn_results c' = cn_results c"
    unfolding c'_def su_perform_effect [OF s']
    using s by (cases s; cases "cn_pending_error c"; simp add: su_running_def su_enter_def su_action_defs)+
qed

interpretation sc: endpoint_connector su_inv su_running cn_results su_step su_disconnect
proof (unfold_locales, goal_cases)
  case (1 c c')
  from 1(2,1) show ?case
  proof (cases rule: su_step_cases)
    case (perform ev d)
    then show ?thesis using su_perform_inv [OF 1(1)] by simp
  next
    case deferred
    then show ?thesis using su_deferred_effect(1) [OF 1(1)] by simp
  next
    case (other u)
    then show ?thesis using 1(1) by (auto simp: su_inv_def su_running_def call_upstream_def)
  qed
next
  case (2 c c')
  from 2(3,1) show ?case
  proof (cases rule: su_step_cases)
    case (perform ev d)
    then show ?thesis using su_perform_results(1) [OF 2(1) _ 2(2), of ev True d] by simp
  next
    case deferred
    then show ?thesis using su_deferred_effect(2) [OF 2(1,2)] by simp
  next
    case (other u)
    then show ?thesis using 2(2) by (auto simp: su_running_def call_upstream_def)
  qed
next
  case (3 c c')
  from 3(3,1) show ?case
  proof (cases rule: su_step_cases)
    case (perform ev d)
    then show ?thesis using su_perform_results(2) [OF 3(1) _ 3(2), of ev True d] 3(2) by simp
  next
    case deferred
    then show ?thesis using su_deferred_effect(3) [OF 3(1,2)] by simp
  next
    case (other u)
    then show ?thesis using 3(2) by auto
  qed
qed (use su_disconnect_stops in auto)

lemma su_ready_new: "su_ready single_connector_new"
  by (auto simp: su_ready_def su_inv_def su_running_def single_connector_new_def)

text \<open>Starting a ready connector: it runs exactly when no error is returned.\<close>

lemma su_connect_effect:
  assumes "su_ready c" "su_connect inited opened timeout c = (e, c')"
  shows "su_inv c'" "cn_results c' = cn_results c" "su_running c' \<longleftrightarrow> code e = VPN_EC_NOERROR"
proof -
  define c1 where "c1 = call_upstream UC_init c"
  define c2 where "c2 = su_perform opened SUE_RUN_CONNECT (SuTimeout timeout) c1"
  have c: "su_inv c" "su_state c = su SU_DISCONNECTED" "\<not> m_recursive (cn_fsm c)" "cn_upstream c" "cn_pending_error c = None"
    using assms(1) by (auto simp: su_ready_def su_inv_def su_running_def)
  have c1: "su_inv c1" "su_state c1 = su SU_DISCONNECTED" "\<not> m_recursive (cn_fsm c1)" "cn_upstream c1"
    "cn_pending_error c1 = None" "cn_results c1 = cn_results c"
    using c by (auto simp: c1_def su_inv_def su_running_def call_upstream_def)
  have "c2 = su_enter SU_CONNECTING (su_do_connect opened c1 (SuTimeout timeout))"
    unfolding c2_def using su_perform_effect [OF c1(3,2)] by simp
  then have fields: "cn_results c2 = cn_results c" "su_running c2" "cn_pending_error c2 =
      (if opened then None else Some (mk_error VPN_EC_ERROR ''Failed to open session with endpoint''))"
    using c1 by (simp_all add: su_enter_def su_running_def su_action_defs)
  have inv2: "su_inv c2" using su_perform_inv [OF c1(1)] c1(4) by (simp add: c2_def)
  then have inv3: "su_inv (c2\<lparr>cn_pending_error := None\<rparr>)" by (simp add: su_inv_def su_running_def)
  have result: "su_connect inited opened timeout c =
      (if \<not> inited then (mk_error VPN_EC_ERROR ''Failed to initialize upstream'', c1)
       else case cn_pending_error c2 of
         Some e \<Rightarrow> (e, su_disconnect (c2\<lparr>cn_pending_error := None\<rparr>)) | None \<Rightarrow> (no_error, c2))"
    using c(2) by (simp add: su_connect_def get_state_def Let_def c1_def [symmetric] c2_def [symmetric])
  have "su_inv c' \<and> cn_results c' = cn_results c \<and> (su_running c' \<longleftrightarrow> code e = VPN_EC_NOERROR)"
    using assms(2) fields inv2 c1(1,2,6) su_disconnect_stops [OF inv3] unfolding result
    by (cases inited; cases opened) (auto simp: error_codes su_running_def)
  then show "su_inv c'" "cn_results c' = cn_results c" "su_running c' \<longleftrightarrow> code e = VPN_EC_NOERROR" by auto
qed

end
