(* ===== verification/Fallback_Connector.thy ===== *)
theory Fallback_Connector
  imports Single_Connector
begin

text \<open>
  The connector that tries a main protocol and, after a delay or a failure, a fallback one
  (\<^verbatim>\<open>core/src/fallbackable_upstream_connector.cpp\<close>). It owns two connectors of
  \<open>Single_Connector\<close>; their results reach it through deferred tasks. \<open>None\<close> as a result is a
  failed assertion or a call through a null pointer.
\<close>

section \<open>State\<close>

record MainInfo =
  mi_connector :: "Connector option"
  mi_has_result :: bool
  mi_start_ts :: nanos
  mi_result_task :: "EndpointConnectorResult option"

record FallbackInfo =
  fi_connector :: "Connector option"
  fi_delay :: millis
  fi_tried :: bool
  fi_has_result :: bool
  fi_delay_task :: "millis option"
  fi_result_task :: "EndpointConnectorResult option"

record FbConnector =
  m_main :: MainInfo
  m_fallback :: FallbackInfo
  m_connect_timeout :: "millis option"
  fb_results :: "EndpointConnectorResult list"

definition main_empty :: MainInfo where
  "main_empty = \<lparr>mi_connector = None, mi_has_result = False, mi_start_ts = 0, mi_result_task = None\<rparr>"

definition fallback_empty :: FallbackInfo where
  "fallback_empty =
     \<lparr>fi_connector = None, fi_delay = 0, fi_tried = False, fi_has_result = False, fi_delay_task = None,
      fi_result_task = None\<rparr>"

definition fallback_connector_new :: "millis \<Rightarrow> FbConnector" where
  "fallback_connector_new delay =
     \<lparr>m_main = main_empty\<lparr>mi_connector := Some single_connector_new\<rparr>,
      m_fallback = fallback_empty\<lparr>fi_connector := Some single_connector_new, fi_delay := delay\<rparr>,
      m_connect_timeout = None, fb_results = []\<rparr>"

section \<open>Operations\<close>

text \<open>Which of the two connectors a result belongs to, for the comparison of the pointers.\<close>

datatype Which = MainConnector | FallbackConnector

definition disconnect_other :: "bool \<Rightarrow> FbConnector \<Rightarrow> FbConnector" where
  "disconnect_other is_main c =
     (if is_main then c\<lparr>m_fallback := (m_fallback c)\<lparr>fi_connector := map_option su_disconnect (fi_connector (m_fallback c))\<rparr>\<rparr>
      else c\<lparr>m_main := (m_main c)\<lparr>mi_connector := map_option su_disconnect (mi_connector (m_main c))\<rparr>\<rparr>)"

definition note_result :: "bool \<Rightarrow> FbConnector \<Rightarrow> FbConnector" where
  "note_result is_main c =
     (if is_main
      then c\<lparr>m_main := (m_main c)\<lparr>mi_connector := None, mi_has_result := True, mi_result_task := None\<rparr>\<rparr>
      else c\<lparr>m_fallback := (m_fallback c)\<lparr>fi_connector := None, fi_has_result := True, fi_result_task := None\<rparr>\<rparr>)"

definition handle_connect_result :: "Which \<Rightarrow> EndpointConnectorResult \<Rightarrow> FbConnector \<Rightarrow> FbConnector" where
  "handle_connect_result w r c =
     (let is_main = (w = MainConnector \<and> mi_connector (m_main c) \<noteq> None);
          c1 = (if r = ConnectedUpstream then disconnect_other is_main c else c);
          c2 = note_result is_main c1
      in if r = ConnectedUpstream \<or> mi_has_result (m_main c2) \<and> fi_has_result (m_fallback c2)
         then c2\<lparr>fb_results := fb_results c2 @ [r], m_main := main_empty, m_fallback := fallback_empty\<rparr>
         else if \<not> fi_tried (m_fallback c2) then c2\<lparr>m_fallback := (m_fallback c2)\<lparr>fi_delay_task := Some 0\<rparr>\<rparr>
         else c2)"

text \<open>\<open>inited\<close> and \<open>opened\<close> are the answers of the main upstream.\<close>

definition fb_connect :: "nanos \<Rightarrow> bool \<Rightarrow> bool \<Rightarrow> millis option \<Rightarrow> FbConnector \<Rightarrow> (VpnError \<times> FbConnector) option" where
  "fb_connect now inited opened timeout c =
     do {
       k \<leftarrow> mi_connector (m_main c);
       let (e, k') = su_connect inited opened timeout k;
       let c1 = c\<lparr>m_connect_timeout := timeout, m_main := (m_main c)\<lparr>mi_start_ts := now, mi_connector := Some k'\<rparr>\<rparr>;
       Some (no_error,
         if code e \<noteq> VPN_EC_NOERROR then handle_connect_result MainConnector (ConnectFailed e) c1
         else c1\<lparr>m_fallback := (m_fallback c1)\<lparr>fi_delay_task := Some (fi_delay (m_fallback c1))\<rparr>\<rparr>)
     }"

definition fb_disconnect :: "FbConnector \<Rightarrow> FbConnector" where
  "fb_disconnect c =
     c\<lparr>m_main := (m_main c)
         \<lparr>mi_connector := (if \<not> mi_has_result (m_main c) then map_option su_disconnect (mi_connector (m_main c))
                          else mi_connector (m_main c)),
          mi_result_task := None\<rparr>,
       m_fallback := (m_fallback c)
         \<lparr>fi_connector := (if fi_tried (m_fallback c) \<and> \<not> fi_has_result (m_fallback c)
                           then map_option su_disconnect (fi_connector (m_fallback c)) else fi_connector (m_fallback c)),
          fi_delay_task := None, fi_result_task := None\<rparr>\<rparr>"

definition on_both :: "(Connector \<Rightarrow> Connector) \<Rightarrow> FbConnector \<Rightarrow> FbConnector" where
  "on_both f c =
     c\<lparr>m_main := (m_main c)
         \<lparr>mi_connector := (if \<not> mi_has_result (m_main c) then map_option f (mi_connector (m_main c))
                          else mi_connector (m_main c))\<rparr>,
       m_fallback := (m_fallback c)
         \<lparr>fi_connector := (if fi_tried (m_fallback c) \<and> \<not> fi_has_result (m_fallback c)
                           then map_option f (fi_connector (m_fallback c)) else fi_connector (m_fallback c))\<rparr>\<rparr>"

definition fb_handle_sleep :: "FbConnector \<Rightarrow> FbConnector" where
  "fb_handle_sleep c = on_both su_handle_sleep c"

definition fb_handle_wake :: "FbConnector \<Rightarrow> FbConnector" where
  "fb_handle_wake c = on_both su_handle_wake c"

definition fallback_timeout :: "nanos \<Rightarrow> FbConnector \<Rightarrow> millis option" where
  "fallback_timeout now c =
     (case m_connect_timeout c of None \<Rightarrow> None
      | Some t \<Rightarrow> Some (max (t - duration_cast_ms (now - mi_start_ts (m_main c)))
                            (if 0 \<le> t then t div 10 else - ((- t) div 10))))"

definition start_fallback_connection :: "nanos \<Rightarrow> bool \<Rightarrow> bool \<Rightarrow> FbConnector \<Rightarrow> FbConnector option" where
  "start_fallback_connection now inited opened c =
     (if fi_tried (m_fallback c) \<or> fi_has_result (m_fallback c) then None
      else
        do {
          k \<leftarrow> fi_connector (m_fallback c);
          let (e, k') = su_connect inited opened (fallback_timeout now c) k;
          let c1 = c\<lparr>m_fallback := (m_fallback c)\<lparr>fi_tried := True, fi_connector := Some k'\<rparr>\<rparr>;
          Some (if code e \<noteq> VPN_EC_NOERROR then handle_connect_result FallbackConnector (ConnectFailed e) c1 else c1)
        })"

definition main_connector_handler :: "EndpointConnectorResult \<Rightarrow> FbConnector \<Rightarrow> FbConnector option" where
  "main_connector_handler r c =
     (if mi_result_task (m_main c) = None then Some (c\<lparr>m_main := (m_main c)\<lparr>mi_result_task := Some r\<rparr>\<rparr>) else None)"

definition fallback_connector_handler :: "EndpointConnectorResult \<Rightarrow> FbConnector \<Rightarrow> FbConnector option" where
  "fallback_connector_handler r c =
     (if fi_result_task (m_fallback c) = None
      then Some (c\<lparr>m_fallback := (m_fallback c)\<lparr>fi_result_task := Some r\<rparr>\<rparr>) else None)"

section \<open>Steps\<close>

text \<open>
  What the upstreams and the event loop do: a step of one of the two connectors, with the
  results that it passes handed to the handler of that connector, or one of the three tasks.
\<close>

fun hand_over :: "(EndpointConnectorResult \<Rightarrow> FbConnector \<Rightarrow> FbConnector option) \<Rightarrow> EndpointConnectorResult list \<Rightarrow>
    FbConnector \<Rightarrow> FbConnector option" where
  "hand_over h [] c = Some c"
| "hand_over h (r # rs) c = Option.bind (h r c) (hand_over h rs)"

definition main_moves :: "Connector \<Rightarrow> Connector \<Rightarrow> FbConnector \<Rightarrow> FbConnector option" where
  "main_moves k k' c =
     hand_over main_connector_handler (drop (length (cn_results k)) (cn_results k'))
       (c\<lparr>m_main := (m_main c)\<lparr>mi_connector := Some k'\<rparr>\<rparr>)"

definition fallback_moves :: "Connector \<Rightarrow> Connector \<Rightarrow> FbConnector \<Rightarrow> FbConnector option" where
  "fallback_moves k k' c =
     hand_over fallback_connector_handler (drop (length (cn_results k)) (cn_results k'))
       (c\<lparr>m_fallback := (m_fallback c)\<lparr>fi_connector := Some k'\<rparr>\<rparr>)"

inductive fb_step :: "FbConnector \<Rightarrow> FbConnector \<Rightarrow> bool" where
  main: "mi_connector (m_main c) = Some k \<Longrightarrow> su_step k k' \<Longrightarrow> main_moves k k' c = Some c' \<Longrightarrow> fb_step c c'"
| fallback: "fi_connector (m_fallback c) = Some k \<Longrightarrow> su_step k k' \<Longrightarrow> fallback_moves k k' c = Some c' \<Longrightarrow> fb_step c c'"
| main_result: "mi_result_task (m_main c) = Some r \<Longrightarrow> fb_step c (handle_connect_result MainConnector r c)"
| fallback_result: "fi_result_task (m_fallback c) = Some r \<Longrightarrow> fb_step c (handle_connect_result FallbackConnector r c)"
| delay: "fi_delay_task (m_fallback c) = Some t \<Longrightarrow>
    start_fallback_connection now inited opened (c\<lparr>m_fallback := (m_fallback c)\<lparr>fi_delay_task := None\<rparr>\<rparr>) = Some c' \<Longrightarrow>
    fb_step c c'"
| sleep: "fb_step c (fb_handle_sleep c)"
| wake: "fb_step c (fb_handle_wake c)"

section \<open>Invariant\<close>

text \<open>
  One side of the procedure: active (its connector runs or its result is on the way), done, or
  off. The procedure is live when no side is off and not both are done, and dead when both are off.
\<close>

definition side_active :: "Connector option \<Rightarrow> EndpointConnectorResult option \<Rightarrow> bool \<Rightarrow> bool" where
  "side_active k r has \<longleftrightarrow> \<not> has \<and> (\<exists>c. k = Some c \<and> su_inv c \<and> (su_running c \<longleftrightarrow> r = None))"

definition side_done :: "Connector option \<Rightarrow> EndpointConnectorResult option \<Rightarrow> bool \<Rightarrow> bool" where
  "side_done k r has \<longleftrightarrow> has \<and> k = None \<and> r = None"

definition side_off :: "Connector option \<Rightarrow> EndpointConnectorResult option \<Rightarrow> bool" where
  "side_off k r \<longleftrightarrow> r = None \<and> (\<forall>c. k = Some c \<longrightarrow> su_inv c \<and> \<not> su_running c)"

definition main_live :: "MainInfo \<Rightarrow> bool" where
  "main_live m \<longleftrightarrow>
     side_active (mi_connector m) (mi_result_task m) (mi_has_result m) \<or>
     side_done (mi_connector m) (mi_result_task m) (mi_has_result m)"

definition fallback_waiting :: "FallbackInfo \<Rightarrow> bool" where
  "fallback_waiting f \<longleftrightarrow> \<not> fi_tried f \<and> \<not> fi_has_result f \<and> fi_result_task f = None \<and>
     (\<exists>k. fi_connector f = Some k \<and> su_ready k)"

definition fallback_live :: "FallbackInfo \<Rightarrow> bool" where
  "fallback_live f \<longleftrightarrow>
     fallback_waiting f \<and> fi_delay_task f \<noteq> None \<or>
     fi_tried f \<and> fi_delay_task f = None \<and>
       (side_active (fi_connector f) (fi_result_task f) (fi_has_result f) \<or>
        side_done (fi_connector f) (fi_result_task f) (fi_has_result f))"

definition fb_live :: "FbConnector \<Rightarrow> bool" where
  "fb_live c \<longleftrightarrow> main_live (m_main c) \<and> fallback_live (m_fallback c) \<and>
     \<not> (mi_has_result (m_main c) \<and> fi_has_result (m_fallback c))"

definition fb_dead :: "FbConnector \<Rightarrow> bool" where
  "fb_dead c \<longleftrightarrow> side_off (mi_connector (m_main c)) (mi_result_task (m_main c)) \<and>
     side_off (fi_connector (m_fallback c)) (fi_result_task (m_fallback c)) \<and> fi_delay_task (m_fallback c) = None"

definition fb_inv :: "FbConnector \<Rightarrow> bool" where
  "fb_inv c \<longleftrightarrow> fb_live c \<or> fb_dead c"

text \<open>Something is in progress: a connector runs or a task is queued.\<close>

definition fb_running :: "FbConnector \<Rightarrow> bool" where
  "fb_running c \<longleftrightarrow>
     (\<exists>k. mi_connector (m_main c) = Some k \<and> su_running k) \<or> mi_result_task (m_main c) \<noteq> None \<or>
     (\<exists>k. fi_connector (m_fallback c) = Some k \<and> su_running k) \<or> fi_result_task (m_fallback c) \<noteq> None \<or>
     fi_delay_task (m_fallback c) \<noteq> None"

lemmas side_defs = side_active_def side_done_def side_off_def
lemmas live_defs = fb_live_def main_live_def fallback_live_def fallback_waiting_def

lemma live_running: "fb_live c \<Longrightarrow> fb_running c"
  by (auto simp: live_defs side_defs fb_running_def)

lemma dead_not_running: "fb_dead c \<Longrightarrow> \<not> fb_running c"
  by (auto simp: fb_dead_def side_off_def fb_running_def)

section \<open>Steps keep the invariant\<close>

text \<open>What a step may do to the procedure: it goes on without a result or ends with one.\<close>

definition goes_on_or_ends :: "FbConnector \<Rightarrow> FbConnector \<Rightarrow> bool" where
  "goes_on_or_ends c c' \<longleftrightarrow>
     fb_live c' \<and> fb_results c' = fb_results c \<or> fb_dead c' \<and> (\<exists>r. fb_results c' = fb_results c @ [r])"

lemma su_ready_step:
  assumes r: "su_ready k" and s: "su_step k k'"
  shows "su_ready k' \<and> cn_results k' = cn_results k"
proof -
  from r have inv: "su_inv k" "\<not> su_running k" by (simp_all add: su_ready_def)
  have same: "su_perform True ev d k = k" if "ev \<noteq> SUE_RUN_CONNECT" for ev d
    using su_perform_results(2) [OF inv(1) that inv(2)] by simp
  have d: "su_inv (k\<lparr>cn_deferred_task := False\<rparr>)" "\<not> su_running (k\<lparr>cn_deferred_task := False\<rparr>)"
    using inv by (auto simp: su_inv_def su_running_def)
  have "su_perform True SUE_DEFERRED_DISCONNECT SuNone (k\<lparr>cn_deferred_task := False\<rparr>) = k\<lparr>cn_deferred_task := False\<rparr>"
    using su_perform_results(2) [OF d(1) _ d(2)] by simp
  with s inv(1) show ?thesis
    using r same inv(2) d by (elim su_step_cases) (auto simp: su_ready_def)
qed

lemma moves_cases:
  assumes "su_inv k" "su_step k k'"
  obtains (quiet) "su_inv k'" "su_running k' = su_running k" "drop (length (cn_results k)) (cn_results k') = []"
  | (result) r where "su_inv k'" "su_running k" "\<not> su_running k'" "drop (length (cn_results k)) (cn_results k') = [r]"
proof (cases "su_running k")
  case True
  then show ?thesis
    using sc.step_running [OF assms(1) True assms(2)] sc.step_invar [OF assms] that by auto
next
  case False
  then show ?thesis
    using sc.step_stopped [OF assms(1) False assms(2)] sc.step_invar [OF assms] that by auto
qed

lemma handle_main_result:
  assumes "mi_connector (m_main c) \<noteq> None" "\<not> mi_has_result (m_main c)"
    and "fallback_waiting (m_fallback c) \<or> fallback_live (m_fallback c)"
  shows "goes_on_or_ends c (handle_connect_result MainConnector r c)"
  using assms
  by (cases r)
    (auto simp: handle_connect_result_def disconnect_other_def note_result_def goes_on_or_ends_def live_defs fb_dead_def
      side_defs main_empty_def fallback_empty_def Let_def)

lemma handle_fallback_result:
  assumes "fi_connector (m_fallback c) \<noteq> None" "\<not> fi_has_result (m_fallback c)" "fi_tried (m_fallback c)"
    and "fi_delay_task (m_fallback c) = None" "main_live (m_main c)"
  shows "goes_on_or_ends c (handle_connect_result FallbackConnector r c)"
  using assms
  by (cases r)
    (auto simp: handle_connect_result_def disconnect_other_def note_result_def goes_on_or_ends_def live_defs fb_dead_def
      side_defs main_empty_def fallback_empty_def Let_def)

lemma sleep_inv:
  "su_inv (su_handle_sleep k) = su_inv k" "su_running (su_handle_sleep k) = su_running k"
  "su_inv (su_handle_wake k) = su_inv k" "su_running (su_handle_wake k) = su_running k"
  by (auto simp: su_handle_sleep_def su_handle_wake_def su_inv_def su_running_def call_upstream_def get_state_def)

lemma su_ready_connect:
  assumes "su_ready k" "su_connect inited opened t k = (e, k')"
  shows "su_inv k'" "su_running k' \<longleftrightarrow> code e = VPN_EC_NOERROR"
  using su_connect_effect [OF assms] by auto

lemma on_both_live:
  assumes "fb_live c" "\<And>k. su_inv (f k) = su_inv k \<and> su_running (f k) = su_running k"
  shows "goes_on_or_ends c (on_both f c)"
proof -
  have "main_live (m_main (on_both f c))"
    using assms by (auto simp: fb_live_def main_live_def on_both_def side_active_def side_done_def)
  moreover have "fallback_live (m_fallback (on_both f c))"
    using assms by (auto simp: fb_live_def fallback_live_def fallback_waiting_def on_both_def side_active_def side_done_def)
  ultimately show ?thesis using assms(1) by (simp add: goes_on_or_ends_def fb_live_def on_both_def)
qed

lemma live_step:
  assumes "fb_live c" "fb_step c c'"
  shows "goes_on_or_ends c c'"
proof -
  have live_parts: "main_live (m_main c)" "fallback_live (m_fallback c)"
    "\<not> (mi_has_result (m_main c) \<and> fi_has_result (m_fallback c))"
    using assms(1) by (auto simp: fb_live_def)
  from assms(2) show ?thesis
proof (cases rule: fb_step.cases)
  case (main k k')
  then have "su_inv k" using assms(1) by (auto simp: live_defs side_defs)
  from this main(2) show ?thesis
  proof (cases rule: moves_cases)
    case quiet
    then have "c' = c\<lparr>m_main := (m_main c)\<lparr>mi_connector := Some k'\<rparr>\<rparr>" using main by (simp add: main_moves_def)
    then show ?thesis using quiet live_parts main(1) by (auto simp: goes_on_or_ends_def fb_live_def main_live_def side_defs)
  next
    case (result r)
    then have "mi_result_task (m_main c) = None" using main(1) live_parts(1) by (auto simp: main_live_def side_defs)
    then have "c' = c\<lparr>m_main := (m_main c)\<lparr>mi_connector := Some k', mi_result_task := Some r\<rparr>\<rparr>"
      using result main by (simp add: main_moves_def main_connector_handler_def)
    then show ?thesis using result live_parts main(1) by (auto simp: goes_on_or_ends_def fb_live_def main_live_def side_defs)
  qed
next
  case (fallback k k')
  show ?thesis
  proof (cases "fi_tried (m_fallback c)")
    case False
    then have "su_ready k'" "drop (length (cn_results k)) (cn_results k') = []"
      using su_ready_step [of k k'] fallback assms(1) by (auto simp: live_defs)
    moreover from this have "c' = c\<lparr>m_fallback := (m_fallback c)\<lparr>fi_connector := Some k'\<rparr>\<rparr>"
      using fallback by (simp add: fallback_moves_def)
    ultimately show ?thesis
      using False live_parts by (auto simp: goes_on_or_ends_def fb_live_def fallback_live_def fallback_waiting_def)
  next
    case True
    then have "su_inv k" using fallback assms(1) by (auto simp: live_defs side_defs)
    from this fallback(2) show ?thesis
    proof (cases rule: moves_cases)
      case quiet
      then have "c' = c\<lparr>m_fallback := (m_fallback c)\<lparr>fi_connector := Some k'\<rparr>\<rparr>" using fallback by (simp add: fallback_moves_def)
      then show ?thesis
        using True quiet live_parts fallback(1) by (auto simp: goes_on_or_ends_def fb_live_def fallback_live_def fallback_waiting_def side_defs)
    next
      case (result r)
      then have "fi_result_task (m_fallback c) = None"
        using True fallback(1) live_parts(2) by (auto simp: fallback_live_def fallback_waiting_def side_defs)
      then have "c' = c\<lparr>m_fallback := (m_fallback c)\<lparr>fi_connector := Some k', fi_result_task := Some r\<rparr>\<rparr>"
        using result fallback by (simp add: fallback_moves_def fallback_connector_handler_def)
      then show ?thesis
        using True result live_parts fallback(1) by (auto simp: goes_on_or_ends_def fb_live_def fallback_live_def fallback_waiting_def side_defs)
    qed
  qed
next
  case (main_result r)
  then show ?thesis
    using assms(1) handle_main_result [of c r] by (auto simp: live_defs side_defs)
next
  case (fallback_result r)
  then show ?thesis
    using assms(1) handle_fallback_result [of c r] by (auto simp: live_defs side_defs)
next
  case (delay t now inited opened)
  let ?f = "(m_fallback c)\<lparr>fi_delay_task := None\<rparr>"
  obtain k where k: "fi_connector (m_fallback c) = Some k" "su_ready k" "\<not> fi_tried (m_fallback c)"
    "\<not> fi_has_result (m_fallback c)" "fi_result_task (m_fallback c) = None"
    using delay(1) assms(1) by (auto simp: live_defs)
  obtain e k' where e: "su_connect inited opened (fallback_timeout now (c\<lparr>m_fallback := ?f\<rparr>)) k = (e, k')" by force
  note start = su_ready_connect [OF k(2) e]
  define c1 where "c1 = c\<lparr>m_fallback := ?f\<lparr>fi_tried := True, fi_connector := Some k'\<rparr>\<rparr>"
  have c': "c' = (if code e \<noteq> VPN_EC_NOERROR then handle_connect_result FallbackConnector (ConnectFailed e) c1 else c1)"
    using delay(2) k e by (auto simp: start_fallback_connection_def c1_def Let_def)
  have main: "main_live (m_main c1)" "fb_results c1 = fb_results c" using assms(1) by (auto simp: c1_def fb_live_def)
  show ?thesis
  proof (cases "code e = VPN_EC_NOERROR")
    case True
    then show ?thesis
      using c' main start k by (auto simp: goes_on_or_ends_def fb_live_def fallback_live_def side_active_def c1_def)
  next
    case False
    have "goes_on_or_ends c1 (handle_connect_result FallbackConnector (ConnectFailed e) c1)"
      by (rule handle_fallback_result) (use main k in \<open>simp_all add: c1_def\<close>)
    then show ?thesis using False c' main(2) by (simp add: goes_on_or_ends_def)
  qed
next
  case sleep
  then show ?thesis using on_both_live [OF assms(1), of su_handle_sleep] by (simp add: sleep_inv fb_handle_sleep_def)
next
  case wake
  then show ?thesis using on_both_live [OF assms(1), of su_handle_wake] by (simp add: sleep_inv fb_handle_wake_def)
qed
qed

lemma dead_step:
  assumes "fb_dead c" "fb_step c c'"
  shows "fb_dead c' \<and> fb_results c' = fb_results c"
  using assms(2)
proof (cases rule: fb_step.cases)
  case (main k k')
  then have "su_inv k" "\<not> su_running k" using assms(1) by (auto simp: fb_dead_def side_off_def)
  from this(1) main(2) show ?thesis
    using main assms(1) \<open>\<not> su_running k\<close>
    by (cases rule: moves_cases) (auto simp: main_moves_def fb_dead_def side_off_def)
next
  case (fallback k k')
  then have "su_inv k" "\<not> su_running k" using assms(1) by (auto simp: fb_dead_def side_off_def)
  from this(1) fallback(2) show ?thesis
    using fallback assms(1) \<open>\<not> su_running k\<close>
    by (cases rule: moves_cases) (auto simp: fallback_moves_def fb_dead_def side_off_def)
qed (use assms(1) in \<open>auto simp: fb_handle_sleep_def fb_handle_wake_def on_both_def fb_dead_def side_off_def sleep_inv\<close>)

lemma disconnect_dead:
  assumes "fb_inv c"
  shows "fb_dead (fb_disconnect c)" "fb_results (fb_disconnect c) = fb_results c"
  using assms su_disconnect_stops
  by (auto simp: fb_inv_def fb_disconnect_def live_defs fb_dead_def side_defs su_ready_def)

interpretation fc: endpoint_connector fb_inv fb_running fb_results fb_step fb_disconnect
proof (unfold_locales, goal_cases)
  case (1 c c')
  then show ?case using live_step dead_step by (auto simp: fb_inv_def goes_on_or_ends_def)
next
  case (2 c c')
  then have "fb_live c" using dead_not_running by (auto simp: fb_inv_def)
  then show ?case using live_step [OF _ 2(3)] live_running dead_not_running by (auto simp: goes_on_or_ends_def)
next
  case (3 c c')
  then have "fb_dead c" using live_running by (auto simp: fb_inv_def)
  then show ?case using dead_step [OF _ 3(3)] dead_not_running by auto
next
  case (4 c)
  then show ?case using disconnect_dead by (simp add: fb_inv_def)
next
  case (5 c)
  then show ?case using disconnect_dead dead_not_running by blast
qed

section \<open>Properties\<close>

definition fb_fresh :: "FbConnector \<Rightarrow> bool" where
  "fb_fresh c \<longleftrightarrow>
     (\<exists>k. mi_connector (m_main c) = Some k \<and> su_ready k) \<and> \<not> mi_has_result (m_main c) \<and>
     mi_result_task (m_main c) = None \<and> fallback_waiting (m_fallback c) \<and> fi_delay_task (m_fallback c) = None"

lemma fb_fresh_new: "fb_fresh (fallback_connector_new delay)"
  by (simp add: fb_fresh_def fallback_connector_new_def main_empty_def fallback_empty_def fallback_waiting_def su_ready_new)

lemma fb_connect_live:
  assumes "fb_fresh c"
  shows "\<exists>c'. fb_connect now inited opened timeout c = Some (no_error, c') \<and> fb_live c' \<and> fb_results c' = fb_results c"
proof -
  obtain k where k: "mi_connector (m_main c) = Some k" "su_ready k" using assms by (auto simp: fb_fresh_def)
  obtain e k' where e: "su_connect inited opened timeout k = (e, k')" by force
  note start = su_ready_connect [OF k(2) e]
  define c1 where "c1 = c\<lparr>m_connect_timeout := timeout, m_main := (m_main c)\<lparr>mi_start_ts := now, mi_connector := Some k'\<rparr>\<rparr>"
  have c1: "mi_connector (m_main c1) = Some k'" "\<not> mi_has_result (m_main c1)" "mi_result_task (m_main c1) = None"
    "fallback_waiting (m_fallback c1)" "fb_results c1 = fb_results c"
    using assms by (simp_all add: c1_def fb_fresh_def)
  have result: "fb_connect now inited opened timeout c = Some (no_error,
      if code e \<noteq> VPN_EC_NOERROR then handle_connect_result MainConnector (ConnectFailed e) c1
      else c1\<lparr>m_fallback := (m_fallback c1)\<lparr>fi_delay_task := Some (fi_delay (m_fallback c1))\<rparr>\<rparr>)"
    using k(1) e by (simp add: fb_connect_def c1_def Let_def)
  have waiting: "\<not> fi_has_result (m_fallback c1)" "\<not> fi_tried (m_fallback c1)" using c1(4) by (simp_all add: fallback_waiting_def)
  have fb: "fallback_live ((m_fallback c1)\<lparr>fi_delay_task := Some t\<rparr>)" for t
    using c1(4) by (simp add: fallback_live_def fallback_waiting_def)
  show ?thesis
  proof (cases "code e = VPN_EC_NOERROR")
    case True
    then have "main_live (m_main c1)" using start c1 by (simp add: main_live_def side_active_def)
    then show ?thesis using True result fb c1(5) waiting by (simp add: fb_live_def)
  next
    case False
    let ?c2 = "c1\<lparr>m_main := (m_main c1)\<lparr>mi_connector := None, mi_has_result := True, mi_result_task := None\<rparr>,
      m_fallback := (m_fallback c1)\<lparr>fi_delay_task := Some 0\<rparr>\<rparr>"
    have "handle_connect_result MainConnector (ConnectFailed e) c1 = ?c2"
      using c1(1) waiting by (simp add: handle_connect_result_def note_result_def Let_def)
    moreover have "fb_live ?c2" using fb waiting by (simp add: fb_live_def main_live_def side_done_def)
    ultimately show ?thesis using False result c1(5) by simp
  qed
qed

text \<open>
  Claim C25: connecting with a fallback always ends with one answer. Starting a fresh connector
  never fails. Whatever the two upstreams and the event loop then do, in any order, the owner
  gets exactly one result, and the procedure is over exactly when it got it; until then one of
  the two connectors runs or one of the three tasks is queued. After an interruption no result
  comes any more.
\<close>

theorem fallback_connect_one_result:
  assumes "fb_fresh c"
  shows "\<exists>c1. fb_connect now inited opened timeout c = Some (no_error, c1) \<and>
    (\<forall>c2. rtranclp fb_step c1 c2 \<longrightarrow>
       (if fb_running c2 then fb_results c2 = fb_results c else (\<exists>r. fb_results c2 = fb_results c @ [r])) \<and>
       (\<forall>c3. rtranclp fb_step (fb_disconnect c2) c3 \<longrightarrow> fb_results c3 = fb_results c2))"
proof -
  obtain c1 where c1: "fb_connect now inited opened timeout c = Some (no_error, c1)" "fb_live c1"
    "fb_results c1 = fb_results c" using fb_connect_live [OF assms] by blast
  then have start: "fb_inv c1" "fb_running c1" using live_running by (auto simp: fb_inv_def)
  show ?thesis
  proof (intro exI conjI allI impI)
    show "fb_connect now inited opened timeout c = Some (no_error, c1)" by (rule c1(1))
  next
    fix c2 assume c2: "rtranclp fb_step c1 c2"
    note r = fc.one_result [OF c2 start]
    show "if fb_running c2 then fb_results c2 = fb_results c else (\<exists>r. fb_results c2 = fb_results c @ [r])"
      using r unfolding c1(3) by (rule conjunct2)
    show "fb_results c3 = fb_results c2" if "rtranclp fb_step (fb_disconnect c2) c3" for c3
      using r that by (blast intro: fc.no_result_after_disconnect)
  qed
qed

text \<open>A run: the main upstream cannot even be initialised, the fallback one connects.\<close>

theorem fallback_connect_one_result_witness:
  "\<exists>c1 c2. fb_connect 0 False True (Some 10000) (fallback_connector_new 1000) = Some (no_error, c1) \<and>
     rtranclp fb_step c1 c2 \<and> \<not> fb_running c2 \<and> fb_results c2 = [ConnectedUpstream]"
proof -
  obtain c1' where c1': "fb_connect 0 False True (Some 10000) (fallback_connector_new 1000) = Some (no_error, c1')"
    and all: "\<forall>c2. rtranclp fb_step c1' c2 \<longrightarrow> (if fb_running c2 then fb_results c2 = fb_results (fallback_connector_new 1000)
       else (\<exists>r. fb_results c2 = fb_results (fallback_connector_new 1000) @ [r]))"
    using fallback_connect_one_result [OF fb_fresh_new, of 0 False True "Some 10000" 1000] by blast
  let ?k = "\<lparr>cn_fsm = \<lparr>m_current_state = 1, m_recursive = False\<rparr>, cn_upstream = True, cn_pending_error = None,
      cn_deferred_task = False, cn_calls = [UC_init, UC_open_session (Some 9000)], cn_results = []\<rparr>"
  let ?k' = "\<lparr>cn_fsm = \<lparr>m_current_state = 0, m_recursive = False\<rparr>, cn_upstream = False, cn_pending_error = None,
      cn_deferred_task = False, cn_calls = [UC_init, UC_open_session (Some 9000), UC_parent_handler],
      cn_results = [ConnectedUpstream]\<rparr>"
  let ?main = "\<lparr>mi_connector = None, mi_has_result = True, mi_start_ts = 0, mi_result_task = None\<rparr>"
  let ?c = "\<lambda>k tried delay r. \<lparr>m_main = ?main, m_fallback = \<lparr>fi_connector = Some k, fi_delay = 1000, fi_tried = tried,
      fi_has_result = False, fi_delay_task = delay, fi_result_task = r\<rparr>, m_connect_timeout = Some 10000, fb_results = []\<rparr>"
  let ?new = "single_connector_new"
  have e1: "c1' = ?c ?new False (Some 0) None"
    using c1' by (simp add: fb_connect_def fallback_connector_new_def main_empty_def fallback_empty_def su_connect_def
        get_state_def single_connector_new_def Let_def error_codes handle_connect_result_def note_result_def call_upstream_def)
  have open_: "su_connect True True (Some 9000) ?new = (no_error, ?k)"
    by (simp add: su_connect_def get_state_def single_connector_new_def Let_def call_upstream_def su_perform_effect
        [of _ SU_DISCONNECTED] su_enter_def su_do_connect_def)
  have timeout: "fallback_timeout 1000000000 (c\<lparr>m_connect_timeout := Some 10000, m_main := ?main\<rparr>) = Some 9000" for c
    by (simp add: fallback_timeout_def duration_cast_ms_def)
  have "start_fallback_connection 1000000000 True True (?c ?new False None None) = Some (?c ?k True None None)"
    using open_ timeout [of "?c ?new False None None"]
    by (simp add: start_fallback_connection_def Let_def error_codes)
  then have s1: "fb_step c1' (?c ?k True None None)"
    unfolding e1 by (intro fb_step.delay [where t = 0 and now = 1000000000 and inited = True and opened = True]) simp_all
  have "su_step ?k ?k'"
    by (rule su_step.event [where what = SERVER_EVENT_SESSION_OPENED])
      (simp_all add: su_upstream_handler_def su_perform_effect [of _ SU_CONNECTING] su_enter_def su_raise_connected_def
        call_upstream_def raise_result_def)
  then have s2: "fb_step (?c ?k True None None) (?c ?k' True None (Some ConnectedUpstream))"
    by (intro fb_step.fallback [where k = ?k and k' = ?k'])
      (simp_all add: fallback_moves_def fallback_connector_handler_def)
  define c2 where "c2 = handle_connect_result FallbackConnector ConnectedUpstream (?c ?k' True None (Some ConnectedUpstream))"
  have "fb_step (?c ?k' True None (Some ConnectedUpstream)) c2"
    unfolding c2_def by (rule fb_step.fallback_result) simp
  with s1 s2 have steps: "rtranclp fb_step c1' c2" by (meson converse_rtranclp_into_rtranclp rtranclp.rtrancl_refl)
  have "\<not> fb_running c2"
    by (simp add: c2_def handle_connect_result_def disconnect_other_def note_result_def main_empty_def fallback_empty_def
        fb_running_def Let_def)
  moreover have "fb_results c2 = [ConnectedUpstream]"
    by (simp add: c2_def handle_connect_result_def disconnect_other_def note_result_def Let_def)
  ultimately show ?thesis using c1' steps by blast
qed

end
