(* ===== verification/Vpn_Client.thy ===== *)
theory Vpn_Client
  imports Single_Connector
begin

text \<open>
  The client of one endpoint (\<^verbatim>\<open>core/src/vpn_client.cpp\<close>): the second state machine on the
  engine of \<open>Fsm\<close>, between the session manager above it and the connector, the upstreams, the
  tunnel and the listeners below it. The parts below are outside: the calls to them are
  recorded and their answers are arguments. Of the connector only what the interface
  \<open>endpoint_connector\<close> promises is used: whether it is running. The contents of the
  configuration, the listener passwords and the log are left out.
\<close>

section \<open>State\<close>

datatype ClState = S_DISCONNECTED | S_CONNECTING | S_CONNECTED | S_DISCONNECTING

datatype SessionEvent =
    E_RUN_CONNECT | E_DISCONNECT | E_DEFERRED_DISCONNECT | E_RUN_PREPARATION_FAIL | E_SESSION_OPENED
  | E_SESSION_CLOSED | E_SESSION_ERROR | E_HEALTH_CHECK_ERROR

fun cls :: "ClState \<Rightarrow> FsmState" where
  "cls S_DISCONNECTED = 0"
| "cls S_CONNECTING = 1"
| "cls S_CONNECTED = 2"
| "cls S_DISCONNECTING = 3"

fun cle :: "SessionEvent \<Rightarrow> FsmEvent" where
  "cle E_RUN_CONNECT = 0"
| "cle E_DISCONNECT = 1"
| "cle E_DEFERRED_DISCONNECT = 2"
| "cle E_RUN_PREPARATION_FAIL = 3"
| "cle E_SESSION_OPENED = 4"
| "cle E_SESSION_CLOSED = 5"
| "cle E_SESSION_ERROR = 6"
| "cle E_HEALTH_CHECK_ERROR = 7"

text \<open>The tasks of \<open>deferred_tasks\<close>: the connector finalizer, a health check, the deferred disconnect.\<close>

datatype ClientTask = CT_finalizer | CT_health_check | CT_disconnect

text \<open>The events that are raised to the session manager.\<close>

datatype RaisedEvent =
    CL_EVENT_CONNECTED
  | CL_EVENT_DISCONNECTED
  | CL_EVENT_ERROR VpnError
  | CL_EVENT_DNS_UPSTREAM_UNAVAILABLE

text \<open>
  The calls that leave the client. \<open>CL_disconnect\<close> marks the call of \<open>VpnClient::disconnect\<close> itself, by which
  its caller knows that the session is over, and \<open>CL_null\<close> is a call through a null pointer.
\<close>

datatype ClCall =
    CL_raise RaisedEvent
  | CL_disconnect
  | CL_connector_connect "millis option"
  | CL_connector_disconnect
  | CL_connector_sleep
  | CL_connector_wake
  | CL_upstream_close_session
  | CL_upstream_deinit
  | CL_upstream_health_check
  | CL_upstream_sleep
  | CL_upstream_wake
  | CL_upstream_stats
  | CL_tunnel_event "unit ServerEvent"
  | CL_tunnel_before_disconnect
  | CL_tunnel_after_disconnect
  | CL_tunnel_exclusions_updated
  | CL_tunnel_reset_listener
  | CL_tunnel_reset_connections int
  | CL_tunnel_update_dns
  | CL_tunnel_resolve_check
  | CL_tunnel_network_change
  | CL_tunnel_sleep
  | CL_tunnel_wake
  | CL_tunnel_deinit
  | CL_bypass_open_session
  | CL_bypass_close_session
  | CL_bypass_deinit
  | CL_bypass_event "unit ServerEvent"
  | CL_listener_init
  | CL_listener_deinit
  | CL_listener_packets
  | CL_dns_listener_init
  | CL_dns_listener_deinit
  | CL_clean_up_files
  | CL_null

text \<open>
  \<open>cl_connector\<close>: a null pointer, or whether the connector runs. \<open>cl_upstream\<close>: a null pointer, or
  whether the session of the upstream is open.
\<close>

record VpnClient =
  cl_fsm :: Fsm
  cl_pending_error :: "VpnError option"
  cl_connector :: "bool option"
  cl_upstream :: "bool option"
  cl_tunnel :: bool
  cl_bypass_upstream :: bool
  bypass_upstream_session_opened :: bool
  cl_client_listener :: bool
  cl_dns_proxy_listener :: bool
  cl_has_dns_upstreams :: bool
  dns_health_check_id :: bool
  cl_kill_switch_on :: bool
  cl_tmp_files :: bool
  in_disconnect :: bool
  deferred_tasks :: "ClientTask list"
  cl_calls :: "ClCall list"

text \<open>The answers of the parts below.\<close>

datatype InitResult = INIT_SUCCESS | INIT_ADDR_IN_USE | INIT_FAILURE

record ClAnswers =
  an_connect :: VpnError
  an_rand_ok :: bool
  an_dns_listener :: InitResult
  an_dns_params_ok :: bool
  an_dns_check_ok :: bool
  an_listener :: InitResult
  an_bypass_open :: bool

datatype ClData = ClNone | ClTimeout "millis option" | ClError VpnError

definition vpn_client_new :: VpnClient where
  "vpn_client_new =
     \<lparr>cl_fsm = \<lparr>m_current_state = cls S_DISCONNECTED, m_recursive = False\<rparr>, cl_pending_error = None,
      cl_connector = None, cl_upstream = None, cl_tunnel = True, cl_bypass_upstream = False,
      bypass_upstream_session_opened = False, cl_client_listener = False, cl_dns_proxy_listener = False,
      cl_has_dns_upstreams = False, dns_health_check_id = False, cl_kill_switch_on = False,
      cl_tmp_files = False, in_disconnect = False, deferred_tasks = [], cl_calls = []\<rparr>"

text \<open>Of the settings only what the session depends on; the two answers are those of the tunnel and the direct upstream.\<close>

definition cl_init :: "bool \<Rightarrow> bool \<Rightarrow> bool \<Rightarrow> bool \<Rightarrow> VpnClient \<Rightarrow> VpnError \<times> VpnClient" where
  "cl_init kill_switch tmp_files tunnel_ok bypass_ok c =
     (let c1 = c\<lparr>cl_kill_switch_on := kill_switch, cl_tmp_files := tmp_files\<rparr>
      in if \<not> tunnel_ok then (mk_error VPN_EC_INVALID_SETTINGS ''Failed to initialize connection tunnelling module'', c1)
         else
           let c2 = c1\<lparr>cl_bypass_upstream := True\<rparr>
           in if \<not> bypass_ok
              then (mk_error VPN_EC_INVALID_SETTINGS ''Failed to initialize an upstream for bypassed connections'', c2)
              else (no_error, c2))"

definition ready_client :: "bool \<Rightarrow> bool \<Rightarrow> VpnClient" where
  "ready_client kill_switch tmp_files = snd (cl_init kill_switch tmp_files True True vpn_client_new)"

definition cl_emit :: "ClCall \<Rightarrow> VpnClient \<Rightarrow> VpnClient" where
  "cl_emit x c = c\<lparr>cl_calls := cl_calls c @ [x]\<rparr>"

definition on_tunnel :: "ClCall \<Rightarrow> VpnClient \<Rightarrow> VpnClient" where
  "on_tunnel x c = cl_emit (if cl_tunnel c then x else CL_null) c"

definition on_upstream :: "ClCall \<Rightarrow> VpnClient \<Rightarrow> VpnClient" where
  "on_upstream x c = cl_emit (if cl_upstream c \<noteq> None then x else CL_null) c"

definition on_bypass :: "ClCall \<Rightarrow> VpnClient \<Rightarrow> VpnClient" where
  "on_bypass x c = cl_emit (if cl_bypass_upstream c then x else CL_null) c"

lemmas ready_client_defs = ready_client_def cl_init_def vpn_client_new_def Let_def

section \<open>Actions\<close>

definition run_connect :: "ClAnswers \<Rightarrow> VpnClient \<Rightarrow> ClData \<Rightarrow> VpnClient" where
  "run_connect a c d =
     (case cl_connector c of
        None \<Rightarrow> cl_emit CL_null c
      | Some _ \<Rightarrow>
          let c1 = cl_emit (CL_connector_connect (case d of ClTimeout t \<Rightarrow> t | _ \<Rightarrow> None)) c
          in if code (an_connect a) \<noteq> VPN_EC_NOERROR then c1\<lparr>cl_pending_error := Some (an_connect a)\<rparr>
             else c1\<lparr>cl_connector := Some True\<rparr>)"

definition raise_connected :: "VpnClient \<Rightarrow> ClData \<Rightarrow> VpnClient" where
  "raise_connected c d = cl_emit (CL_raise CL_EVENT_CONNECTED) c"

definition raise_disconnected :: "VpnClient \<Rightarrow> ClData \<Rightarrow> VpnClient" where
  "raise_disconnected c d =
     (case cl_pending_error c of
        None \<Rightarrow> cl_emit (CL_raise CL_EVENT_DISCONNECTED) c
      | Some e \<Rightarrow> (cl_emit (CL_raise (CL_EVENT_ERROR e)) c)\<lparr>cl_pending_error := None\<rparr>)"

definition note_client_error :: "ClData \<Rightarrow> VpnClient \<Rightarrow> VpnClient" where
  "note_client_error d c =
     (case d of
        ClError e \<Rightarrow> if cl_pending_error c = None \<and> code e \<noteq> VPN_EC_NOERROR then c\<lparr>cl_pending_error := Some e\<rparr> else c
      | _ \<Rightarrow> c)"

definition drop_connector :: "VpnClient \<Rightarrow> VpnClient" where
  "drop_connector c =
     (if cl_connector c \<noteq> None then (cl_emit CL_connector_disconnect c)\<lparr>cl_connector := None\<rparr> else c)"

definition close_upstream :: "VpnClient \<Rightarrow> VpnClient" where
  "close_upstream c =
     (if cl_upstream c \<noteq> None then (cl_emit CL_upstream_close_session c)\<lparr>cl_upstream := Some False\<rparr> else c)"

definition drop_dns_listener :: "VpnClient \<Rightarrow> VpnClient" where
  "drop_dns_listener c =
     (if cl_dns_proxy_listener c then (cl_emit CL_dns_listener_deinit c)\<lparr>cl_dns_proxy_listener := False\<rparr> else c)"

definition run_disconnect :: "VpnClient \<Rightarrow> ClData \<Rightarrow> VpnClient" where
  "run_disconnect c d =
     (let c1 = (if cl_dns_proxy_listener c then on_tunnel CL_tunnel_reset_listener c else c);
          c2 = note_client_error d (on_tunnel CL_tunnel_before_disconnect c1);
          c3 = close_upstream (drop_connector (c2\<lparr>deferred_tasks := []\<rparr>))
      in drop_dns_listener (on_tunnel CL_tunnel_after_disconnect c3))"

definition submit_disconnect :: "VpnClient \<Rightarrow> ClData \<Rightarrow> VpnClient" where
  "submit_disconnect c d =
     (let c1 = note_client_error d c in c1\<lparr>deferred_tasks := deferred_tasks c1 @ [CT_disconnect]\<rparr>)"

section \<open>The machine\<close>

definition CL_TABLE :: "ClAnswers \<Rightarrow> (VpnClient, ClData) FsmTransitionTable" where
  "CL_TABLE a =
   [entry (cls S_DISCONNECTED) (cle E_RUN_CONNECT) None (Some (run_connect a)) (cls S_CONNECTING) None,
    entry (cls S_DISCONNECTED) (cle E_SESSION_CLOSED) None None (cls S_DISCONNECTED) (Some raise_disconnected),
    entry (cls S_DISCONNECTED) (cle E_DISCONNECT) None None (cls S_DISCONNECTED) None,

    entry (cls S_CONNECTING) (cle E_SESSION_OPENED) None None (cls S_CONNECTED) (Some raise_connected),
    entry (cls S_CONNECTING) (cle E_SESSION_CLOSED) None None (cls S_DISCONNECTED) (Some raise_disconnected),

    entry (cls S_CONNECTED) (cle E_SESSION_CLOSED) None None (cls S_DISCONNECTED) (Some raise_disconnected),
    entry (cls S_CONNECTED) (cle E_SESSION_ERROR) None (Some submit_disconnect) (cls S_DISCONNECTING) None,
    entry (cls S_CONNECTED) (cle E_RUN_PREPARATION_FAIL) None (Some submit_disconnect) (cls S_DISCONNECTING) None,
    entry (cls S_CONNECTED) (cle E_HEALTH_CHECK_ERROR) None (Some submit_disconnect) (cls S_DISCONNECTING) None,

    entry (cls S_DISCONNECTING) (cle E_SESSION_CLOSED) None None (cls S_DISCONNECTED) (Some raise_disconnected),
    entry (cls S_DISCONNECTING) (cle E_DEFERRED_DISCONNECT) None (Some run_disconnect) (cls S_DISCONNECTED)
      (Some raise_disconnected),

    entry ANY_SOURCE_STATE (cle E_DISCONNECT) None (Some run_disconnect) (cls S_DISCONNECTED) None]"

definition cl_perform :: "ClAnswers \<Rightarrow> SessionEvent \<Rightarrow> ClData \<Rightarrow> VpnClient \<Rightarrow> VpnClient" where
  "cl_perform a ev d c = perform_transition cl_fsm cl_fsm_update (CL_TABLE a) (cle ev) d c"

definition cl_get_state :: "VpnClient \<Rightarrow> FsmState" where
  "cl_get_state c = get_state cl_fsm c"

section \<open>Operations\<close>

definition start_dns_proxy_listener :: "ClAnswers \<Rightarrow> VpnClient \<Rightarrow> VpnError \<times> VpnClient" where
  "start_dns_proxy_listener a c =
     (if \<not> an_rand_ok a then (mk_error VPN_EC_ERROR ''Failed to generate DNS proxy listener password'', c)
      else
        let c1 = (cl_emit CL_dns_listener_init c)\<lparr>cl_dns_proxy_listener := True\<rparr>
        in if an_dns_listener a \<noteq> INIT_SUCCESS
           then (mk_error VPN_EC_INVALID_SETTINGS ''Failed to initialize DNS proxy listener'', c1)
           else
             let c2 = on_tunnel CL_tunnel_update_dns c1
             in if \<not> an_dns_params_ok a then (mk_error VPN_EC_ERROR ''Failed to initialize the DNS handler'', c2)
                else (no_error, c2))"

definition do_dns_upstream_health_check :: "ClAnswers \<Rightarrow> VpnClient \<Rightarrow> bool \<times> VpnClient" where
  "do_dns_upstream_health_check a c =
     (an_dns_check_ok a, (on_tunnel CL_tunnel_resolve_check c)\<lparr>dns_health_check_id := an_dns_check_ok a\<rparr>)"

text \<open>The task of the connector's result; the task itself has been taken out of \<open>deferred_tasks\<close>.\<close>

definition finish_listening :: "ClAnswers \<Rightarrow> VpnClient \<Rightarrow> VpnClient" where
  "finish_listening a c =
     (let c1 = on_tunnel CL_tunnel_exclusions_updated c
      in if cl_dns_proxy_listener c1
         then (let (ok, c2) = do_dns_upstream_health_check a c1
               in if ok then c2 else cl_emit (CL_raise CL_EVENT_DNS_UPSTREAM_UNAVAILABLE) c2)
         else c1)"

definition endpoint_connector_finalizer :: "ClAnswers \<Rightarrow> VpnClient \<Rightarrow> VpnClient" where
  "endpoint_connector_finalizer a c =
     (let c1 = c\<lparr>cl_connector := None\<rparr>
      in if cl_pending_error c1 \<noteq> None then cl_perform a E_SESSION_CLOSED ClNone c1
         else
           let c2 = cl_perform a E_SESSION_OPENED ClNone (on_tunnel (CL_tunnel_event SERVER_EVENT_SESSION_OPENED) c1)
           in if cl_client_listener c2 then finish_listening a c2 else c2)"

definition endpoint_connector_handler :: "ClAnswers \<Rightarrow> EndpointConnectorResult \<Rightarrow> VpnClient \<Rightarrow> VpnClient" where
  "endpoint_connector_handler a r c =
     (let c1 = c\<lparr>cl_pending_error := None\<rparr>;
          c2 = (case r of
                  ConnectFailed e \<Rightarrow> c1\<lparr>cl_pending_error := Some e\<rparr>
                | ConnectedUpstream \<Rightarrow>
                    let c1 = c1\<lparr>cl_upstream := Some True\<rparr>
                    in if cl_has_dns_upstreams c1 \<and> \<not> cl_dns_proxy_listener c1
                       then (let (e, c') = start_dns_proxy_listener a c1
                             in if code e \<noteq> VPN_EC_NOERROR then c'\<lparr>cl_pending_error := Some e\<rparr> else c')
                       else c1)
      in c2\<lparr>deferred_tasks := deferred_tasks c2 @ [CT_finalizer]\<rparr>)"

definition is_session_end :: "unit ServerEvent \<Rightarrow> bool" where
  "is_session_end what =
     (case what of SERVER_EVENT_SESSION_CLOSED \<Rightarrow> True | SERVER_EVENT_ERROR e \<Rightarrow> se_id e = NON_ID | _ \<Rightarrow> False)"

text \<open>
  The handler of the endpoint upstream; \<open>None\<close> is one of its two assertions. A closed session is
  noted in \<open>cl_upstream\<close>.
\<close>

definition vpn_upstream_handler :: "ClAnswers \<Rightarrow> unit ServerEvent \<Rightarrow> VpnClient \<Rightarrow> VpnClient option" where
  "vpn_upstream_handler a what c =
     (if cl_connector c \<noteq> None \<or> what = SERVER_EVENT_SESSION_OPENED then None
      else
        let c1 = (if is_session_end what then on_tunnel CL_tunnel_before_disconnect c else c);
            c2 = on_tunnel (CL_tunnel_event what) c1;
            c3 = (case what of
                    SERVER_EVENT_SESSION_CLOSED \<Rightarrow> cl_perform a E_SESSION_CLOSED ClNone (c2\<lparr>cl_upstream := Some False\<rparr>)
                  | SERVER_EVENT_HEALTH_CHECK_ERROR e \<Rightarrow> cl_perform a E_HEALTH_CHECK_ERROR (ClError e) c2
                  | SERVER_EVENT_ERROR e \<Rightarrow>
                      if se_id e \<noteq> NON_ID then c2 else cl_perform a E_SESSION_ERROR (ClError (se_error e)) c2
                  | _ \<Rightarrow> c2)
        in Some (if is_session_end what then on_tunnel CL_tunnel_after_disconnect c3 else c3))"

definition direct_upstream_handler :: "unit ServerEvent \<Rightarrow> VpnClient \<Rightarrow> VpnClient" where
  "direct_upstream_handler what c =
     on_tunnel (CL_bypass_event what)
       (case what of
          SERVER_EVENT_SESSION_OPENED \<Rightarrow> c\<lparr>bypass_upstream_session_opened := True\<rparr>
        | SERVER_EVENT_SESSION_CLOSED \<Rightarrow> c\<lparr>bypass_upstream_session_opened := False\<rparr>
        | _ \<Rightarrow> c)"

definition dns_resolver_handler :: "bool \<Rightarrow> VpnClient \<Rightarrow> VpnClient" where
  "dns_resolver_handler success c =
     (let c1 = c\<lparr>dns_health_check_id := False\<rparr>
      in if success then c1
         else if cl_get_state c1 \<noteq> cls S_CONNECTED then c1
         else if in_disconnect c1 then c1
         else cl_emit (CL_raise CL_EVENT_DNS_UPSTREAM_UNAVAILABLE) c1)"

definition client_connect :: "ClAnswers \<Rightarrow> millis option \<Rightarrow> VpnClient \<Rightarrow> VpnError \<times> VpnClient" where
  "client_connect a timeout c =
     (let c1 = cl_perform a E_RUN_CONNECT (ClTimeout timeout) c
      in (case cl_pending_error c1 of Some e \<Rightarrow> e | None \<Rightarrow> no_error, c1\<lparr>cl_pending_error := None\<rparr>))"

definition submit_health_check :: "VpnClient \<Rightarrow> VpnClient" where
  "submit_health_check c = c\<lparr>deferred_tasks := deferred_tasks c @ [CT_health_check]\<rparr>"

definition run_health_check :: "VpnClient \<Rightarrow> VpnClient" where
  "run_health_check c = (if cl_get_state c \<noteq> cls S_CONNECTED then c else on_upstream CL_upstream_health_check c)"

definition run_client_task :: "ClAnswers \<Rightarrow> ClientTask \<Rightarrow> VpnClient \<Rightarrow> VpnClient" where
  "run_client_task a t c =
     (let c1 = c\<lparr>deferred_tasks := remove1 t (deferred_tasks c)\<rparr>
      in case t of
           CT_finalizer \<Rightarrow> endpoint_connector_finalizer a c1
         | CT_health_check \<Rightarrow> run_health_check c1
         | CT_disconnect \<Rightarrow> cl_perform a E_DEFERRED_DISCONNECT ClNone c1)"

text \<open>\<open>make_upstream\<close> gives a null pointer for the automatic protocol.\<close>

definition make_upstream :: "VpnUpstreamProtocol \<Rightarrow> bool" where
  "make_upstream p = (p \<noteq> VPN_UP_AUTO)"

definition cl_disconnect :: "VpnClient \<Rightarrow> ClAnswers \<Rightarrow> VpnClient" where
  "cl_disconnect c a =
     (cl_perform a E_DISCONNECT ClNone ((cl_emit CL_disconnect c)\<lparr>in_disconnect := True\<rparr>))\<lparr>in_disconnect := False\<rparr>"

definition failed_connect_error :: "VpnError \<Rightarrow> VpnError" where
  "failed_connect_error e =
     \<lparr>code = (if code e = 0 then VPN_EC_ERROR else code e),
      err_text = (case err_text e of None \<Rightarrow> Some ''Internal error'' | Some t \<Rightarrow> Some t)\<rparr>"

text \<open>\<open>fallback\<close> is the protocol of the fallback configuration when it is enabled.\<close>

definition cl_connect ::
    "ClAnswers \<Rightarrow> VpnUpstreamProtocol \<Rightarrow> VpnUpstreamProtocol option \<Rightarrow> millis option \<Rightarrow> VpnClient \<Rightarrow> VpnError \<times> VpnClient"
  where
  "cl_connect a main fallback timeout c =
     (if cl_get_state c \<noteq> cls S_DISCONNECTED then (mk_error VPN_EC_ERROR ''Invalid state'', c)
      else
        let c1 = (if make_upstream main \<and> (case fallback of None \<Rightarrow> True | Some p \<Rightarrow> make_upstream p) then c
                  else cl_emit CL_null c);
            (e, c2) = client_connect a timeout (c1\<lparr>cl_connector := Some False\<rparr>)
        in if code e \<noteq> VPN_EC_NOERROR then (failed_connect_error e, cl_disconnect c2 a)
           else
             let c3 = on_bypass CL_bypass_open_session c2
             in if \<not> an_bypass_open a
                then (failed_connect_error (e\<lparr>err_text := Some ''Failed to start upstream for direct connections''\<rparr>),
                      cl_disconnect c3 a)
                else (e, c3))"

text \<open>The part of \<open>listen\<close> after the listener is initialised: an error text, or that all went well.\<close>

definition listen_connected :: "ClAnswers \<Rightarrow> VpnClient \<Rightarrow> VpnError option \<times> bool \<times> VpnClient" where
  "listen_connected a c =
     (if cl_get_state c = cls S_CONNECTED then
        let c1 = on_tunnel CL_tunnel_exclusions_updated c
        in if cl_has_dns_upstreams c1 \<and> \<not> cl_dns_proxy_listener c1 then
             let (e, c2) = start_dns_proxy_listener a c1
             in if code e \<noteq> VPN_EC_NOERROR then (Some e, True, c2)
                else
                  let (ok, c3) = do_dns_upstream_health_check a c2
                  in if \<not> ok then (Some (e\<lparr>err_text := Some ''Failed to start DNS upstream health check''\<rparr>), True, c3)
                     else (None, False, c3)
           else (None, True, c1)
      else (None, True, c))"

definition cl_listen :: "ClAnswers \<Rightarrow> bool \<Rightarrow> VpnClient \<Rightarrow> VpnError \<times> VpnClient" where
  "cl_listen a has_dns c =
     (let c1 = cl_emit CL_listener_init (c\<lparr>cl_client_listener := True, cl_has_dns_upstreams := has_dns\<rparr>);
          fail = (\<lambda>e c. (e, cl_perform a E_RUN_PREPARATION_FAIL ClNone c))
      in case an_listener a of
           INIT_ADDR_IN_USE \<Rightarrow> fail (mk_error VPN_EC_ADDR_IN_USE ''Failed to initialize client listener: address in use'') c1
         | INIT_FAILURE \<Rightarrow> fail (mk_error VPN_EC_ERROR ''Failed to initialize client listener'') c1
         | INIT_SUCCESS \<Rightarrow>
             (case listen_connected a (if cl_tmp_files c1 then cl_emit CL_clean_up_files c1 else c1) of
                (Some e, _, c2) \<Rightarrow> fail e c2
              | (None, False, c2) \<Rightarrow> (no_error, c2)
              | (None, True, c2) \<Rightarrow>
                  let c3 = on_tunnel CL_tunnel_update_dns c2
                  in if \<not> an_dns_params_ok a then fail (mk_error VPN_EC_ERROR ''Failed to initialize the DNS handler'') c3
                     else (no_error, c3)))"

definition finalize_disconnect :: "VpnClient \<Rightarrow> VpnClient" where
  "finalize_disconnect c =
     (let c1 = drop_dns_listener c;
          c2 = (if cl_upstream c1 \<noteq> None then (cl_emit CL_upstream_deinit c1)\<lparr>cl_upstream := None\<rparr> else c1);
          c3 = (if cl_bypass_upstream c2
                then (cl_emit CL_bypass_close_session c2)\<lparr>bypass_upstream_session_opened := False\<rparr> else c2);
          c4 = (if cl_client_listener c3 then (cl_emit CL_listener_deinit c3)\<lparr>cl_client_listener := False\<rparr> else c3);
          c5 = (if cl_tunnel c4 then (cl_emit CL_tunnel_deinit c4)\<lparr>cl_tunnel := False\<rparr> else c4);
          c6 = (if cl_tmp_files c5 then cl_emit CL_clean_up_files c5 else c5)
      in c6\<lparr>cl_connector := None, deferred_tasks := [], cl_fsm := fsm_reset (cls S_DISCONNECTED) (cl_fsm c6)\<rparr>)"

definition cl_deinit :: "VpnClient \<Rightarrow> VpnClient" where
  "cl_deinit c =
     (if cl_bypass_upstream c then (cl_emit CL_bypass_deinit c)\<lparr>cl_bypass_upstream := False\<rparr> else c)"

definition process_client_packets :: "VpnClient \<Rightarrow> VpnClient" where
  "process_client_packets c = (if \<not> cl_client_listener c then c else cl_emit CL_listener_packets c)"

definition cl_update_exclusions :: "VpnClient \<Rightarrow> VpnClient" where
  "cl_update_exclusions c =
     (if cl_get_state c = cls S_CONNECTED then on_tunnel CL_tunnel_exclusions_updated c else c)"

definition cl_reset_connections :: "int \<Rightarrow> VpnClient \<Rightarrow> VpnClient" where
  "cl_reset_connections uid c =
     (if cl_get_state c = cls S_CONNECTED then on_tunnel (CL_tunnel_reset_connections uid) c else c)"

text \<open>\<open>None\<close> is the failed assertion.\<close>

definition cl_get_connection_stats :: "VpnClient \<Rightarrow> VpnClient option" where
  "cl_get_connection_stats c =
     (if cl_get_state c = cls S_CONNECTED then Some (on_upstream CL_upstream_stats c) else None)"

definition drop_non_app_initiated_dns_queries :: "VpnClient \<Rightarrow> bool" where
  "drop_non_app_initiated_dns_queries c \<longleftrightarrow> cl_kill_switch_on c \<and> cl_get_state c \<noteq> cls S_CONNECTED"

definition cl_on_network_change :: "VpnClient \<Rightarrow> VpnClient" where
  "cl_on_network_change c = (if cl_tunnel c then cl_emit CL_tunnel_network_change c else c)"

definition may_send_icmp_request :: "VpnClient \<Rightarrow> bool" where
  "may_send_icmp_request c \<longleftrightarrow> cl_get_state c = cls S_CONNECTED"

definition handle_power_event :: "ClCall \<Rightarrow> ClCall \<Rightarrow> ClCall \<Rightarrow> VpnClient \<Rightarrow> VpnClient" where
  "handle_power_event to_connector to_upstream to_tunnel c =
     (if cl_get_state c = cls S_CONNECTING \<and> cl_upstream c = None
      then (if cl_connector c \<noteq> None then cl_emit to_connector c else c)
      else if cl_get_state c = cls S_CONNECTING \<or> cl_get_state c = cls S_CONNECTED
      then on_tunnel to_tunnel (on_upstream to_upstream c)
      else c)"

definition cl_handle_sleep :: "VpnClient \<Rightarrow> VpnClient" where
  "cl_handle_sleep c = handle_power_event CL_connector_sleep CL_upstream_sleep CL_tunnel_sleep c"

definition cl_handle_wake :: "VpnClient \<Rightarrow> VpnClient" where
  "cl_handle_wake c = handle_power_event CL_connector_wake CL_upstream_wake CL_tunnel_wake c"

section \<open>Effect of an event\<close>

lemma cl_fsm_update_keep: "f (cl_fsm c) = cl_fsm c \<Longrightarrow> cl_fsm_update f c = c"
  by (cases c) simp

interpretation cf: fsm_host cl_fsm cl_fsm_update
  by unfold_locales (simp_all add: comp_def cl_fsm_update_keep)

definition cl_enter :: "ClState \<Rightarrow> VpnClient \<Rightarrow> VpnClient" where
  "cl_enter s c = c\<lparr>cl_fsm := \<lparr>m_current_state = cls s, m_recursive = False\<rparr>\<rparr>"

lemma cl_table_valid: "Fsm_new (cls S_DISCONNECTED) (CL_TABLE a) \<noteq> None"
  by (simp add: Fsm_new_def validate_transition_table_def CL_TABLE_def entry_def ANY_SOURCE_STATE_def SAME_TARGET_STATE_def)

text \<open>The machine as a case distinction: the effect of every event in every state.\<close>

fun cl_effect :: "ClAnswers \<Rightarrow> ClState \<Rightarrow> SessionEvent \<Rightarrow> ClData \<Rightarrow> VpnClient \<Rightarrow> VpnClient" where
  "cl_effect a S_DISCONNECTED E_RUN_CONNECT d c = cl_enter S_CONNECTING (run_connect a c d)"
| "cl_effect a S_CONNECTING E_SESSION_OPENED d c = raise_connected (cl_enter S_CONNECTED c) d"
| "cl_effect a S_CONNECTED E_SESSION_ERROR d c = cl_enter S_DISCONNECTING (submit_disconnect c d)"
| "cl_effect a S_CONNECTED E_RUN_PREPARATION_FAIL d c = cl_enter S_DISCONNECTING (submit_disconnect c d)"
| "cl_effect a S_CONNECTED E_HEALTH_CHECK_ERROR d c = cl_enter S_DISCONNECTING (submit_disconnect c d)"
| "cl_effect a S_DISCONNECTING E_DEFERRED_DISCONNECT d c =
     raise_disconnected (cl_enter S_DISCONNECTED (run_disconnect c d)) d"
| "cl_effect a s E_SESSION_CLOSED d c = raise_disconnected (cl_enter S_DISCONNECTED c) d"
| "cl_effect a S_DISCONNECTED E_DISCONNECT d c = c"
| "cl_effect a s E_DISCONNECT d c = cl_enter S_DISCONNECTED (run_disconnect c d)"
| "cl_effect a s ev d c = c"

lemma cl_frame_basic:
  "cl_emit x (cl_fsm_update f c) = cl_fsm_update f (cl_emit x c)"
  "on_tunnel x (cl_fsm_update f c) = cl_fsm_update f (on_tunnel x c)"
  "note_client_error d (cl_fsm_update f c) = cl_fsm_update f (note_client_error d c)"
  "drop_connector (cl_fsm_update f c) = cl_fsm_update f (drop_connector c)"
  "close_upstream (cl_fsm_update f c) = cl_fsm_update f (close_upstream c)"
  "drop_dns_listener (cl_fsm_update f c) = cl_fsm_update f (drop_dns_listener c)"
  by (simp_all add: cl_emit_def on_tunnel_def note_client_error_def drop_connector_def close_upstream_def
      drop_dns_listener_def split: ClData.splits)

text \<open>The actions leave the machine alone and do not look at it.\<close>

lemma deferred_tasks_frame:
  "deferred_tasks_update g (cl_fsm_update f c) = cl_fsm_update f (deferred_tasks_update g c)"
  by simp

lemma cl_frame_actions:
  "run_connect a (cl_fsm_update f c) d = cl_fsm_update f (run_connect a c d)"
  "raise_connected (cl_fsm_update f c) d = cl_fsm_update f (raise_connected c d)"
  "raise_disconnected (cl_fsm_update f c) d = cl_fsm_update f (raise_disconnected c d)"
  "run_disconnect (cl_fsm_update f c) d = cl_fsm_update f (run_disconnect c d)"
  "submit_disconnect (cl_fsm_update f c) d = cl_fsm_update f (submit_disconnect c d)"
proof -
  show "run_disconnect (cl_fsm_update f c) d = cl_fsm_update f (run_disconnect c d)"
  proof (cases "cl_dns_proxy_listener c")
    case True
    then show ?thesis by (simp add: run_disconnect_def Let_def cl_frame_basic deferred_tasks_frame
        del: VpnClient.update_convs)
  next
    case False
    then show ?thesis by (simp add: run_disconnect_def Let_def cl_frame_basic deferred_tasks_frame
        del: VpnClient.update_convs)
  qed
qed (simp_all add: run_connect_def raise_connected_def raise_disconnected_def submit_disconnect_def Let_def
      cl_frame_basic cl_emit_def note_client_error_def split: option.splits ClData.splits)

lemma cl_fsm_actions [simp]:
  "cl_fsm (run_connect a c d) = cl_fsm c" "cl_fsm (raise_connected c d) = cl_fsm c"
  "cl_fsm (raise_disconnected c d) = cl_fsm c" "cl_fsm (run_disconnect c d) = cl_fsm c"
  "cl_fsm (submit_disconnect c d) = cl_fsm c"
  by (simp_all add: run_connect_def raise_connected_def raise_disconnected_def run_disconnect_def submit_disconnect_def
      Let_def cl_emit_def on_tunnel_def note_client_error_def drop_connector_def close_upstream_def
      drop_dns_listener_def split: option.splits ClData.splits)

abbreviation cl_state :: "VpnClient \<Rightarrow> FsmState" where
  "cl_state c \<equiv> m_current_state (cl_fsm c)"

lemma cl_perform_effect:
  assumes "\<not> m_recursive (cl_fsm c)" "cl_state c = cls s"
  shows "cl_perform a ev d c = cl_effect a s ev d c"
proof -
  have f: "cl_fsm c = \<lparr>m_current_state = cls s, m_recursive = False\<rparr>" using assms by (cases "cl_fsm c") simp
  have keep: "cl_fsm_update g c = c" if "g (cl_fsm c) = cl_fsm c" for g using that by (rule cl_fsm_update_keep)
  show ?thesis
    by (cases s; cases ev)
      (simp_all add: cl_perform_def perform_transition_def CL_TABLE_def entry_def entry_matches_def fire_def
        run_action_def cl_enter_def cl_frame_actions f keep comp_def ANY_SOURCE_STATE_def SAME_TARGET_STATE_def
        cong: option.case_cong)
qed

section \<open>Invariant\<close>

text \<open>What the owner of the client knows: whether a session is up, from the events and its own calls.\<close>

fun owner_note :: "bool \<Rightarrow> ClCall \<Rightarrow> bool" where
  "owner_note up (CL_raise CL_EVENT_CONNECTED) = True"
| "owner_note up (CL_raise CL_EVENT_DISCONNECTED) = False"
| "owner_note up (CL_raise (CL_EVENT_ERROR e)) = False"
| "owner_note up CL_disconnect = False"
| "owner_note up x = up"

definition owner_up :: "ClCall list \<Rightarrow> bool" where
  "owner_up xs = foldl owner_note False xs"

lemma owner_up_simps [simp]: "\<not> owner_up []" "owner_up (xs @ ys) = foldl owner_note (owner_up xs) ys"
  by (simp_all add: owner_up_def)

definition session_up :: "ClState \<Rightarrow> bool" where
  "session_up s \<longleftrightarrow> s = S_CONNECTED \<or> s = S_DISCONNECTING"

text \<open>
  In state \<open>s\<close>, between two transitions. A connector exists exactly while connecting; once it has
  stopped its result is known and the finalizer is queued; while disconnecting the deferred disconnect
  is queued.
\<close>

definition cl_ok :: "ClState \<Rightarrow> VpnClient \<Rightarrow> bool" where
  "cl_ok s c \<longleftrightarrow>
     cl_fsm c = \<lparr>m_current_state = cls s, m_recursive = False\<rparr> \<and> cl_tunnel c \<and> cl_bypass_upstream c \<and>
     CL_null \<notin> set (cl_calls c) \<and> owner_up (cl_calls c) = session_up s \<and>
     (session_up s \<longrightarrow> cl_upstream c \<noteq> None) \<and>
     (cl_connector c \<noteq> None \<longleftrightarrow> s = S_CONNECTING) \<and>
     (cl_connector c = Some False \<longleftrightarrow> CT_finalizer \<in> set (deferred_tasks c)) \<and>
     (cl_connector c = Some False \<longrightarrow> cl_pending_error c = None \<longrightarrow> cl_upstream c \<noteq> None) \<and>
     CT_finalizer \<notin> set (remove1 CT_finalizer (deferred_tasks c)) \<and>
     (s = S_DISCONNECTING \<longrightarrow> CT_disconnect \<in> set (deferred_tasks c)) \<and>
     (s = S_CONNECTED \<longrightarrow> cl_pending_error c = None)"

definition cl_inv :: "VpnClient \<Rightarrow> bool" where
  "cl_inv c \<longleftrightarrow> (\<exists>s. cl_ok s c)"

lemma cls_eq_iff [simp]: "cls s = cls s' \<longleftrightarrow> s = s'"
  by (cases s; cases s') simp_all

lemma cls_num_iff [simp]:
  "cls s = 0 \<longleftrightarrow> s = S_DISCONNECTED" "cls s = 1 \<longleftrightarrow> s = S_CONNECTING"
  "cls s = 2 \<longleftrightarrow> s = S_CONNECTED" "cls s = 3 \<longleftrightarrow> s = S_DISCONNECTING"
  by (cases s; simp)+

lemma cl_ok_state: "cl_ok s c \<Longrightarrow> cl_get_state c = cls s"
  by (simp add: cl_ok_def cl_get_state_def get_state_def)

lemma cl_ok_perform: "cl_ok s c \<Longrightarrow> cl_perform a ev d c = cl_effect a s ev d c"
  by (rule cl_perform_effect) (simp_all add: cl_ok_def)

definition neutral :: "ClCall \<Rightarrow> bool" where
  "neutral x \<longleftrightarrow> CL_null \<noteq> x \<and> (\<forall>up. owner_note up x = up)"

lemma cl_ok_emit: "cl_ok s c \<Longrightarrow> neutral x \<Longrightarrow> cl_ok s (cl_emit x c)"
  by (simp add: cl_ok_def cl_emit_def neutral_def)

lemma cl_ok_on_tunnel: "cl_ok s c \<Longrightarrow> neutral x \<Longrightarrow> cl_ok s (on_tunnel x c)"
  unfolding on_tunnel_def by (simp add: cl_ok_def cl_emit_def neutral_def)

lemma cl_ok_on_bypass: "cl_ok s c \<Longrightarrow> neutral x \<Longrightarrow> cl_ok s (on_bypass x c)"
  unfolding on_bypass_def by (simp add: cl_ok_def cl_emit_def neutral_def)

lemma cl_ok_on_upstream: "cl_ok s c \<Longrightarrow> cl_upstream c \<noteq> None \<Longrightarrow> neutral x \<Longrightarrow> cl_ok s (on_upstream x c)"
  unfolding on_upstream_def by (simp add: cl_ok_def cl_emit_def neutral_def)

lemma cl_ok_other_fields [simp]:
  "cl_ok s (cl_dns_proxy_listener_update f1 c) = cl_ok s c"
  "cl_ok s (cl_client_listener_update f1 c) = cl_ok s c"
  "cl_ok s (cl_has_dns_upstreams_update f1 c) = cl_ok s c"
  "cl_ok s (dns_health_check_id_update f1 c) = cl_ok s c"
  "cl_ok s (in_disconnect_update f1 c) = cl_ok s c"
  "cl_ok s (bypass_upstream_session_opened_update f1 c) = cl_ok s c"
  by (simp_all add: cl_ok_def)

lemmas cl_ok_intros = cl_ok_emit cl_ok_on_tunnel cl_ok_on_bypass cl_ok_on_upstream

lemma cl_ok_start_dns:
  assumes "cl_ok s c"
  shows "cl_ok s (snd (start_dns_proxy_listener a c))"
  using assms unfolding start_dns_proxy_listener_def by (auto simp: Let_def neutral_def intro!: cl_ok_intros)

lemma cl_ok_dns_check: "cl_ok s c \<Longrightarrow> cl_ok s (snd (do_dns_upstream_health_check a c))"
  unfolding do_dns_upstream_health_check_def by (auto simp: neutral_def intro!: cl_ok_intros)

text \<open>What \<open>run_disconnect\<close> leaves behind.\<close>

lemma run_disconnect_fields:
  assumes "cl_tunnel c" "CL_null \<notin> set (cl_calls c)"
  shows "CL_null \<notin> set (cl_calls (run_disconnect c d))"
    "owner_up (cl_calls (run_disconnect c d)) = owner_up (cl_calls c)"
    "cl_connector (run_disconnect c d) = None" "deferred_tasks (run_disconnect c d) = []"
    "cl_upstream (run_disconnect c d) = (if cl_upstream c = None then None else Some False)"
    "\<not> cl_dns_proxy_listener (run_disconnect c d)"
    "cl_tunnel (run_disconnect c d)" "cl_bypass_upstream (run_disconnect c d) = cl_bypass_upstream c"
  using assms
  by (simp_all add: run_disconnect_def Let_def drop_dns_listener_def on_tunnel_def close_upstream_def drop_connector_def
      note_client_error_def cl_emit_def split: ClData.splits)

lemma cl_ok_run_disconnect:
  assumes "cl_tunnel c" "cl_bypass_upstream c" "CL_null \<notin> set (cl_calls c)" "\<not> owner_up (cl_calls c)"
  shows "cl_ok S_DISCONNECTED (cl_enter S_DISCONNECTED (run_disconnect c d))"
  using run_disconnect_fields [OF assms(1,3), of d] assms
  by (auto simp: cl_ok_def cl_enter_def session_up_def)

lemma cl_ok_raise_disconnected:
  assumes "cl_tunnel c" "cl_bypass_upstream c" "CL_null \<notin> set (cl_calls c)" "cl_connector c = None"
    "CT_finalizer \<notin> set (deferred_tasks c)"
  shows "cl_ok S_DISCONNECTED (raise_disconnected (cl_enter S_DISCONNECTED c) d)"
  using assms
  by (auto simp: cl_ok_def cl_enter_def raise_disconnected_def cl_emit_def session_up_def remove1_idem
      split: option.splits)

section \<open>Steps\<close>

text \<open>
  What happens to a client until it is finalised: calls of the owner, the one result of a running
  connector, queued tasks, events of an open upstream, of the direct upstream and of the DNS resolver.
\<close>

inductive cl_step :: "VpnClient \<Rightarrow> VpnClient \<Rightarrow> bool" where
  connect: "make_upstream main \<Longrightarrow> (\<forall>p \<in> set_option fallback. make_upstream p) \<Longrightarrow>
    cl_step c (snd (cl_connect a main fallback timeout c))"
| listen: "cl_step c (snd (cl_listen a has_dns c))"
| disconnect: "cl_step c (cl_disconnect c a)"
| health_check: "cl_step c (submit_health_check c)"
| result: "cl_connector c = Some True \<Longrightarrow> cl_step c (endpoint_connector_handler a r (c\<lparr>cl_connector := Some False\<rparr>))"
| task: "t \<in> set (deferred_tasks c) \<Longrightarrow> cl_step c (run_client_task a t c)"
| upstream: "cl_upstream c = Some True \<Longrightarrow> vpn_upstream_handler a what c = Some c' \<Longrightarrow> cl_step c c'"
| direct: "cl_step c (direct_upstream_handler what c)"
| resolver: "dns_health_check_id c \<Longrightarrow> cl_step c (dns_resolver_handler success c)"
| packets: "cl_step c (process_client_packets c)"
| exclusions: "cl_step c (cl_update_exclusions c)"
| reset: "cl_step c (cl_reset_connections uid c)"
| stats: "cl_get_connection_stats c = Some c' \<Longrightarrow> cl_step c c'"
| network: "cl_step c (cl_on_network_change c)"
| sleep: "cl_step c (cl_handle_sleep c)"
| wake: "cl_step c (cl_handle_wake c)"

lemma cl_ok_disconnect:
  assumes "cl_fsm c = \<lparr>m_current_state = cls s, m_recursive = False\<rparr>" "cl_tunnel c" "cl_bypass_upstream c"
    "CL_null \<notin> set (cl_calls c)" "s = S_DISCONNECTED \<Longrightarrow> cl_ok S_DISCONNECTED c"
  shows "cl_ok S_DISCONNECTED (cl_disconnect c a)"
proof -
  let ?c = "(cl_emit CL_disconnect c)\<lparr>in_disconnect := True\<rparr>"
  have p: "cl_perform a E_DISCONNECT ClNone ?c = cl_effect a s E_DISCONNECT ClNone ?c"
    by (rule cl_perform_effect) (simp_all add: cl_emit_def assms)
  have run: "cl_ok S_DISCONNECTED (cl_enter S_DISCONNECTED (run_disconnect ?c ClNone))"
    by (rule cl_ok_run_disconnect) (simp_all add: cl_emit_def assms)
  have same: "cl_ok S_DISCONNECTED ?c" if "s = S_DISCONNECTED"
    using assms(5) [OF that] by (auto simp: cl_ok_def cl_emit_def session_up_def)
  show ?thesis unfolding cl_disconnect_def p using run same by (cases s) simp_all
qed

lemma cl_ok_disconnect_any: "cl_ok s c \<Longrightarrow> cl_ok S_DISCONNECTED (cl_disconnect c a)"
  by (rule cl_ok_disconnect [of c s]) (auto simp: cl_ok_def)

lemma client_connect_fields:
  assumes "cl_ok S_DISCONNECTED c" "client_connect a timeout (c\<lparr>cl_connector := Some False\<rparr>) = (e, c')"
  shows "cl_fsm c' = \<lparr>m_current_state = cls S_CONNECTING, m_recursive = False\<rparr>" "cl_tunnel c'" "cl_bypass_upstream c'"
    "CL_null \<notin> set (cl_calls c')" "code e = VPN_EC_NOERROR \<Longrightarrow> cl_ok S_CONNECTING c'"
    "cl_calls c' = cl_calls c @ [CL_connector_connect timeout]" "cl_upstream c' = cl_upstream c"
    "cl_connector c' = Some (code (an_connect a) = VPN_EC_NOERROR)"
    "e = (if code (an_connect a) \<noteq> VPN_EC_NOERROR then an_connect a else (case cl_pending_error c of None \<Rightarrow> no_error | Some e' \<Rightarrow> e'))"
proof -
  have "cl_perform a E_RUN_CONNECT (ClTimeout timeout) (c\<lparr>cl_connector := Some False\<rparr>) =
    cl_effect a S_DISCONNECTED E_RUN_CONNECT (ClTimeout timeout) (c\<lparr>cl_connector := Some False\<rparr>)"
    using assms(1) by (intro cl_perform_effect) (simp_all add: cl_ok_def)
  then show "cl_fsm c' = \<lparr>m_current_state = cls S_CONNECTING, m_recursive = False\<rparr>" "cl_tunnel c'" "cl_bypass_upstream c'"
    "CL_null \<notin> set (cl_calls c')" "code e = VPN_EC_NOERROR \<Longrightarrow> cl_ok S_CONNECTING c'"
    "cl_calls c' = cl_calls c @ [CL_connector_connect timeout]" "cl_upstream c' = cl_upstream c"
    "cl_connector c' = Some (code (an_connect a) = VPN_EC_NOERROR)"
    "e = (if code (an_connect a) \<noteq> VPN_EC_NOERROR then an_connect a else (case cl_pending_error c of None \<Rightarrow> no_error | Some e' \<Rightarrow> e'))"
    using assms
    by (auto simp: client_connect_def cl_ok_def cl_enter_def run_connect_def cl_emit_def session_up_def Let_def
        split: if_splits option.splits)
qed

lemma connect_inv:
  assumes "cl_ok s c" "make_upstream main" "\<forall>p \<in> set_option fallback. make_upstream p"
  shows "cl_inv (snd (cl_connect a main fallback timeout c))"
proof (cases "s = S_DISCONNECTED")
  case False
  then have "snd (cl_connect a main fallback timeout c) = c"
    using cl_ok_state [OF assms(1)] by (simp add: cl_connect_def)
  then show ?thesis using assms(1) by (auto simp: cl_inv_def)
next
  case True
  obtain e c' where cc: "client_connect a timeout (c\<lparr>cl_connector := Some False\<rparr>) = (e, c')" by fastforce
  note f = client_connect_fields [OF assms(1) [unfolded True] cc]
  have stop: "cl_ok S_DISCONNECTED (cl_disconnect c' a)" by (rule cl_ok_disconnect [OF f(1-4)]) simp
  have stop2: "cl_ok S_DISCONNECTED (cl_disconnect (on_bypass CL_bypass_open_session c') a)"
    if "code e = VPN_EC_NOERROR"
    by (rule cl_ok_disconnect_any [of S_CONNECTING]) (simp add: cl_ok_intros f(5) that neutral_def)
  have go: "cl_ok S_CONNECTING (on_bypass CL_bypass_open_session c')" if "code e = VPN_EC_NOERROR"
    by (simp add: cl_ok_intros f(5) that neutral_def)
  show ?thesis
    using stop stop2 go cl_ok_state [OF assms(1)] True assms(2,3)
    by (auto simp: cl_connect_def cc Let_def cl_inv_def split: option.splits)
qed

text \<open>A failed preparation of the listener ends an open session, and nothing else.\<close>

definition same_or_ending :: "ClState \<Rightarrow> VpnClient \<Rightarrow> bool" where
  "same_or_ending s c \<longleftrightarrow> cl_ok s c \<or> s = S_CONNECTED \<and> cl_ok S_DISCONNECTING c"

lemma preparation_fail_ok:
  assumes "cl_ok s c"
  shows "same_or_ending s (cl_perform a E_RUN_PREPARATION_FAIL ClNone c)"
proof -
  have "cl_ok S_DISCONNECTING (cl_enter S_DISCONNECTING (submit_disconnect c ClNone))" if "s = S_CONNECTED"
    using assms that
    by (auto simp: cl_ok_def cl_enter_def submit_disconnect_def note_client_error_def session_up_def remove1_idem)
  then show ?thesis using assms unfolding cl_ok_perform [OF assms] same_or_ending_def by (cases s) auto
qed

lemma listen_connected_ok:
  assumes "cl_ok s c" "listen_connected a c = (e, u, c')"
  shows "cl_ok s c'"
proof -
  let ?c = "on_tunnel CL_tunnel_exclusions_updated c"
  have c: "cl_ok s ?c" using assms(1) by (simp add: cl_ok_intros neutral_def)
  note dns = cl_ok_start_dns [OF c, of a]
  note check = cl_ok_dns_check [OF dns, of a]
  show ?thesis using assms c dns check
    by (auto simp: listen_connected_def Let_def split: if_splits prod.splits)
qed

lemma listen_ok:
  assumes "cl_ok s c"
  shows "same_or_ending s (snd (cl_listen a has_dns c))"
proof -
  let ?c1 = "cl_emit CL_listener_init (c\<lparr>cl_client_listener := True, cl_has_dns_upstreams := has_dns\<rparr>)"
  let ?c2 = "if cl_tmp_files ?c1 then cl_emit CL_clean_up_files ?c1 else ?c1"
  have c1: "cl_ok s ?c1" using assms by (simp add: cl_ok_intros neutral_def)
  have c2: "cl_ok s ?c2" using c1 by (simp add: cl_ok_intros neutral_def)
  obtain e u c3 where l: "listen_connected a ?c2 = (e, u, c3)" by (rule prod_cases3)
  have c3: "cl_ok s c3" by (rule listen_connected_ok [OF c2 l])
  have c4: "cl_ok s (on_tunnel CL_tunnel_update_dns c3)" using c3 by (simp add: cl_ok_intros neutral_def)
  show ?thesis
    unfolding cl_listen_def Let_def l
    using preparation_fail_ok [OF c1, of a] preparation_fail_ok [OF c3, of a] preparation_fail_ok [OF c4, of a] c3 c4
    by (auto simp: same_or_ending_def split: InitResult.splits option.splits bool.splits)
qed

lemma finalizer_inv:
  assumes "cl_ok s c" "CT_finalizer \<in> set (deferred_tasks c)"
  shows "cl_inv (endpoint_connector_finalizer a (c\<lparr>deferred_tasks := remove1 CT_finalizer (deferred_tasks c)\<rparr>))"
proof -
  have s: "s = S_CONNECTING" using assms by (auto simp: cl_ok_def)
  let ?c1 = "c\<lparr>deferred_tasks := remove1 CT_finalizer (deferred_tasks c), cl_connector := None\<rparr>"
  let ?c2 = "on_tunnel (CL_tunnel_event SERVER_EVENT_SESSION_OPENED) ?c1"
  have p1: "cl_perform a E_SESSION_CLOSED ClNone ?c1 = cl_effect a S_CONNECTING E_SESSION_CLOSED ClNone ?c1"
    by (rule cl_perform_effect) (use assms(1) s in \<open>simp_all add: cl_ok_def\<close>)
  have p2: "cl_perform a E_SESSION_OPENED ClNone ?c2 = cl_effect a S_CONNECTING E_SESSION_OPENED ClNone ?c2"
    by (rule cl_perform_effect) (use assms(1) s in \<open>simp_all add: cl_ok_def on_tunnel_def cl_emit_def\<close>)
  have closed: "cl_ok S_DISCONNECTED (cl_perform a E_SESSION_CLOSED ClNone ?c1)"
    unfolding p1 cl_effect.simps by (rule cl_ok_raise_disconnected) (use assms(1) in \<open>auto simp: cl_ok_def\<close>)
  have opened: "cl_ok S_CONNECTED (cl_perform a E_SESSION_OPENED ClNone ?c2)" if "cl_pending_error c = None"
    unfolding p2 using assms that
    by (auto simp: cl_ok_def cl_enter_def raise_connected_def on_tunnel_def cl_emit_def session_up_def remove1_idem)
  have finish: "cl_ok S_CONNECTED (finish_listening a x)" if "cl_ok S_CONNECTED x" for x
    using cl_ok_dns_check [OF cl_ok_on_tunnel [OF that, of CL_tunnel_exclusions_updated], of a] that
    by (auto simp: finish_listening_def Let_def neutral_def cl_ok_intros split: prod.splits)
  show ?thesis
    using closed opened finish by (auto simp: endpoint_connector_finalizer_def Let_def cl_inv_def)
qed

lemma task_inv:
  assumes "cl_ok s c" "t \<in> set (deferred_tasks c)"
  shows "cl_inv (run_client_task a t c)"
proof (cases t)
  case CT_finalizer
  then show ?thesis using finalizer_inv assms by (simp add: run_client_task_def)
next
  case CT_health_check
  let ?c = "c\<lparr>deferred_tasks := remove1 CT_health_check (deferred_tasks c)\<rparr>"
  have c: "cl_ok s ?c" using assms(1)
    by (auto simp: cl_ok_def in_set_remove1 remove1_commute [of CT_finalizer] dest: notin_set_remove1)
  have "cl_ok s (on_upstream CL_upstream_health_check ?c)" if "s = S_CONNECTED"
    by (rule cl_ok_on_upstream [OF c]) (use assms(1) that in \<open>auto simp: cl_ok_def session_up_def neutral_def\<close>)
  then show ?thesis using c cl_ok_state [OF c] CT_health_check
    by (auto simp: run_client_task_def run_health_check_def cl_inv_def Let_def)
next
  case CT_disconnect
  let ?c = "c\<lparr>deferred_tasks := remove1 CT_disconnect (deferred_tasks c)\<rparr>"
  have p: "cl_perform a E_DEFERRED_DISCONNECT ClNone ?c = cl_effect a s E_DEFERRED_DISCONNECT ClNone ?c"
    by (rule cl_perform_effect) (use assms(1) in \<open>simp_all add: cl_ok_def\<close>)
  have c: "cl_ok s ?c" if "s \<noteq> S_DISCONNECTING" using assms(1) that
    by (auto simp: cl_ok_def in_set_remove1 remove1_commute [of CT_finalizer] dest: notin_set_remove1)
  have t: "cl_tunnel ?c" "cl_bypass_upstream ?c" "CL_null \<notin> set (cl_calls ?c)" using assms(1) by (auto simp: cl_ok_def)
  have d: "cl_ok S_DISCONNECTED (raise_disconnected (cl_enter S_DISCONNECTED (run_disconnect ?c ClNone)) ClNone)"
    using run_disconnect_fields [OF t(1,3), of ClNone] t by (intro cl_ok_raise_disconnected) simp_all
  show ?thesis
    using p c d CT_disconnect by (cases s) (auto simp: run_client_task_def cl_inv_def)
qed

lemma start_dns_fields:
  "cl_fsm (snd (start_dns_proxy_listener a c)) = cl_fsm c" "cl_tunnel (snd (start_dns_proxy_listener a c)) = cl_tunnel c"
  "cl_bypass_upstream (snd (start_dns_proxy_listener a c)) = cl_bypass_upstream c"
  "cl_connector (snd (start_dns_proxy_listener a c)) = cl_connector c"
  "cl_upstream (snd (start_dns_proxy_listener a c)) = cl_upstream c"
  "cl_pending_error (snd (start_dns_proxy_listener a c)) = cl_pending_error c"
  "deferred_tasks (snd (start_dns_proxy_listener a c)) = deferred_tasks c"
  "owner_up (cl_calls (snd (start_dns_proxy_listener a c))) = owner_up (cl_calls c)"
  "cl_tunnel c \<Longrightarrow> CL_null \<in> set (cl_calls (snd (start_dns_proxy_listener a c))) \<longleftrightarrow> CL_null \<in> set (cl_calls c)"
  by (simp_all add: start_dns_proxy_listener_def Let_def cl_emit_def on_tunnel_def)

lemma result_inv:
  assumes "cl_ok s c" "cl_connector c = Some True"
  shows "cl_ok S_CONNECTING (endpoint_connector_handler a r (c\<lparr>cl_connector := Some False\<rparr>))"
proof -
  have s: "s = S_CONNECTING" using assms by (auto simp: cl_ok_def)
  have f: "CT_finalizer \<notin> set (deferred_tasks c)" using assms by (auto simp: cl_ok_def)
  obtain e c' where
    d: "start_dns_proxy_listener a (c\<lparr>cl_connector := Some False, cl_pending_error := None, cl_upstream := Some True\<rparr>) = (e, c')"
    by fastforce
  note d' = start_dns_fields [where a = a and c = "c\<lparr>cl_connector := Some False, cl_pending_error := None, cl_upstream := Some True\<rparr>",
      unfolded d]
  show ?thesis
    using assms s f d'
    by (cases r) (auto simp: endpoint_connector_handler_def d Let_def cl_ok_def session_up_def remove1_append)
qed

lemma upstream_inv:
  assumes "cl_ok s c" "cl_upstream c = Some True" "vpn_upstream_handler a what c = Some c'"
  shows "cl_inv c'"
proof -
  have conn: "cl_connector c = None" using assms(3) by (auto simp: vpn_upstream_handler_def split: if_splits)
  define c1 where "c1 = (if is_session_end what then on_tunnel CL_tunnel_before_disconnect c else c)"
  define c2 where "c2 = on_tunnel (CL_tunnel_event what) c1"
  have "cl_ok s c1" using assms(1) by (simp add: c1_def cl_ok_intros neutral_def)
  then have "cl_ok s c2" by (simp add: c2_def cl_ok_intros neutral_def)
  moreover have "cl_connector c2 = None" using conn by (simp add: c1_def c2_def on_tunnel_def cl_emit_def)
  ultimately have c2: "cl_ok s c2" "cl_connector c2 = None" by simp_all
  have closing: "cl_ok s (c2\<lparr>cl_upstream := Some False\<rparr>)" using c2 by (simp add: cl_ok_def)
  have closed: "cl_inv (cl_perform a E_SESSION_CLOSED ClNone (c2\<lparr>cl_upstream := Some False\<rparr>))"
  proof -
    have "cl_ok S_DISCONNECTED (raise_disconnected (cl_enter S_DISCONNECTED (c2\<lparr>cl_upstream := Some False\<rparr>)) ClNone)"
      by (rule cl_ok_raise_disconnected) (use c2 in \<open>auto simp: cl_ok_def\<close>)
    then show ?thesis unfolding cl_ok_perform [OF closing] cl_inv_def by (cases s) auto
  qed
  have submit: "cl_ok S_DISCONNECTING (cl_enter S_DISCONNECTING (submit_disconnect c2 d))" if "s = S_CONNECTED" for d
    using c2 that
    by (auto simp: cl_ok_def cl_enter_def submit_disconnect_def note_client_error_def session_up_def remove1_idem
        split: ClData.splits)
  have err: "cl_inv (cl_perform a ev (ClError e) c2)" if "ev = E_HEALTH_CHECK_ERROR \<or> ev = E_SESSION_ERROR" for ev e
    unfolding cl_ok_perform [OF c2(1)] cl_inv_def using that c2(1) submit [of "ClError e"] by (cases s) auto
  have after: "cl_inv (on_tunnel CL_tunnel_after_disconnect x)" if "cl_inv x" for x
    using that cl_ok_on_tunnel [of _ x CL_tunnel_after_disconnect] by (auto simp: cl_inv_def neutral_def)
  have c2': "cl_inv c2" using c2(1) by (auto simp: cl_inv_def)
  show ?thesis
    using assms(3) closed err after c2'
    unfolding vpn_upstream_handler_def c1_def [symmetric] c2_def [symmetric] Let_def
    by (auto split: if_splits ServerEvent.splits)
qed

lemma power_inv:
  assumes "cl_ok s c" "neutral x" "neutral y" "neutral z"
  shows "cl_ok s (handle_power_event x y z c)"
proof (cases "cl_upstream c")
  case None
  then have "s \<noteq> S_CONNECTED" using assms(1) by (auto simp: cl_ok_def session_up_def)
  then show ?thesis using None assms cl_ok_state [OF assms(1)] by (auto simp: handle_power_event_def cl_ok_intros)
next
  case (Some b)
  then show ?thesis using assms by (simp add: handle_power_event_def cl_ok_intros)
qed

lemma cl_step_inv:
  assumes "cl_step c c'" "cl_inv c"
  shows "cl_inv c'"
proof -
  obtain s where s: "cl_ok s c" using assms(2) by (auto simp: cl_inv_def)
  have up: "s = S_CONNECTED \<Longrightarrow> cl_upstream c \<noteq> None" using s by (simp add: cl_ok_def session_up_def)
  note defs = direct_upstream_handler_def dns_resolver_handler_def process_client_packets_def cl_update_exclusions_def
    cl_reset_connections_def cl_get_connection_stats_def cl_on_network_change_def cl_handle_sleep_def cl_handle_wake_def
  from assms(1) show ?thesis
  proof (cases rule: cl_step.cases)
    case (upstream a what)
    then show ?thesis using upstream_inv s by blast
  next
    case (disconnect a)
    then show ?thesis using cl_ok_disconnect_any [OF s, of a] by (auto simp: cl_inv_def)
  next
    case (listen a has_dns)
    then show ?thesis using listen_ok [OF s, of a has_dns] by (auto simp: cl_inv_def same_or_ending_def)
  next
    case (result a r)
    then show ?thesis using result_inv [OF s, of a r] by (auto simp: cl_inv_def)
  next
    case health_check
    then show ?thesis using s by (auto simp: submit_health_check_def cl_inv_def cl_ok_def remove1_append)
  next
    case (direct what)
    have "cl_ok s (case what of
          SERVER_EVENT_SESSION_OPENED \<Rightarrow> c\<lparr>bypass_upstream_session_opened := True\<rparr>
        | SERVER_EVENT_SESSION_CLOSED \<Rightarrow> c\<lparr>bypass_upstream_session_opened := False\<rparr>
        | _ \<Rightarrow> c)" using s by (auto split: ServerEvent.splits)
    from cl_ok_on_tunnel [OF this, of "CL_bypass_event what"]
    show ?thesis using direct by (auto simp: direct_upstream_handler_def cl_inv_def neutral_def)
  qed (use s up connect_inv task_inv cl_ok_state [OF s] in
      \<open>auto simp: defs cl_inv_def Let_def neutral_def intro!: exI [of _ s] power_inv cl_ok_intros
         split: if_splits\<close>)
qed

definition cl_reachable :: "VpnClient \<Rightarrow> bool" where
  "cl_reachable c \<longleftrightarrow> (\<exists>kill_switch tmp_files. rtranclp cl_step (ready_client kill_switch tmp_files) c)"

lemma cl_reachable_new: "cl_reachable (ready_client k t)"
  by (auto simp: cl_reachable_def)

lemma cl_reachable_step: "cl_reachable c \<Longrightarrow> cl_step c c' \<Longrightarrow> cl_reachable c'"
  by (auto simp: cl_reachable_def intro: rtranclp.rtrancl_into_rtrancl)

lemma cl_reachable_inv:
  assumes "cl_reachable c"
  obtains s where "cl_ok s c"
proof -
  obtain k t where "rtranclp cl_step (ready_client k t) c" using assms by (auto simp: cl_reachable_def)
  then have "cl_inv c"
  proof induction
    case base
    have "cl_ok S_DISCONNECTED (ready_client k t)" by (simp add: cl_ok_def ready_client_defs session_up_def)
    then show ?case by (auto simp: cl_inv_def)
  next
    case (step x y)
    then show ?case using cl_step_inv by blast
  qed
  then show thesis using that by (auto simp: cl_inv_def)
qed

lemma connect_result:
  assumes "cl_ok S_DISCONNECTED c" "make_upstream main" "\<forall>p \<in> set_option fallback. make_upstream p"
    "code (an_connect a) = VPN_EC_NOERROR" "an_bypass_open a"
  shows "cl_pending_error c = None \<Longrightarrow> code (fst (cl_connect a main fallback timeout c)) = VPN_EC_NOERROR"
    "cl_pending_error c = None \<Longrightarrow> cl_ok S_CONNECTING (snd (cl_connect a main fallback timeout c))"
    "cl_pending_error c = None \<Longrightarrow> cl_connector (snd (cl_connect a main fallback timeout c)) = Some True"
    "cl_pending_error c = None \<Longrightarrow> cl_upstream (snd (cl_connect a main fallback timeout c)) = cl_upstream c"
    "cl_pending_error c = Some e \<Longrightarrow> code e \<noteq> VPN_EC_NOERROR \<Longrightarrow>
      fst (cl_connect a main fallback timeout c) = failed_connect_error e \<and>
      cl_ok S_DISCONNECTED (snd (cl_connect a main fallback timeout c))"
proof -
  obtain r c' where cc: "client_connect a timeout (c\<lparr>cl_connector := Some False\<rparr>) = (r, c')" by fastforce
  note f = client_connect_fields [OF assms(1) cc]
  have stop: "cl_ok S_DISCONNECTED (cl_disconnect c' a)" by (rule cl_ok_disconnect [OF f(1-4)]) simp
  have go: "cl_ok S_CONNECTING (on_bypass CL_bypass_open_session c')" if "code r = VPN_EC_NOERROR"
    by (simp add: cl_ok_intros f(5) that neutral_def)
  have no: "code no_error = VPN_EC_NOERROR" by (simp add: no_error_def VPN_EC_NOERROR_def)
  have c: "cl_connect a main fallback timeout c =
      (if code r \<noteq> VPN_EC_NOERROR then (failed_connect_error r, cl_disconnect c' a)
       else (r, on_bypass CL_bypass_open_session c'))"
    using cl_ok_state [OF assms(1)] assms by (auto simp: cl_connect_def cc Let_def split: option.splits)
  show "cl_pending_error c = None \<Longrightarrow> code (fst (cl_connect a main fallback timeout c)) = VPN_EC_NOERROR"
    "cl_pending_error c = None \<Longrightarrow> cl_ok S_CONNECTING (snd (cl_connect a main fallback timeout c))"
    "cl_pending_error c = None \<Longrightarrow> cl_connector (snd (cl_connect a main fallback timeout c)) = Some True"
    "cl_pending_error c = None \<Longrightarrow> cl_upstream (snd (cl_connect a main fallback timeout c)) = cl_upstream c"
    "cl_pending_error c = Some e \<Longrightarrow> code e \<noteq> VPN_EC_NOERROR \<Longrightarrow>
      fst (cl_connect a main fallback timeout c) = failed_connect_error e \<and>
      cl_ok S_DISCONNECTED (snd (cl_connect a main fallback timeout c))"
    using f(7-9) go stop no assms(4) unfolding c by (simp_all add: on_bypass_def cl_emit_def)
qed

lemma disconnect_keeps_error:
  assumes "cl_ok s c"
  shows "cl_pending_error (cl_disconnect c a) = cl_pending_error c"
proof -
  let ?c = "(cl_emit CL_disconnect c)\<lparr>in_disconnect := True\<rparr>"
  have "cl_perform a E_DISCONNECT ClNone ?c = cl_effect a s E_DISCONNECT ClNone ?c"
    by (rule cl_perform_effect) (use assms in \<open>simp_all add: cl_emit_def cl_ok_def\<close>)
  moreover have "cl_pending_error (run_disconnect x ClNone) = cl_pending_error x" for x
    by (simp add: run_disconnect_def Let_def drop_dns_listener_def on_tunnel_def close_upstream_def drop_connector_def
        note_client_error_def cl_emit_def)
  ultimately show ?thesis unfolding cl_disconnect_def by (cases s) (simp_all add: cl_enter_def cl_emit_def)
qed

lemma vpn_upstream_handler_defined:
  assumes "cl_connector c = None" "what \<noteq> SERVER_EVENT_SESSION_OPENED"
  shows "\<exists>c'. vpn_upstream_handler a what c = Some c'"
  using assms by (simp add: vpn_upstream_handler_def Let_def)

lemma session_error_noted:
  assumes "cl_ok S_CONNECTED c" "se_id e = NON_ID" "code (se_error e) \<noteq> VPN_EC_NOERROR"
    "vpn_upstream_handler a (SERVER_EVENT_ERROR e) c = Some c'"
  shows "cl_pending_error c' = Some (se_error e)"
proof -
  let ?c = "on_tunnel (CL_tunnel_event (SERVER_EVENT_ERROR e)) (on_tunnel CL_tunnel_before_disconnect c)"
  have ok: "cl_ok S_CONNECTED ?c" using assms(1) by (simp add: cl_ok_intros neutral_def)
  then have "cl_pending_error ?c = None" by (simp add: cl_ok_def)
  then have "cl_pending_error (cl_perform a E_SESSION_ERROR (ClError (se_error e)) ?c) = Some (se_error e)"
    unfolding cl_ok_perform [OF ok] using assms(3) by (simp add: cl_enter_def submit_disconnect_def note_client_error_def Let_def)
  then show ?thesis using assms(2,4)
    by (auto simp: vpn_upstream_handler_def is_session_end_def Let_def on_tunnel_def cl_emit_def split: if_splits)
qed

lemma session_closed_ok:
  assumes "cl_ok S_CONNECTED c" "vpn_upstream_handler a SERVER_EVENT_SESSION_CLOSED c = Some c'"
  shows "cl_ok S_DISCONNECTED c'" "cl_upstream c' = Some False" "cl_pending_error c' = None"
proof -
  let ?c = "(on_tunnel (CL_tunnel_event SERVER_EVENT_SESSION_CLOSED) (on_tunnel CL_tunnel_before_disconnect c))
    \<lparr>cl_upstream := Some False\<rparr>"
  have "cl_ok S_CONNECTED (on_tunnel (CL_tunnel_event SERVER_EVENT_SESSION_CLOSED) (on_tunnel CL_tunnel_before_disconnect c))"
    using assms(1) by (simp add: cl_ok_intros neutral_def)
  then have ok: "cl_ok S_CONNECTED ?c" by (auto simp: cl_ok_def)
  have d: "cl_ok S_DISCONNECTED (raise_disconnected (cl_enter S_DISCONNECTED ?c) ClNone)"
    by (rule cl_ok_raise_disconnected) (use ok in \<open>auto simp: cl_ok_def\<close>)
  have c': "c' = on_tunnel CL_tunnel_after_disconnect (raise_disconnected (cl_enter S_DISCONNECTED ?c) ClNone)"
    using assms(2) cl_ok_perform [OF ok, of a E_SESSION_CLOSED ClNone]
    by (auto simp: vpn_upstream_handler_def is_session_end_def Let_def split: if_splits)
  show "cl_ok S_DISCONNECTED c'" unfolding c' using d by (simp add: cl_ok_intros neutral_def)
  show "cl_upstream c' = Some False" "cl_pending_error c' = None" unfolding c'
    by (simp_all add: on_tunnel_def cl_emit_def raise_disconnected_def cl_enter_def split: option.splits)
qed

section \<open>Properties\<close>

text \<open>A run that ends with an open session, for the examples.\<close>

definition good_answers :: ClAnswers where
  "good_answers = \<lparr>an_connect = no_error, an_rand_ok = True, an_dns_listener = INIT_SUCCESS, an_dns_params_ok = True,
     an_dns_check_ok = True, an_listener = INIT_SUCCESS, an_bypass_open = True\<rparr>"

definition connecting_client :: VpnClient where
  "connecting_client = snd (cl_connect good_answers VPN_UP_HTTP2 None None (ready_client True False))"

definition connected_client :: VpnClient where
  "connected_client =
     run_client_task good_answers CT_finalizer
       (endpoint_connector_handler good_answers ConnectedUpstream (connecting_client\<lparr>cl_connector := Some False\<rparr>))"

lemma connecting_client_eq:
  "connecting_client = (ready_client True False)\<lparr>cl_fsm := \<lparr>m_current_state = 1, m_recursive = False\<rparr>,
     cl_connector := Some True, cl_calls := [CL_connector_connect None, CL_bypass_open_session]\<rparr>"
  unfolding connecting_client_def by code_simp

lemma connected_client_eq:
  "connected_client = (ready_client True False)\<lparr>cl_fsm := \<lparr>m_current_state = 2, m_recursive = False\<rparr>,
     cl_upstream := Some True,
     cl_calls := [CL_connector_connect None, CL_bypass_open_session, CL_tunnel_event SERVER_EVENT_SESSION_OPENED,
       CL_raise CL_EVENT_CONNECTED]\<rparr>"
  unfolding connected_client_def connecting_client_eq by code_simp

lemma connected_client_fields:
  "cl_connector connected_client = None" "cl_upstream connected_client = Some True"
  "cl_get_state connected_client = cls S_CONNECTED"
  by (simp_all add: connected_client_eq ready_client_defs cl_get_state_def get_state_def)

lemma connected_client_reachable: "cl_reachable connected_client"
proof -
  let ?c = "endpoint_connector_handler good_answers ConnectedUpstream (connecting_client\<lparr>cl_connector := Some False\<rparr>)"
  have "cl_reachable connecting_client" unfolding connecting_client_def
    by (rule cl_reachable_step [OF cl_reachable_new cl_step.connect]) (simp_all add: make_upstream_def)
  then have "cl_reachable ?c" by (rule cl_reachable_step) (rule cl_step.result, simp add: connecting_client_eq)
  then show ?thesis unfolding connected_client_def
    by (rule cl_reachable_step) (rule cl_step.task, simp add: endpoint_connector_handler_def Let_def)
qed

text \<open>
  Claim C26: in every state that a client reaches before it is finalised, no call went through a null
  pointer; the session manager's view of the client, built from the events it got and its own
  calls of \<open>disconnect\<close>, is "up" exactly in the states connected and disconnecting; and the client is never
  stuck: while it connects, the connector runs or the task that takes its result is queued, and while
  it disconnects the task that completes this is queued.
\<close>

theorem client_consistent_never_stuck:
  assumes "cl_reachable c"
  shows "CL_null \<notin> set (cl_calls c) \<and>
    (owner_up (cl_calls c) \<longleftrightarrow> cl_get_state c = cls S_CONNECTED \<or> cl_get_state c = cls S_DISCONNECTING) \<and>
    (cl_get_state c = cls S_CONNECTING \<longrightarrow> cl_connector c = Some True \<or> CT_finalizer \<in> set (deferred_tasks c)) \<and>
    (cl_get_state c = cls S_DISCONNECTING \<longrightarrow> CT_disconnect \<in> set (deferred_tasks c)) \<and>
    (cl_get_state c \<noteq> cls S_CONNECTING \<longrightarrow> cl_connector c = None)"
proof -
  obtain s where s: "cl_ok s c" using assms by (rule cl_reachable_inv)
  show ?thesis unfolding cl_ok_state [OF s] cls_eq_iff using s by (cases s) (auto simp: cl_ok_def session_up_def)
qed

theorem client_consistent_never_stuck_witness:
  "cl_reachable connected_client \<and> owner_up (cl_calls connected_client) \<and> CL_null \<notin> set (cl_calls connected_client)"
  using connected_client_reachable client_consistent_never_stuck [OF connected_client_reachable]
  by (simp add: connected_client_eq cl_get_state_def get_state_def)

text \<open>
  Claim C27: \<open>disconnect\<close> in a session, or while one is being established, ends it at once and without
  telling its caller: afterwards the client is disconnected, has no connector, no queued task, no open
  session and no DNS listener, and no event was raised.
\<close>

theorem disconnect_is_final_and_silent:
  assumes "cl_reachable c" "cl_get_state c \<noteq> cls S_DISCONNECTED"
  shows "cl_get_state (cl_disconnect c a) = cls S_DISCONNECTED \<and> cl_connector (cl_disconnect c a) = None \<and>
    deferred_tasks (cl_disconnect c a) = [] \<and> cl_upstream (cl_disconnect c a) \<noteq> Some True \<and>
    \<not> cl_dns_proxy_listener (cl_disconnect c a) \<and>
    (\<forall>e. count_list (cl_calls (cl_disconnect c a)) (CL_raise e) = count_list (cl_calls c) (CL_raise e))"
proof -
  obtain s where s: "cl_ok s c" using assms(1) by (rule cl_reachable_inv)
  let ?c = "(cl_emit CL_disconnect c)\<lparr>in_disconnect := True\<rparr>"
  have "cl_perform a E_DISCONNECT ClNone ?c = cl_effect a s E_DISCONNECT ClNone ?c"
    by (rule cl_perform_effect) (use s in \<open>simp_all add: cl_emit_def cl_ok_def\<close>)
  then have p: "cl_perform a E_DISCONNECT ClNone ?c = cl_enter S_DISCONNECTED (run_disconnect ?c ClNone)"
    using assms(2) cl_ok_state [OF s] by (cases s) auto
  have t: "cl_tunnel ?c" "CL_null \<notin> set (cl_calls ?c)" using s by (simp_all add: cl_ok_def cl_emit_def)
  have silent: "count_list (cl_calls (run_disconnect x ClNone)) (CL_raise e) = count_list (cl_calls x) (CL_raise e)" for x e
    by (simp add: run_disconnect_def Let_def drop_dns_listener_def on_tunnel_def close_upstream_def drop_connector_def
        note_client_error_def cl_emit_def)
  show ?thesis
    unfolding cl_disconnect_def p using run_disconnect_fields [OF t, of ClNone] silent [of ?c]
    by (simp add: cl_enter_def cl_get_state_def get_state_def cl_emit_def)
qed

theorem disconnect_is_final_and_silent_witness:
  "cl_reachable connected_client \<and> cl_get_state (cl_disconnect connected_client good_answers) = cls S_DISCONNECTED \<and>
   cl_upstream (cl_disconnect connected_client good_answers) \<noteq> Some True"
proof -
  have "cl_get_state connected_client \<noteq> cls S_DISCONNECTED"
    by (simp add: connected_client_eq cl_get_state_def get_state_def)
  from disconnect_is_final_and_silent [OF connected_client_reachable this, of good_answers]
  show ?thesis using connected_client_reachable by simp
qed

text \<open>
  Claim C28: when a session fails and the session manager calls \<open>disconnect\<close> before the deferred
  disconnect runs, the error stays in \<open>pending_error\<close>: the next \<open>connect\<close> starts its connector
  successfully, but reports the error of the old session and disconnects; on a client without the leftover the
  same call succeeds.
\<close>

theorem stale_error_fails_next_connect:
  assumes "cl_reachable c" "cl_get_state c = cls S_CONNECTED" "cl_upstream c = Some True"
    and "se_id e = NON_ID" "code (se_error e) \<noteq> VPN_EC_NOERROR"
    and "vpn_upstream_handler a (SERVER_EVENT_ERROR e) c = Some c1" "c2 = cl_disconnect c1 a"
    and "make_upstream main" "\<forall>p \<in> set_option fallback. make_upstream p"
    and "code (an_connect a) = VPN_EC_NOERROR" "an_bypass_open a"
  shows "fst (cl_connect a main fallback timeout c2) = failed_connect_error (se_error e) \<and>
    cl_get_state (snd (cl_connect a main fallback timeout c2)) = cls S_DISCONNECTED \<and>
    code (fst (cl_connect a main fallback timeout (c2\<lparr>cl_pending_error := None\<rparr>))) = VPN_EC_NOERROR"
proof -
  obtain s where "cl_ok s c" using assms(1) by (rule cl_reachable_inv)
  then have c: "cl_ok S_CONNECTED c" using cl_ok_state assms(2) by (metis cls_eq_iff)
  obtain s1 where c1: "cl_ok s1 c1" using upstream_inv [OF c assms(3,6)] by (auto simp: cl_inv_def)
  have c2: "cl_ok S_DISCONNECTED c2" "cl_pending_error c2 = Some (se_error e)"
    unfolding assms(7) using cl_ok_disconnect_any [OF c1] disconnect_keeps_error [OF c1] session_error_noted [OF c assms(4-6)]
    by simp_all
  have c2': "cl_ok S_DISCONNECTED (c2\<lparr>cl_pending_error := None\<rparr>)" using c2(1) by (auto simp: cl_ok_def)
  show ?thesis
    using connect_result(5) [OF c2(1) assms(8-11) c2(2) assms(5), of timeout]
      connect_result(1) [OF c2' assms(8-11), of timeout] cl_ok_state [of S_DISCONNECTED] by simp
qed

definition lost_session :: ServerError where
  "lost_session = \<lparr>se_id = NON_ID, se_error = mk_error VPN_EC_ERROR ''lost''\<rparr>"

theorem stale_error_fails_next_connect_witness:
  "cl_reachable connected_client \<and>
   (\<exists>c1. vpn_upstream_handler good_answers (SERVER_EVENT_ERROR lost_session) connected_client = Some c1 \<and>
     fst (cl_connect good_answers VPN_UP_HTTP2 None None (cl_disconnect c1 good_answers)) = se_error lost_session)"
proof -
  obtain c1 where c1: "vpn_upstream_handler good_answers (SERVER_EVENT_ERROR lost_session) connected_client = Some c1"
    using vpn_upstream_handler_defined [OF connected_client_fields(1)] by blast
  have "fst (cl_connect good_answers VPN_UP_HTTP2 None None (cl_disconnect c1 good_answers)) =
    failed_connect_error (se_error lost_session)"
    using stale_error_fails_next_connect [OF connected_client_reachable _ _ _ _ c1 refl, of VPN_UP_HTTP2 None None]
    by (simp add: connected_client_fields lost_session_def mk_error_def make_upstream_def good_answers_def no_error_def error_codes)
  then show ?thesis using c1 connected_client_reachable
    by (auto simp: failed_connect_error_def lost_session_def mk_error_def error_codes)
qed

text \<open>
  Claim C29: after a session was closed the client keeps its upstream, so that while it connects again
  (the connector runs) a sleep notification goes to that closed upstream and to the tunnel, and not to the
  connector.
\<close>

theorem sleep_misses_connector_on_reconnect:
  assumes "cl_reachable c" "cl_get_state c = cls S_CONNECTED"
    and "vpn_upstream_handler a SERVER_EVENT_SESSION_CLOSED c = Some c1"
    and "make_upstream main" "\<forall>p \<in> set_option fallback. make_upstream p"
    and "code (an_connect a) = VPN_EC_NOERROR" "an_bypass_open a"
    and "c2 = snd (cl_connect a main fallback timeout c1)"
  shows "cl_get_state c2 = cls S_CONNECTING \<and> cl_connector c2 = Some True \<and> cl_upstream c2 = Some False \<and>
    cl_calls (cl_handle_sleep c2) = cl_calls c2 @ [CL_upstream_sleep, CL_tunnel_sleep]"
proof -
  obtain s where "cl_ok s c" using assms(1) by (rule cl_reachable_inv)
  then have c: "cl_ok S_CONNECTED c" using cl_ok_state assms(2) by (metis cls_eq_iff)
  note c1 = session_closed_ok [OF c assms(3)]
  note c2 = connect_result(2-4) [OF c1(1) assms(4-7) c1(3), of timeout, folded assms(8)]
  have "cl_tunnel c2" using c2(1) by (simp add: cl_ok_def)
  then show ?thesis using c2 c1(2) cl_ok_state [OF c2(1)]
    by (simp add: cl_handle_sleep_def handle_power_event_def on_tunnel_def on_upstream_def cl_emit_def)
qed

theorem sleep_misses_connector_on_reconnect_witness:
  "cl_reachable connected_client \<and>
   (\<exists>c1. vpn_upstream_handler good_answers SERVER_EVENT_SESSION_CLOSED connected_client = Some c1 \<and>
     cl_connector (snd (cl_connect good_answers VPN_UP_HTTP2 None None c1)) = Some True \<and>
     cl_upstream (snd (cl_connect good_answers VPN_UP_HTTP2 None None c1)) = Some False)"
proof -
  obtain c1 where c1: "vpn_upstream_handler good_answers SERVER_EVENT_SESSION_CLOSED connected_client = Some c1"
    using vpn_upstream_handler_defined [OF connected_client_fields(1)] by blast
  show ?thesis
    using sleep_misses_connector_on_reconnect [OF connected_client_reachable _ c1 _ _ _ _ refl, of VPN_UP_HTTP2 None None]
      c1 connected_client_reachable
    by (simp add: connected_client_fields make_upstream_def good_answers_def no_error_def error_codes)
qed

end
