(* ===== verification/Vpn_System.thy ===== *)
theory Vpn_System
  imports Vpn_Properties Vpn_Client
begin

text \<open>
  The session manager and the endpoint client together. In \<open>Vpn_Manager\<close> the client is outside:
  its answers and events are arbitrary, but for one assumption, that it reports a connection only when it was
  asked to connect. Here the calls of the manager run on the model of the client and the events
  of the client go to the manager. The manager's picture of the client (\<open>client_state\<close>) is right in every
  state, and so the assumption holds.
\<close>

declare ss.simps [simp del] ce.simps [simp del]

section \<open>The calls of the manager\<close>

text \<open>The picture that the manager has of the client after a call; \<open>e\<close> is the answer to \<open>connect\<close>.\<close>

fun picture :: "VpnError \<Rightarrow> Call \<Rightarrow> ClientConnectionState \<Rightarrow> ClientConnectionState" where
  "picture e (C_client_connect cfg t) s = (if code e = VPN_EC_NOERROR then CLIS_CONNECTING else s)"
| "picture e C_client_disconnect s = CLIS_DISCONNECTED"
| "picture e _ s = s"

text \<open>The client is not finalised, and asked to connect with a protocol that has an upstream.\<close>

fun proper_call :: "Call \<Rightarrow> bool" where
  "proper_call (C_client_connect cfg t) = make_upstream (ec_protocol cfg)"
| "proper_call C_client_finalize = False"
| "proper_call _ = True"

definition tracked :: "Answers \<Rightarrow> Vpn \<Rightarrow> Vpn \<Rightarrow> bool" where
  "tracked a v w \<longleftrightarrow>
     (\<exists>ds. calls w = ds @ calls v \<and> client_state w = foldr (picture (connect_result a)) ds (client_state v) \<and>
           (\<forall>x \<in> set ds. proper_call x))"

lemma tracked_refl [simp, intro]: "calls w = calls v \<Longrightarrow> client_state w = client_state v \<Longrightarrow> tracked a v w"
  by (auto simp: tracked_def intro!: exI [of _ "[]"])

lemma tracked_trans: "tracked a v w \<Longrightarrow> tracked a w x \<Longrightarrow> tracked a v x"
  unfolding tracked_def by (elim exE conjE, rename_tac ds es, rule_tac x = "es @ ds" in exI) auto

lemma tracked_cong:
  assumes "tracked a v w" "calls v' = calls v" "client_state v' = client_state v" "calls w' = calls w"
    "client_state w' = client_state w"
  shows "tracked a v' w'"
  using assms by (simp add: tracked_def)

lemma tracked_call:
  assumes "calls w = x # calls v" "client_state w = picture (connect_result a) x (client_state v)" "proper_call x"
  shows "tracked a v w"
  using assms by (auto simp: tracked_def intro!: exI [of _ "[x]"])

lemma foldr_picture_other: "\<forall>x \<in> set ds. \<forall>s. picture e x s = s \<Longrightarrow> foldr (picture e) ds s = s"
  by (induction ds) simp_all

lemma tracked_requests:
  "tracked a v (complete_postponed_requests v)" "tracked a v (reset_bypassed_connections v)"
proof -
  show "tracked a v (complete_postponed_requests v)"
    unfolding tracked_def complete_postponed_requests_eq
    by (rule exI [of _ "rev (map (\<lambda>r. C_complete_request (req_id r) (req_action r)) (postponed_requests v))"])
      (auto simp: foldr_picture_other)
  show "tracked a v (reset_bypassed_connections v)"
    unfolding tracked_def reset_bypassed_connections_eq
    by (rule exI [of _ "rev (map C_reset_connection (bypassed_connection_ids v))"]) (auto simp: foldr_picture_other)
qed

lemma tracked_stop_pinging: "tracked a v (stop_pinging v)"
  by (cases "pinger v = PingerNone")
    (auto simp: stop_pinging_def destroy_pinger_def emit_def intro: tracked_call)

lemma tracked_disconnect_client: "tracked a v (disconnect_client v)"
  by (cases "client_state v") (auto simp: disconnect_client_def emit_def intro: tracked_call)

lemma tracked_disconnect: "tracked a v (disconnect v)"
  unfolding disconnect_def by (rule tracked_trans [OF tracked_stop_pinging tracked_disconnect_client])

lemma tracked_initiate_recovery: "tracked a v (initiate_recovery v)"
  by (auto simp: initiate_recovery_def submit_def)

lemma tracked_client_connect: "tracked a v (run_client_connect a timeout v)"
proof (cases "selected_endpoint v")
  case (Some sel)
  have "proper_call (C_client_connect (make_client_upstream_config a (upstream_config v) sel) timeout)"
    by (simp add: make_client_upstream_config_def make_upstream_def Let_def)
  with Some show ?thesis
    by (auto simp: run_client_connect_def client_connect_result_def emit_def submit_def intro!: tracked_call)
qed (auto simp: run_client_connect_def)

lemma tracked_raise_state: "tracked a v (raise_state v d)"
  by (auto simp: raise_state_def Let_def emit_def intro: tracked_call)

lemma tracked_complete_connect: "tracked a v (complete_connect v d)"
proof -
  let ?f = "fail_with_error v d"
  have fail: "tracked a v ?f"
    unfolding fail_with_error_def by (auto intro: tracked_cong [OF tracked_disconnect])
  have attempts: "tracked a ?f ((note_attempts_exceeded ?f d)\<lparr>recovery := recovery_init\<rparr>)"
    by (auto simp: note_attempts_exceeded_def)
  have health: "tracked a w (check_health_if_ok w)" for w
    by (auto simp: check_health_if_ok_def emit_def intro: tracked_call)
  from tracked_trans [OF tracked_trans [OF fail attempts] health] show ?thesis by (simp add: complete_connect_def)
qed

lemma tracked_prepare_for_recovery: "tracked a v (prepare_for_recovery v d)"
proof -
  have "tracked a v (note_error v d)" by (auto simp: note_error_def)
  from tracked_trans [OF tracked_trans [OF this tracked_disconnect] tracked_initiate_recovery]
  show ?thesis by (simp add: prepare_for_recovery_def)
qed

lemma tracked_run_ping: "tracked a v (run_ping v d)"
proof -
  have "tracked a w (start_pinger w)" for w by (auto simp: start_pinger_def emit_def intro: tracked_call)
  from tracked_trans [OF tracked_stop_pinging this] show ?thesis
    by (rule tracked_cong) (auto simp: run_ping_def cancel_recovery_task_def)
qed

lemma tracked_finalize_recovery: "tracked a v (finalize_recovery v d)"
proof -
  have "tracked a v ((emit C_update_bypass_ip v)\<lparr>recovery := recovery_init\<rparr>)" by (rule tracked_call) (auto simp: emit_def)
  from tracked_trans [OF this tracked_stop_pinging]
  have "tracked a v ((stop_pinging ((emit C_update_bypass_ip v)\<lparr>recovery := recovery_init\<rparr>))\<lparr>postponement_window_timer := None\<rparr>)"
    by (rule tracked_cong) auto
  from tracked_trans [OF tracked_trans [OF this tracked_requests(1)] tracked_requests(2)]
  show ?thesis by (simp add: finalize_recovery_def)
qed

text \<open>Every action of the table is tracked.\<close>

lemma tracked_actions:
  "tracked a v (run_ping v d)" "tracked a v (connect_client a v d)" "tracked a v (complete_connect v d)"
  "tracked a v (fail_connect_with_no_attempts v d)" "tracked a v (retry_connect v d)"
  "tracked a v (prepare_for_recovery v d)" "tracked a v (prepare_for_recovery_nc v d)"
  "tracked a v (reconnect_client a v d)" "tracked a v (finalize_recovery v d)" "tracked a v (do_disconnect v d)"
  "tracked a v (start_listening a v d)" "tracked a v (on_wrong_connect_state v d)" "tracked a v (on_wrong_listen_state v d)"
  "tracked a v (complete_request v d)" "tracked a v (postpone_request v d)" "tracked a v (reject_request v d)"
  "tracked a v (bypass_until_connected v d)" "tracked a v (raise_state v d)"
proof -
  have attempt: "tracked a v (use_connect_attempt v)"
    by (cases "connect_retry_info v") (auto simp: use_connect_attempt_def)
  show "tracked a v (retry_connect v d)"
    by (rule tracked_cong [OF tracked_trans [OF attempt tracked_disconnect]]) (simp_all add: retry_connect_def submit_def)
  show "tracked a v (reconnect_client a v d)"
    unfolding reconnect_client_def by (rule tracked_trans [OF tracked_disconnect_client tracked_client_connect])
  show "tracked a v (do_disconnect v d)"
    by (rule tracked_cong [OF tracked_disconnect [of a "v\<lparr>recovery := recovery_init\<rparr>"]]) (simp_all add: do_disconnect_def)
  show "tracked a v (start_listening a v d)"
    by (rule tracked_call [of _ C_client_listen]) (simp_all add: start_listening_def listen_outcome_def emit_def submit_def)
  show "tracked a v (on_wrong_connect_state v d)"
    by (rule tracked_cong [OF tracked_disconnect]) (simp_all add: on_wrong_connect_state_def)
qed (auto simp: connect_client_def fail_connect_with_no_attempts_def prepare_for_recovery_nc_def on_wrong_listen_state_def
    complete_request_def postpone_request_def reject_request_def bypass_until_connected_def emit_def
    intro: tracked_run_ping tracked_client_connect tracked_complete_connect tracked_prepare_for_recovery
      tracked_finalize_recovery tracked_raise_state tracked_call)

lemma tracked_row:
  assumes "e \<in> set (TRANSITION_TABLE a)"
  shows "tracked a v (row_effect e d v)"
proof -
  have "before_transition e \<in> {None, Some run_ping, Some (connect_client a), Some complete_connect,
      Some fail_connect_with_no_attempts, Some retry_connect, Some prepare_for_recovery, Some prepare_for_recovery_nc,
      Some (reconnect_client a), Some finalize_recovery, Some do_disconnect, Some (start_listening a),
      Some on_wrong_connect_state, Some on_wrong_listen_state, Some complete_request, Some postpone_request,
      Some reject_request, Some bypass_until_connected}"
    using assms by (simp add: TRANSITION_TABLE_def entry_def) (elim disjE; simp)
  then have b: "tracked a v (run_action (before_transition e) d v)"
    by (auto simp: run_action_def intro: tracked_actions)
  have "tracked a v (fsm_update f (run_action (before_transition e) d v))" for f
    by (rule tracked_cong [OF b]) simp_all
  then have "tracked a v (raise_state (fsm_update f (run_action (before_transition e) d v)) d)" for f
    using tracked_trans tracked_raise_state by blast
  then show ?thesis using b by (simp add: row_effect_def)
qed

lemma tracked_perform:
  assumes "idle v"
  shows "tracked a v (perform a ev d v)"
proof (cases "List.find (\<lambda>e. row_applies e (ce ev) d v) (TRANSITION_TABLE a)")
  case None
  then show ?thesis by (simp add: perform_row_effect [OF assms])
next
  case (Some e)
  then have "e \<in> set (TRANSITION_TABLE a)" by (auto simp: find_Some_iff)
  then show ?thesis using Some tracked_row by (simp add: perform_row_effect [OF assms])
qed

lemma tracked_event: "tracked a v w \<Longrightarrow> idle w \<Longrightarrow> tracked a v (perform a ev d w)"
  using tracked_trans tracked_perform by blast

lemma tracked_emitted:
  assumes "tracked a v w" "proper_call x" "\<And>e s. picture e x s = s"
  shows "tracked a v (emit x w)"
  by (rule tracked_trans [OF assms(1)], rule tracked_call [of _ x]) (simp_all add: emit_def assms)

lemma idle_updates [simp]: "fsm (emit x v) = fsm v" "fsm (submit t v) = fsm v"
  by (simp_all add: emit_def submit_def)

lemma tracked_submitted: "tracked a v (submit t w) \<longleftrightarrow> tracked a v w"
  by (simp add: tracked_def submit_def)

lemma tracked_run_task:
  assumes "idle v"
  shows "tracked a v (run_task a t (v\<lparr>queue := q\<rparr>))"
proof -
  have v: "tracked a v (v\<lparr>queue := q\<rparr>)" by auto
  show ?thesis
  proof (cases t)
    case T_force_reconnect
    then show ?thesis
      using assms by (auto simp: force_reconnect_task_def session_error_def intro!: tracked_event)
  next
    case (T_abandon_endpoint ep)
    then show ?thesis
      using assms by (auto simp: abandon_endpoint_task_def Let_def set_endpoints_def intro!: tracked_event)
  next
    case (T_update_exclusions m ex)
    then show ?thesis using v by (auto intro!: tracked_emitted)
  qed (use assms in \<open>auto simp: complete_connect_request_task_def session_error_def tracked_submitted emit_def
      intro!: tracked_event intro: tracked_call\<close>)
qed

section \<open>The steps of the manager\<close>

text \<open>The steps of \<open>vpn_step\<close> that are not events of the client, before the session is stopped, with the answers they use.\<close>

inductive manager_step :: "Answers \<Rightarrow> Vpn \<Rightarrow> Vpn \<Rightarrow> bool" where
  run_queue: "queue v \<noteq> [] \<Longrightarrow> manager_step a v (run_front a v)"
| recovery_timer: "rec_task (recovery v) = Some due \<Longrightarrow> due \<le> clock v \<Longrightarrow> manager_step a v (recovery_task_cb a v)"
| window_timer: "postponement_window_timer v = Some due \<Longrightarrow> due \<le> clock v \<Longrightarrow>
    manager_step a v (postponement_window_timer_cb v)"
| ping_result: "pinger v = PingerRunning \<Longrightarrow> manager_step a v (pinger_handler a r (v\<lparr>pinger := PingerReported\<rparr>))"
| app_connect: "manager_step a v (snd (vpn_connect a started cfg policy v))"
| app_force_reconnect: "manager_step a v (vpn_force_reconnect v)"
| app_force_disconnect: "manager_step a v (vpn_force_disconnect fatal v)"
| app_listen: "manager_step a v (snd (vpn_listen l c v))"
| app_complete_request: "manager_step a v (vpn_complete_connect_request req v)"
| app_update_exclusions: "manager_step a v (vpn_update_exclusions m ex v)"
| app_reset_connections: "manager_step a v (vpn_reset_connections uid v)"
| app_network_change: "manager_step a v (vpn_notify_network_change st v)"
| app_stats: "manager_step a v (vpn_request_endpoint_connection_stats v)"
| app_abandon: "manager_step a v (vpn_abandon_endpoint ep v)"
| app_sleep: "manager_step a v (vpn_notify_sleep v)"
| app_wake: "manager_step a v (vpn_notify_wake v)"
| app_packets: "manager_step a v (snd (vpn_process_client_packets ps v))"
| loop_failure: "manager_step a v (event_loop_failure a v)"
| time: "clock v \<le> t \<Longrightarrow> manager_step a v (v\<lparr>clock := t\<rparr>)"

lemma manager_step_vpn_step: "manager_step a v w \<Longrightarrow> vpn_step v w"
  by (induction rule: manager_step.induct) (auto intro: vpn_step.intros simp del: run_task.simps)

lemma tracked_window_timer: "tracked a v (postponement_window_timer_cb v)"
proof -
  have one: "tracked a w (expire_request r w)" for r w
    by (auto simp: expire_request_def emit_def intro: tracked_call)
  have "tracked a w (fold expire_request rs w)" for rs w
    by (induction rs arbitrary: w) (auto intro: tracked_trans [OF one])
  from this [of "v\<lparr>postponement_window_timer := None\<rparr>" "postponed_requests v"] show ?thesis
    by (rule tracked_cong) (simp_all add: postponement_window_timer_cb_def Let_def)
qed

lemma manager_step_tracked:
  assumes "manager_step a v w" "idle v"
  shows "tracked a v w"
  using assms(1)
proof cases
  case run_queue
  then obtain t ts where q: "queue v = t # ts" by (cases "queue v") auto
  show ?thesis using run_queue tracked_run_task [OF assms(2), of a t ts] q by (simp add: run_front_def)
next
  case window_timer
  then show ?thesis using tracked_window_timer by simp
next
  case app_stats
  then show ?thesis
    by (auto simp: vpn_request_endpoint_connection_stats_def tracked_submitted emit_def intro: tracked_call)
qed (use assms(2) in \<open>auto simp: recovery_task_cb_def begin_attempt_def pinger_handler_def Let_def forget_endpoint_def
    select_endpoint_def event_loop_failure_def session_error_def vpn_connect_def vpn_listen_def vpn_force_reconnect_def
    vpn_force_disconnect_def vpn_complete_connect_request_def vpn_update_exclusions_def cancel_exclusions_task_def
    vpn_reset_connections_def vpn_notify_network_change_def vpn_abandon_endpoint_def vpn_notify_sleep_def
    vpn_notify_wake_def vpn_process_client_packets_def submit_unchecked_def submit_if_active_def tracked_submitted emit_def
    intro!: tracked_event intro: tracked_call\<close>)

section \<open>The client follows\<close>

text \<open>
  A call of the manager on the client. The calls that go past the machine of the client, to the tunnel
  or a listener, change nothing here. \<open>None\<close> is the answer of a call that gives none.
\<close>

fun client_call :: "ClAnswers \<Rightarrow> bool \<Rightarrow> Call \<Rightarrow> VpnClient \<Rightarrow> VpnClient" where
  "client_call ca has_dns (C_client_connect cfg timeout) c = snd (cl_connect ca (ec_protocol cfg) None timeout c)"
| "client_call ca has_dns C_client_disconnect c = cl_disconnect c ca"
| "client_call ca has_dns C_client_finalize c = finalize_disconnect c"
| "client_call ca has_dns C_client_listen c = snd (cl_listen ca has_dns c)"
| "client_call ca has_dns C_health_check c = submit_health_check c"
| "client_call ca has_dns (C_reset_connections uid) c = cl_reset_connections uid c"
| "client_call ca has_dns (C_update_exclusions m ex) c = cl_update_exclusions c"
| "client_call ca has_dns C_network_change c = cl_on_network_change c"
| "client_call ca has_dns C_handle_sleep c = cl_handle_sleep c"
| "client_call ca has_dns C_handle_wake c = cl_handle_wake c"
| "client_call ca has_dns (C_client_packets ps) c = process_client_packets c"
| "client_call ca has_dns (C_connection_stats e) c =
     (if code e = VPN_EC_NOERROR then case cl_get_connection_stats c of None \<Rightarrow> c | Some c' \<Rightarrow> c' else c)"
| "client_call ca has_dns _ c = c"

text \<open>The answer that the manager got is the one that the client gives.\<close>

fun same_answer :: "Answers \<Rightarrow> ClAnswers \<Rightarrow> bool \<Rightarrow> Call \<Rightarrow> VpnClient \<Rightarrow> bool" where
  "same_answer a ca has_dns (C_client_connect cfg timeout) c \<longleftrightarrow>
     connect_result a = fst (cl_connect ca (ec_protocol cfg) None timeout c)"
| "same_answer a ca has_dns C_client_listen c \<longleftrightarrow> listen_result a = fst (cl_listen ca has_dns c)"
| "same_answer a ca has_dns _ c \<longleftrightarrow> True"

text \<open>The client runs a list of calls, the newest first.\<close>

primrec client_follows :: "Answers \<Rightarrow> ClAnswers \<Rightarrow> bool \<Rightarrow> Call list \<Rightarrow> VpnClient \<Rightarrow> VpnClient option" where
  "client_follows a ca has_dns [] c = Some c"
| "client_follows a ca has_dns (x # ds) c =
     (case client_follows a ca has_dns ds c of
        None \<Rightarrow> None
      | Some c1 \<Rightarrow> if same_answer a ca has_dns x c1 then Some (client_call ca has_dns x c1) else None)"

text \<open>The manager's picture fits the state of the client.\<close>

fun fits :: "ClientConnectionState \<Rightarrow> ClState \<Rightarrow> bool" where
  "fits CLIS_DISCONNECTED s = (s = S_DISCONNECTED)"
| "fits CLIS_CONNECTING s = (s = S_CONNECTING)"
| "fits CLIS_CONNECTED s = session_up s"

lemma connect_outcome:
  assumes "cl_ok s c" "make_upstream main" "cl_connect a main None timeout c = (e, c')"
  shows "if code e = VPN_EC_NOERROR then cl_ok S_CONNECTING c' else cl_ok s c'"
proof (cases "s = S_DISCONNECTED")
  case False
  then have "cl_connect a main None timeout c = (mk_error VPN_EC_ERROR ''Invalid state'', c)"
    using cl_ok_state [OF assms(1)] by (simp add: cl_connect_def)
  then show ?thesis using assms by (auto simp: mk_error_def error_codes)
next
  case True
  obtain r c1 where cc: "client_connect a timeout (c\<lparr>cl_connector := Some False\<rparr>) = (r, c1)" by fastforce
  note f = client_connect_fields [OF assms(1) [unfolded True] cc]
  have stop: "cl_ok S_DISCONNECTED (cl_disconnect c1 a)" by (rule cl_ok_disconnect [OF f(1-4)]) simp
  have go: "cl_ok S_CONNECTING (on_bypass CL_bypass_open_session c1)" if "code r = VPN_EC_NOERROR"
    by (simp add: cl_ok_intros f(5) that neutral_def)
  have err: "code (failed_connect_error x) \<noteq> VPN_EC_NOERROR" for x
    by (simp add: failed_connect_error_def error_codes)
  have stop2: "cl_ok S_DISCONNECTED (cl_disconnect (on_bypass CL_bypass_open_session c1) a)" if "code r = VPN_EC_NOERROR"
    by (rule cl_ok_disconnect_any [OF go [OF that]])
  have eq: "cl_connect a main None timeout c =
      (if code r \<noteq> VPN_EC_NOERROR then (failed_connect_error r, cl_disconnect c1 a)
       else if \<not> an_bypass_open a
         then (failed_connect_error (r\<lparr>err_text := Some ''Failed to start upstream for direct connections''\<rparr>),
               cl_disconnect (on_bypass CL_bypass_open_session c1) a)
         else (r, on_bypass CL_bypass_open_session c1))"
    using cl_ok_state [OF assms(1)] True assms(2) by (simp add: cl_connect_def cc Let_def)
  show ?thesis using assms(3) stop stop2 go err True unfolding eq by (auto split: if_splits)
qed

section \<open>The reports of the client\<close>

text \<open>What happens to the client from below: the result of its connector, its tasks and the events of its upstreams.\<close>

inductive client_step :: "VpnClient \<Rightarrow> VpnClient \<Rightarrow> bool" where
  result: "cl_connector c = Some True \<Longrightarrow> client_step c (endpoint_connector_handler ca r (c\<lparr>cl_connector := Some False\<rparr>))"
| task: "t \<in> set (deferred_tasks c) \<Longrightarrow> client_step c (run_client_task ca t c)"
| upstream: "cl_upstream c = Some True \<Longrightarrow> vpn_upstream_handler ca what c = Some c' \<Longrightarrow> client_step c c'"
| direct: "client_step c (direct_upstream_handler what c)"
| resolver: "dns_health_check_id c \<Longrightarrow> client_step c (dns_resolver_handler success c)"

lemma client_step_cl_step: "client_step c c' \<Longrightarrow> cl_step c c'"
  by (induction rule: client_step.induct) (auto intro: cl_step.intros)

fun raised :: "ClCall list \<Rightarrow> RaisedEvent list" where
  "raised [] = []"
| "raised (CL_raise r # xs) = r # raised xs"
| "raised (_ # xs) = raised xs"

lemma raised_append [simp]: "raised (xs @ ys) = raised xs @ raised ys"
  by (induction xs rule: raised.induct) simp_all

abbreviation reports :: "VpnClient \<Rightarrow> RaisedEvent list" where
  "reports c \<equiv> raised (cl_calls c)"

text \<open>The reports that go with a change of the state.\<close>

definition reported_change :: "ClState \<Rightarrow> RaisedEvent list \<Rightarrow> ClState \<Rightarrow> bool" where
  "reported_change s rs s' \<longleftrightarrow>
     (s' = s \<or> s = S_CONNECTED \<and> s' = S_DISCONNECTING) \<and> (rs = [] \<or> rs = [CL_EVENT_DNS_UPSTREAM_UNAVAILABLE]) \<or>
     s = S_CONNECTING \<and> s' = S_CONNECTED \<and>
       (rs = [CL_EVENT_CONNECTED] \<or> rs = [CL_EVENT_CONNECTED, CL_EVENT_DNS_UPSTREAM_UNAVAILABLE]) \<or>
     s' = S_DISCONNECTED \<and> (rs = [CL_EVENT_DISCONNECTED] \<or> (\<exists>e. rs = [CL_EVENT_ERROR e]))"

definition steps_with_report :: "ClState \<Rightarrow> VpnClient \<Rightarrow> VpnClient \<Rightarrow> bool" where
  "steps_with_report s c c' \<longleftrightarrow> (\<exists>s' rs. cl_state c' = cls s' \<and> reports c' = reports c @ rs \<and> reported_change s rs s')"

lemma observed [simp]:
  "cl_state (cl_emit x c) = cl_state c" "cl_state (on_tunnel x c) = cl_state c" "cl_state (on_upstream x c) = cl_state c"
  "cl_state (cl_enter s c) = cls s" "reports (cl_enter s c) = reports c"
  "reports (cl_emit x c) = reports c @ raised [x]"
  by (simp_all add: cl_emit_def on_tunnel_def on_upstream_def cl_enter_def)

lemma reports_on [simp]:
  "raised [x] = [] \<Longrightarrow> reports (on_tunnel x c) = reports c" "raised [x] = [] \<Longrightarrow> reports (on_upstream x c) = reports c"
  by (simp_all add: on_tunnel_def on_upstream_def)

lemma reports_actions [simp]:
  "reports (run_disconnect c d) = reports c" "reports (submit_disconnect c d) = reports c"
  "reports (raise_disconnected c d) =
     reports c @ [case cl_pending_error c of None \<Rightarrow> CL_EVENT_DISCONNECTED | Some e \<Rightarrow> CL_EVENT_ERROR e]"
  by (simp_all add: run_disconnect_def submit_disconnect_def raise_disconnected_def Let_def drop_dns_listener_def
      close_upstream_def drop_connector_def note_client_error_def split: ClData.splits option.splits)

lemma ending_reported:
  "steps_with_report s c (raise_disconnected (cl_enter S_DISCONNECTED c') d)" if "reports c' = reports c"
  using that unfolding steps_with_report_def
  by (auto simp: reported_change_def split: option.splits intro!: exI [of _ S_DISCONNECTED])

lemma same_reported: "cl_state c' = cls s \<Longrightarrow> reports c' = reports c \<Longrightarrow> steps_with_report s c c'"
  unfolding steps_with_report_def reported_change_def by (auto intro!: exI [of _ s])

lemma reported_cong:
  assumes "steps_with_report s c c'" "cl_state d' = cl_state c'" "reports d' = reports c'" "reports d = reports c"
  shows "steps_with_report s d d'"
  using assms by (simp add: steps_with_report_def)

lemma submitted_reported:
  assumes "s = S_CONNECTED" "reports c' = reports c"
  shows "steps_with_report s c (cl_enter S_DISCONNECTING (submit_disconnect c' d))"
  using assms unfolding steps_with_report_def reported_change_def by (auto intro!: exI [of _ S_DISCONNECTING])

lemma start_dns_observed [simp]:
  "cl_state (snd (start_dns_proxy_listener a c)) = cl_state c" "reports (snd (start_dns_proxy_listener a c)) = reports c"
  by (simp_all add: start_dns_proxy_listener_def Let_def)

lemma result_reported:
  assumes "cl_ok s c"
  shows "steps_with_report s c (endpoint_connector_handler ca r (c\<lparr>cl_connector := b\<rparr>))"
proof (rule same_reported)
  let ?c = "c\<lparr>cl_connector := b, cl_pending_error := None, cl_upstream := Some True\<rparr>"
  obtain e c' where d: "start_dns_proxy_listener ca ?c = (e, c')" by fastforce
  have c': "cl_state c' = cl_state c" "reports c' = reports c" using start_dns_observed [of ca ?c] by (simp_all add: d)
  have st: "cl_state c = cls s" using assms by (simp add: cl_ok_def)
  show "cl_state (endpoint_connector_handler ca r (c\<lparr>cl_connector := b\<rparr>)) = cls s"
    "reports (endpoint_connector_handler ca r (c\<lparr>cl_connector := b\<rparr>)) = reports c"
    using c' st by (cases r; simp add: endpoint_connector_handler_def Let_def d)+
qed

lemma finish_listening_observed:
  "cl_state (finish_listening a c) = cl_state c"
  "reports (finish_listening a c) = reports c \<or> reports (finish_listening a c) = reports c @ [CL_EVENT_DNS_UPSTREAM_UNAVAILABLE]"
  by (auto simp: finish_listening_def do_dns_upstream_health_check_def Let_def)

lemma finalizer_reported:
  assumes "cl_ok S_CONNECTING c"
  shows "steps_with_report S_CONNECTING c (endpoint_connector_finalizer a (c\<lparr>deferred_tasks := ts\<rparr>))"
proof -
  let ?c1 = "c\<lparr>deferred_tasks := ts, cl_connector := None\<rparr>"
  let ?c2 = "on_tunnel (CL_tunnel_event SERVER_EVENT_SESSION_OPENED) ?c1"
  have p1: "cl_perform a E_SESSION_CLOSED ClNone ?c1 = cl_effect a S_CONNECTING E_SESSION_CLOSED ClNone ?c1"
    by (rule cl_perform_effect) (use assms in \<open>simp_all add: cl_ok_def\<close>)
  have p2: "cl_perform a E_SESSION_OPENED ClNone ?c2 = cl_effect a S_CONNECTING E_SESSION_OPENED ClNone ?c2"
    by (rule cl_perform_effect) (use assms in \<open>simp_all add: cl_ok_def on_tunnel_def cl_emit_def\<close>)
  let ?c3 = "raise_connected (cl_enter S_CONNECTED ?c2) ClNone"
  have c3: "cl_state ?c3 = cls S_CONNECTED" "reports ?c3 = reports c @ [CL_EVENT_CONNECTED]"
    by (simp_all add: raise_connected_def)
  have up: "steps_with_report S_CONNECTING c ?c3" "steps_with_report S_CONNECTING c (finish_listening a ?c3)"
    unfolding steps_with_report_def reported_change_def
    using c3 finish_listening_observed [of a ?c3] by (auto intro!: exI [of _ S_CONNECTED])
  have down: "steps_with_report S_CONNECTING c (cl_perform a E_SESSION_CLOSED ClNone ?c1)"
    unfolding p1 cl_effect.simps by (rule ending_reported) simp
  show ?thesis using up down by (simp add: endpoint_connector_finalizer_def Let_def p2)
qed

lemma task_reported:
  assumes "cl_ok s c" "t \<in> set (deferred_tasks c)"
  shows "steps_with_report s c (run_client_task a t c)"
proof (cases t)
  case CT_finalizer
  then have "s = S_CONNECTING" using assms by (auto simp: cl_ok_def)
  then show ?thesis using finalizer_reported assms(1) CT_finalizer by (simp add: run_client_task_def)
next
  case CT_health_check
  then show ?thesis using assms(1)
    by (intro same_reported) (auto simp: run_client_task_def run_health_check_def cl_ok_def Let_def)
next
  case CT_disconnect
  let ?c = "c\<lparr>deferred_tasks := remove1 CT_disconnect (deferred_tasks c)\<rparr>"
  have p: "cl_perform a E_DEFERRED_DISCONNECT ClNone ?c = cl_effect a s E_DEFERRED_DISCONNECT ClNone ?c"
    by (rule cl_perform_effect) (use assms(1) in \<open>simp_all add: cl_ok_def\<close>)
  have st: "cl_state c = cls s" using assms(1) by (simp add: cl_ok_def)
  show ?thesis
    using CT_disconnect p st by (cases s) (auto simp: run_client_task_def intro!: same_reported ending_reported)
qed

lemma upstream_reported:
  assumes "cl_ok s c" "vpn_upstream_handler a what c = Some c'"
  shows "steps_with_report s c c'"
proof -
  define c1 where "c1 = (if is_session_end what then on_tunnel CL_tunnel_before_disconnect c else c)"
  define c2 where "c2 = on_tunnel (CL_tunnel_event what) c1"
  have "cl_ok s c1" using assms(1) by (simp add: c1_def cl_ok_intros neutral_def)
  then have c2: "cl_ok s c2" by (simp add: c2_def cl_ok_intros neutral_def)
  have r2: "reports c2 = reports c" "cl_state c2 = cls s" using c2 by (simp_all add: c1_def c2_def cl_ok_def)
  have closing: "cl_perform a E_SESSION_CLOSED ClNone (c2\<lparr>cl_upstream := Some False\<rparr>) =
      cl_effect a s E_SESSION_CLOSED ClNone (c2\<lparr>cl_upstream := Some False\<rparr>)"
    by (rule cl_perform_effect) (use c2 in \<open>simp_all add: cl_ok_def\<close>)
  have closed: "steps_with_report s c (cl_perform a E_SESSION_CLOSED ClNone (c2\<lparr>cl_upstream := Some False\<rparr>))"
    unfolding closing by (cases s) (auto simp: r2 intro!: ending_reported)
  have err: "steps_with_report s c (cl_perform a ev (ClError e) c2)" if "ev = E_HEALTH_CHECK_ERROR \<or> ev = E_SESSION_ERROR" for ev e
    unfolding cl_ok_perform [OF c2] using that r2 by (cases s) (auto intro: same_reported submitted_reported)
  have same: "steps_with_report s c c2" using r2 by (rule same_reported [rotated])
  have after: "steps_with_report s c (on_tunnel CL_tunnel_after_disconnect x)" if "steps_with_report s c x" for x
    by (rule reported_cong [OF that]) simp_all
  show ?thesis
    using assms(2) closed err same after
    unfolding vpn_upstream_handler_def c1_def [symmetric] c2_def [symmetric] Let_def
    by (auto split: if_splits ServerEvent.splits)
qed

lemma client_step_reported:
  assumes "client_step c c'" "cl_ok s c"
  obtains s' rs where "cl_ok s' c'" "reports c' = reports c @ rs" "reported_change s rs s'"
proof -
  have st: "cl_state c = cls s" using assms(2) by (simp add: cl_ok_def)
  have "steps_with_report s c c'"
    using assms(1)
  proof cases
    case (direct what)
    then show ?thesis using st
      by (intro same_reported) (auto simp: direct_upstream_handler_def split: ServerEvent.splits)
  next
    case (resolver success)
    then show ?thesis using st
      by (auto simp: dns_resolver_handler_def Let_def steps_with_report_def reported_change_def intro!: exI [of _ s])
  qed (use assms(2) result_reported task_reported upstream_reported in auto)
  moreover have "cl_inv c'" using cl_step_inv [OF client_step_cl_step [OF assms(1)]] assms(2) by (auto simp: cl_inv_def)
  ultimately show thesis using that by (auto simp: steps_with_report_def cl_inv_def cl_ok_def)
qed

section \<open>The manager handles a report\<close>

text \<open>Handling a report, the manager makes no call that concerns the machine of the client.\<close>

fun harmless :: "Call \<Rightarrow> bool" where
  "harmless (C_client_connect cfg t) = False"
| "harmless C_client_disconnect = False"
| "harmless C_client_finalize = False"
| "harmless C_client_listen = False"
| "harmless _ = True"

definition calm :: "Vpn \<Rightarrow> Vpn \<Rightarrow> bool" where
  "calm v w \<longleftrightarrow> client_state w = client_state v \<and> (\<exists>ds. calls w = ds @ calls v \<and> (\<forall>x \<in> set ds. harmless x))"

lemma calm_refl [simp, intro]: "calls w = calls v \<Longrightarrow> client_state w = client_state v \<Longrightarrow> calm v w"
  by (auto simp: calm_def intro!: exI [of _ "[]"])

lemma calm_trans: "calm v w \<Longrightarrow> calm w x \<Longrightarrow> calm v x"
  unfolding calm_def by (elim conjE exE, rename_tac ds es, intro conjI, simp, rule_tac x = "es @ ds" in exI) auto

lemma calm_cong:
  assumes "calm v w" "calls v' = calls v" "client_state v' = client_state v" "calls w' = calls w"
    "client_state w' = client_state w"
  shows "calm v' w'"
  using assms by (simp add: calm_def)

lemma calm_call: "calls w = x # calls v \<Longrightarrow> client_state w = client_state v \<Longrightarrow> harmless x \<Longrightarrow> calm v w"
  by (auto simp: calm_def intro!: exI [of _ "[x]"])

lemma calm_requests: "calm v (complete_postponed_requests v)" "calm v (reset_bypassed_connections v)"
  by (auto simp: calm_def complete_postponed_requests_eq reset_bypassed_connections_eq)

lemma calm_stop_pinging: "calm v (stop_pinging v)"
  by (cases "pinger v = PingerNone") (auto simp: stop_pinging_def destroy_pinger_def emit_def intro: calm_call)

lemma calm_raise_state: "calm v (raise_state v d)"
  by (auto simp: raise_state_def Let_def emit_def intro: calm_call)

lemma calm_disconnect: "client_state v = CLIS_DISCONNECTED \<Longrightarrow> calm v (disconnect v)"
  using calm_stop_pinging [of v] by (auto simp: disconnect_def disconnect_client_def calm_def)

lemma calm_complete_connect:
  assumes "client_state v = CLIS_DISCONNECTED \<or> \<not> has_error d"
  shows "calm v (complete_connect v d)"
proof -
  let ?f = "fail_with_error v d"
  have fail: "calm v ?f"
    unfolding fail_with_error_def using assms by (auto intro: calm_cong [OF calm_disconnect])
  have attempts: "calm ?f ((note_attempts_exceeded ?f d)\<lparr>recovery := recovery_init\<rparr>)"
    by (auto simp: note_attempts_exceeded_def)
  have health: "calm w (check_health_if_ok w)" for w
    by (auto simp: check_health_if_ok_def emit_def intro: calm_call)
  from calm_trans [OF calm_trans [OF fail attempts] health] show ?thesis by (simp add: complete_connect_def)
qed

lemma calm_finalize_recovery: "calm v (finalize_recovery v d)"
proof -
  have "calm v ((emit C_update_bypass_ip v)\<lparr>recovery := recovery_init\<rparr>)" by (rule calm_call) (auto simp: emit_def)
  from calm_trans [OF this calm_stop_pinging]
  have "calm v ((stop_pinging ((emit C_update_bypass_ip v)\<lparr>recovery := recovery_init\<rparr>))\<lparr>postponement_window_timer := None\<rparr>)"
    by (rule calm_cong) auto
  from calm_trans [OF calm_trans [OF this calm_requests(1)] calm_requests(2)]
  show ?thesis by (simp add: finalize_recovery_def)
qed

lemma calm_when_disconnected:
  assumes "client_state v = CLIS_DISCONNECTED"
  shows "calm v (do_disconnect v d)" "calm v (prepare_for_recovery v d)" "calm v (retry_connect v d)"
proof -
  show "calm v (do_disconnect v d)"
    by (rule calm_cong [OF calm_disconnect [of "v\<lparr>recovery := recovery_init\<rparr>"]]) (simp_all add: do_disconnect_def assms)
  have "calm v (note_error v d)" by (auto simp: note_error_def)
  moreover from this assms have "client_state (note_error v d) = CLIS_DISCONNECTED" by (simp add: calm_def)
  ultimately have "calm v (disconnect (note_error v d))" using calm_disconnect calm_trans by blast
  moreover have "calm w (initiate_recovery w)" for w by (auto simp: initiate_recovery_def submit_def)
  ultimately show "calm v (prepare_for_recovery v d)" unfolding prepare_for_recovery_def by (rule calm_trans)
  have "calm v (use_connect_attempt v)" by (cases "connect_retry_info v") (auto simp: use_connect_attempt_def)
  moreover from this assms have "client_state (use_connect_attempt v) = CLIS_DISCONNECTED" by (simp add: calm_def)
  ultimately have "calm v (disconnect (use_connect_attempt v))" using calm_disconnect calm_trans by blast
  then show "calm v (retry_connect v d)" by (rule calm_cong) (simp_all add: retry_connect_def submit_def)
qed

lemma calm_enter:
  assumes "calm v (act v d)"
  shows "calm v (enter s act d v)"
proof -
  have "calm v (fsm_update f (act v d))" for f by (rule calm_cong [OF assms]) simp_all
  then show ?thesis unfolding enter_def using calm_trans calm_raise_state by blast
qed

fun report_event :: "RaisedEvent \<Rightarrow> ClientEvent" where
  "report_event CL_EVENT_CONNECTED = EVENT_CONNECTED"
| "report_event CL_EVENT_DISCONNECTED = EVENT_DISCONNECTED"
| "report_event (CL_EVENT_ERROR e) = EVENT_ERROR e"
| "report_event CL_EVENT_DNS_UPSTREAM_UNAVAILABLE = EVENT_DNS_UPSTREAM_UNAVAILABLE"

fun picture_after :: "RaisedEvent \<Rightarrow> ClientConnectionState \<Rightarrow> ClientConnectionState" where
  "picture_after CL_EVENT_CONNECTED s = CLIS_CONNECTED"
| "picture_after CL_EVENT_DISCONNECTED s = CLIS_DISCONNECTED"
| "picture_after (CL_EVENT_ERROR e) s = CLIS_DISCONNECTED"
| "picture_after CL_EVENT_DNS_UPSTREAM_UNAVAILABLE s = s"

lemma report_calm:
  assumes "session_inv v"
  shows "calm (v\<lparr>client_state := picture_after r (client_state v)\<rparr>) (client_handler a (report_event r) v)"
proof -
  obtain s where s: "idle v" "vs v = ss s" using assms by (rule session_invE)
  let ?d = "v\<lparr>client_state := CLIS_DISCONNECTED\<rparr>" and ?c = "v\<lparr>client_state := CLIS_CONNECTED\<rparr>"
  have d: "idle ?d" "vs ?d = ss s" "client_state ?d = CLIS_DISCONNECTED" and c: "idle ?c" "vs ?c = ss s" using s by simp_all
  have lost: "calm ?d (perform a CE_CLIENT_DISCONNECTED d ?d)" for d
  proof -
    have "calm ?d (enter VPN_SS_DISCONNECTED complete_connect d ?d)" by (rule calm_enter, rule calm_complete_connect) simp
    moreover have "calm ?d (enter VPN_SS_DISCONNECTED do_disconnect d ?d)"
      by (rule calm_enter, rule calm_when_disconnected(1)) simp
    moreover have "calm ?d (enter VPN_SS_WAITING_RECOVERY prepare_for_recovery d ?d)"
      by (rule calm_enter, rule calm_when_disconnected(2)) simp
    moreover have "calm ?d (retry_connect ?d d)" by (rule calm_when_disconnected(3)) simp
    ultimately show ?thesis unfolding on_client_disconnected [OF d(1,2)] by (cases s) simp_all
  qed
  have ready: "calm ?c (perform a CE_CLIENT_READY NoData ?c)"
  proof -
    have "\<not> has_error NoData" by (simp add: has_error_def)
    then have "calm ?c (enter VPN_SS_CONNECTED complete_connect NoData ?c)" by (intro calm_enter calm_complete_connect) simp
    moreover have "calm ?c (enter VPN_SS_CONNECTED finalize_recovery NoData ?c)" by (intro calm_enter calm_finalize_recovery)
    ultimately show ?thesis unfolding on_client_ready [OF c] by simp
  qed
  show ?thesis using lost ready by (cases r) (auto simp: emit_def intro: calm_call)
qed

section \<open>The system\<close>

text \<open>
  A step of the manager, whose calls the client then runs; a step of the client, whose reports
  the manager handles and whose calls in return the client runs; or an event that the tunnel or a socket below the
  client raises. A report is handled inside the operation of the client that raises it; by
  \<open>report_calm\<close> it makes no difference that it is handled at its end here.
\<close>

definition handle_reports :: "Answers \<Rightarrow> RaisedEvent list \<Rightarrow> Vpn \<Rightarrow> Vpn" where
  "handle_reports a rs v = fold (\<lambda>r. client_handler a (report_event r)) rs v"

definition forwarded_event :: "ClientEvent \<Rightarrow> bool" where
  "forwarded_event e \<longleftrightarrow> e \<noteq> EVENT_CONNECTED \<and> e \<noteq> EVENT_DISCONNECTED \<and> (\<forall>x. e \<noteq> EVENT_ERROR x) \<and>
     e \<noteq> EVENT_DNS_UPSTREAM_UNAVAILABLE"

inductive sys_reachable :: "Vpn \<Rightarrow> VpnClient \<Rightarrow> bool" where
  start: "sys_reachable (Vpn_new kill_switch t) (ready_client kill_switch tmp_files)"
| manager: "sys_reachable v c \<Longrightarrow> manager_step a v v' \<Longrightarrow> calls v' = ds @ calls v \<Longrightarrow>
    client_follows a ca has_dns ds c = Some c' \<Longrightarrow> sys_reachable v' c'"
| client: "sys_reachable v c \<Longrightarrow> client_step c c1 \<Longrightarrow>
    v' = handle_reports a (drop (length (reports c)) (reports c1)) v \<Longrightarrow> calls v' = ds @ calls v \<Longrightarrow>
    client_follows a ca has_dns ds c1 = Some c' \<Longrightarrow> sys_reachable v' c'"
| forwarded: "sys_reachable v c \<Longrightarrow> forwarded_event e \<Longrightarrow> sys_reachable (client_handler a e v) c"

lemma cl_ok_cl_state: "cl_ok s c \<Longrightarrow> cl_state c = cls s"
  by (simp add: cl_ok_def)

lemma neutral_call_ok:
  assumes "cl_ok s c" "cl_step c c'" "cl_state c' = cl_state c"
  shows "cl_ok s c'"
proof -
  have "cl_inv c" using assms(1) unfolding cl_inv_def by blast
  then obtain s' where s': "cl_ok s' c'" using cl_step_inv [OF assms(2)] unfolding cl_inv_def by blast
  have "cls s' = cls s" using cl_ok_cl_state [OF assms(1)] cl_ok_cl_state [OF s'] assms(3) by simp
  then show ?thesis using s' by simp
qed

lemma client_call_fits:
  assumes "cl_reachable c" "cl_ok s c" "fits q s" "proper_call x" "same_answer a ca has_dns x c"
  shows "cl_reachable (client_call ca has_dns x c) \<and>
    (\<exists>s'. cl_ok s' (client_call ca has_dns x c) \<and> fits (picture (connect_result a) x q) s')"
proof -
  have quiet: "cl_reachable c' \<and> (\<exists>s'. cl_ok s' c' \<and> fits q s')" if "cl_step c c'" "cl_state c' = cl_state c" for c'
    using that assms(1-3) cl_reachable_step neutral_call_ok by blast
  have same: "cl_reachable c \<and> (\<exists>s'. cl_ok s' c \<and> fits q s')" using assms(1-3) by blast
  note defs = submit_health_check_def cl_reset_connections_def cl_update_exclusions_def cl_on_network_change_def
    cl_handle_sleep_def cl_handle_wake_def handle_power_event_def process_client_packets_def
  show ?thesis
  proof (cases x)
    case (C_client_connect cfg t)
    obtain e c' where cc: "cl_connect ca (ec_protocol cfg) None t c = (e, c')" by fastforce
    have up: "make_upstream (ec_protocol cfg)" using assms(4) C_client_connect by simp
    have "cl_step c c'" using cl_step.connect [of "ec_protocol cfg" None c ca t] up cc by simp
    then have "cl_reachable c'" by (rule cl_reachable_step [OF assms(1)])
    moreover have "connect_result a = e" using assms(5) C_client_connect cc by simp
    moreover note connect_outcome [OF assms(2) up cc] assms(3)
    ultimately show ?thesis using C_client_connect cc by (cases "code e = VPN_EC_NOERROR") auto
  next
    case C_client_disconnect
    have "cl_reachable (cl_disconnect c ca)" by (rule cl_reachable_step [OF assms(1) cl_step.disconnect])
    then show ?thesis using C_client_disconnect cl_ok_disconnect_any [OF assms(2), of ca] by auto
  next
    case C_client_listen
    have "cl_reachable (snd (cl_listen ca has_dns c))" by (rule cl_reachable_step [OF assms(1) cl_step.listen])
    moreover have "\<exists>s'. cl_ok s' (snd (cl_listen ca has_dns c)) \<and> fits q s'"
      using listen_ok [OF assms(2), of ca has_dns] assms(3)
      by (cases q) (auto simp: same_or_ending_def session_up_def)
    ultimately show ?thesis using C_client_listen by simp
  next
    case (C_connection_stats e)
    show ?thesis
    proof (cases "code e = VPN_EC_NOERROR \<and> cl_get_state c = cls S_CONNECTED")
      case True
      then have "cl_get_connection_stats c = Some (on_upstream CL_upstream_stats c)"
        by (simp add: cl_get_connection_stats_def)
      then show ?thesis using C_connection_stats True quiet [OF cl_step.stats] by simp
    next
      case False
      then have "client_call ca has_dns x c = c" using C_connection_stats by (auto simp: cl_get_connection_stats_def)
      then show ?thesis using same C_connection_stats by simp
    qed
  next
    case C_health_check
    then show ?thesis using quiet [OF cl_step.health_check] by (simp add: defs)
  next
    case (C_reset_connections uid)
    then show ?thesis using quiet [OF cl_step.reset [of c uid]] by (simp add: defs)
  next
    case (C_update_exclusions m ex)
    then show ?thesis using quiet [OF cl_step.exclusions] by (simp add: defs)
  next
    case C_network_change
    then show ?thesis using quiet [OF cl_step.network] by (simp add: defs)
  next
    case C_handle_sleep
    then show ?thesis using quiet [OF cl_step.sleep] by (simp add: defs)
  next
    case C_handle_wake
    then show ?thesis using quiet [OF cl_step.wake] by (simp add: defs)
  next
    case (C_client_packets ps)
    then show ?thesis using quiet [OF cl_step.packets] by (simp add: defs)
  next
    case C_client_finalize
    then show ?thesis using assms(4) by simp
  qed (use same in simp_all)
qed

lemma client_follows_fits:
  assumes "cl_reachable c" "cl_ok s c" "fits q s" "\<forall>x \<in> set ds. proper_call x"
    "client_follows a ca has_dns ds c = Some c'"
  shows "cl_reachable c' \<and> (\<exists>s'. cl_ok s' c' \<and> fits (foldr (picture (connect_result a)) ds q) s')"
  using assms(4,5)
proof (induction ds arbitrary: c')
  case Nil
  then show ?case using assms(1-3) by auto
next
  case (Cons x ds)
  then obtain c1 where c1: "client_follows a ca has_dns ds c = Some c1" "same_answer a ca has_dns x c1"
    "c' = client_call ca has_dns x c1" by (auto split: option.splits if_splits)
  then obtain s1 where "cl_reachable c1" "cl_ok s1 c1" "fits (foldr (picture (connect_result a)) ds q) s1"
    using Cons by auto
  from client_call_fits [OF this _ c1(2)] show ?case using Cons.prems(1) c1(3) by simp
qed

lemma harmless_neutral: "harmless x \<Longrightarrow> proper_call x" "harmless x \<Longrightarrow> picture e x q = q"
  by (cases x; simp)+

text \<open>Handling the reports that go with a change of the client's state.\<close>

definition handled :: "Vpn \<Rightarrow> ClientConnectionState \<Rightarrow> Vpn \<Rightarrow> bool" where
  "handled v q w \<longleftrightarrow> vpn_reachable w \<and> client_state w = q \<and> (\<exists>ds. calls w = ds @ calls v \<and> (\<forall>x \<in> set ds. harmless x))"

lemma handled_report:
  assumes "handled v q w" "r = CL_EVENT_CONNECTED \<Longrightarrow> q = CLIS_CONNECTING"
  shows "handled v (picture_after r q) (client_handler a (report_event r) w)"
proof -
  have w: "vpn_reachable w" "client_state w = q" using assms(1) by (simp_all add: handled_def)
  have "vpn_step w (client_handler a (report_event r) w)"
  proof (cases "r = CL_EVENT_CONNECTED")
    case True
    then show ?thesis using assms(2) w(2) step_client_connected [of w a] by simp
  next
    case False
    then have "report_event r \<noteq> EVENT_CONNECTED" by (cases r) simp_all
    then show ?thesis by (rule step_client_event)
  qed
  then have "vpn_reachable (client_handler a (report_event r) w)" by (rule reach_step [OF w(1)])
  moreover note report_calm [OF vpn_reachable_inv [OF w(1)], of r a]
  moreover obtain ds where "calls w = ds @ calls v" "\<forall>x \<in> set ds. harmless x" using assms(1) by (auto simp: handled_def)
  ultimately show ?thesis using w(2) unfolding handled_def calm_def by (elim conjE exE) (auto simp del: client_handler.simps)
qed

lemma handled_change:
  assumes "vpn_reachable v" "fits (client_state v) s" "reported_change s rs s'"
  shows "\<exists>q. handled v q (handle_reports a rs v) \<and> fits q s'"
proof -
  have v: "handled v (client_state v) v" using assms(1) by (auto simp: handled_def)
  have one: "handled v (picture_after r (client_state v)) (handle_reports a [r] v)"
    if "r = CL_EVENT_CONNECTED \<Longrightarrow> client_state v = CLIS_CONNECTING" for r
    unfolding handle_reports_def using handled_report [OF v that] by simp
  have conn: "client_state v = CLIS_CONNECTING" if "s = S_CONNECTING"
    using assms(2) that by (cases "client_state v") (simp_all add: session_up_def)
  have dns: "handled v q (client_handler a EVENT_DNS_UPSTREAM_UNAVAILABLE w)" if "handled v q w" for q w
    using handled_report [OF that, of CL_EVENT_DNS_UPSTREAM_UNAVAILABLE a] by (simp del: client_handler.simps)
  have same: "fits (client_state v) s'" if "s' = s \<or> s = S_CONNECTED \<and> s' = S_DISCONNECTING"
    using assms(2) that by (cases "client_state v") (auto simp: session_up_def)
  from assms(3) consider
      (quiet) "s' = s \<or> s = S_CONNECTED \<and> s' = S_DISCONNECTING" "rs = []"
    | (dns) "s' = s \<or> s = S_CONNECTED \<and> s' = S_DISCONNECTING" "rs = [CL_EVENT_DNS_UPSTREAM_UNAVAILABLE]"
    | (up) "s = S_CONNECTING" "s' = S_CONNECTED" "rs = [CL_EVENT_CONNECTED]"
    | (up_dns) "s = S_CONNECTING" "s' = S_CONNECTED" "rs = [CL_EVENT_CONNECTED, CL_EVENT_DNS_UPSTREAM_UNAVAILABLE]"
    | (down) r where "s' = S_DISCONNECTED" "rs = [r]" "r = CL_EVENT_DISCONNECTED \<or> (\<exists>e. r = CL_EVENT_ERROR e)"
    unfolding reported_change_def by blast
  then show ?thesis
  proof cases
    case quiet
    then show ?thesis using v same by (auto simp: handle_reports_def)
  next
    case dns
    then show ?thesis using one [of CL_EVENT_DNS_UPSTREAM_UNAVAILABLE] same by (auto simp del: client_handler.simps)
  next
    case up
    then show ?thesis using one [of CL_EVENT_CONNECTED] conn
      by (auto simp: session_up_def simp del: client_handler.simps intro!: exI [of _ CLIS_CONNECTED])
  next
    case up_dns
    have "handled v CLIS_CONNECTED (handle_reports a [CL_EVENT_CONNECTED] v)"
      using one [of CL_EVENT_CONNECTED] conn up_dns by (simp del: client_handler.simps)
    from dns [OF this] up_dns show ?thesis
      by (auto simp: handle_reports_def session_up_def simp del: client_handler.simps intro!: exI [of _ CLIS_CONNECTED])
  next
    case (down r)
    then show ?thesis using one [of r] by (auto simp del: client_handler.simps intro!: exI [of _ CLIS_DISCONNECTED])
  qed
qed

lemma forwarded_handler:
  assumes "forwarded_event e"
  shows "\<exists>x. client_handler a e v = emit (C_forward x) v"
  using assms by (cases e) (auto simp: forwarded_event_def)

lemma sys_inv:
  assumes "sys_reachable v c"
  shows "vpn_reachable v \<and> cl_reachable c \<and> (\<exists>s. cl_ok s c \<and> fits (client_state v) s)"
  using assms
proof induction
  case (start k t tmp)
  obtain s where s: "cl_ok s (ready_client k tmp)" using cl_reachable_new by (rule cl_reachable_inv)
  have "cl_state (ready_client k tmp) = cls S_DISCONNECTED" by (simp add: ready_client_defs)
  then have "s = S_DISCONNECTED" using cl_ok_cl_state [OF s] by (simp del: cls.simps)
  then have "cl_ok S_DISCONNECTED (ready_client k tmp)" using s by simp
  then show ?case using reach_init cl_reachable_new by (auto simp: Vpn_new_def intro!: exI [of _ S_DISCONNECTED])
next
  case (manager v c a v' ds ca has_dns c')
  then obtain s where s: "vpn_reachable v" "cl_reachable c" "cl_ok s c" "fits (client_state v) s" by blast
  have r: "vpn_reachable v'" using reach_step [OF s(1) manager_step_vpn_step [OF manager(2)]] .
  have idle: "idle v" using session_invE [OF vpn_reachable_inv [OF s(1)]] by metis
  obtain es where es: "calls v' = es @ calls v" "client_state v' = foldr (picture (connect_result a)) es (client_state v)"
    "\<forall>x \<in> set es. proper_call x" using manager_step_tracked [OF manager(2) idle] unfolding tracked_def by blast
  have "es = ds" using es(1) manager(3) by simp
  then show ?case using r client_follows_fits [OF s(2-4), of ds] es manager(4) by auto
next
  case (client v c c1 v' a ds ca has_dns c')
  then obtain s where s: "vpn_reachable v" "cl_reachable c" "cl_ok s c" "fits (client_state v) s" by blast
  obtain s1 rs where s1: "cl_ok s1 c1" "reports c1 = reports c @ rs" "reported_change s rs s1"
    using client_step_reported [OF client(2) s(3)] .
  have c1: "cl_reachable c1" using cl_reachable_step [OF s(2) client_step_cl_step [OF client(2)]] .
  have v': "v' = handle_reports a rs v" using client(3) s1(2) by simp
  obtain q where q: "handled v q v'" "fits q s1" using handled_change [OF s(1,4) s1(3)] unfolding v' by blast
  obtain es where es: "calls v' = es @ calls v" "\<forall>x \<in> set es. harmless x" using q(1) unfolding handled_def by blast
  have ds: "es = ds" using es(1) client(4) by simp
  have q': "vpn_reachable v'" "client_state v' = q" using q(1) by (simp_all add: handled_def)
  have "foldr (picture (connect_result a)) ds q = q" using es(2) ds by (intro foldr_picture_other) (simp add: harmless_neutral)
  then show ?case using client_follows_fits [OF c1 s1(1) q(2), of ds a ca has_dns c'] es(2) ds harmless_neutral(1) client(5) q' by auto
next
  case (forwarded v c e a)
  have "e \<noteq> EVENT_CONNECTED" using forwarded(2) by (simp add: forwarded_event_def)
  then have "vpn_reachable (client_handler a e v)" using reach_step step_client_event forwarded(3) by blast
  moreover have "client_state (client_handler a e v) = client_state v"
    using forwarded_handler [OF forwarded(2), of a v] by (auto simp: emit_def)
  ultimately show ?case using forwarded(3) by simp
qed

section \<open>A run\<close>

text \<open>The session of \<open>run_connected\<close> with the client of \<open>connected_client\<close>, step by step.\<close>

definition policy :: VpnConnectRetryPolicy where
  "policy = VPN_CRP_FALL_INTO_RECOVERY"

definition busy_client :: VpnClient where
  "busy_client = submit_health_check connected_client"

lemma sys_pinging: "sys_reachable (run_pinging policy) (ready_client True False)"
proof -
  let ?v = "snd (vpn_connect sample_answers True sample_config policy (Vpn_new True 1))"
  have "sys_reachable ?v (ready_client True False)"
    by (rule sys_reachable.manager [OF sys_reachable.start app_connect, where ds = "[]" and ca = good_answers])
      (simp_all add: vpn_connect_def Let_def submit_def)
  then show ?thesis unfolding run_pinging_def
  proof (rule sys_reachable.manager [where a = sample_answers and ca = good_answers and ds = "calls (run_pinging policy)" and has_dns = False])
    show "manager_step sample_answers ?v (run_front sample_answers ?v)" by (rule run_queue) (rule queued_connect)
    show "calls (run_front sample_answers ?v) = calls (run_pinging policy) @ calls ?v"
      by (simp add: run_pinging_def vpn_connect_def Let_def submit_def Vpn_new_def)
    show "client_follows sample_answers good_answers False (calls (run_pinging policy)) (ready_client True False) =
        Some (ready_client True False)" unfolding policy_def by code_simp
  qed
qed

lemma sys_connecting: "sys_reachable (run_client_connecting policy) connecting_client"
proof (rule sys_reachable.manager [OF sys_pinging])
  let ?n = "length (calls (run_client_connecting policy)) - length (calls (run_pinging policy))"
  show "manager_step sample_answers (run_pinging policy) (run_client_connecting policy)"
    unfolding run_client_connecting_def by (rule ping_result) (simp add: policy_def pinging_state)
  show "calls (run_client_connecting policy) = take ?n (calls (run_client_connecting policy)) @ calls (run_pinging policy)"
    unfolding policy_def by code_simp
  show "client_follows sample_answers good_answers False (take ?n (calls (run_client_connecting policy)))
      (ready_client True False) = Some connecting_client"
    unfolding policy_def by code_simp
qed

lemma sys_connected: "sys_reachable run_connected busy_client"
proof -
  let ?c = "endpoint_connector_handler good_answers ConnectedUpstream (connecting_client\<lparr>cl_connector := Some False\<rparr>)"
  have r: "reports connecting_client = []" "reports ?c = []" "CT_finalizer \<in> set (deferred_tasks ?c)"
    unfolding connecting_client_eq by code_simp+
  have "sys_reachable (run_client_connecting policy) ?c"
  proof (rule sys_reachable.client [OF sys_connecting, where ds = "[]" and a = sample_answers and ca = good_answers])
    show "client_step connecting_client ?c" by (rule client_step.result) (simp add: connecting_client_eq)
    show "run_client_connecting policy =
        handle_reports sample_answers (drop (length (reports connecting_client)) (reports ?c)) (run_client_connecting policy)"
      unfolding r by (simp add: handle_reports_def)
  qed simp_all
  then show ?thesis
  proof (rule sys_reachable.client)
    let ?n = "length (calls run_connected) - length (calls (run_client_connecting policy))"
    show "client_step ?c connected_client" unfolding connected_client_def by (rule client_step.task) (rule r)
    have "reports connected_client = [CL_EVENT_CONNECTED]" by (simp add: connected_client_eq)
    then show "run_connected = handle_reports sample_answers (drop (length (reports ?c)) (reports connected_client))
        (run_client_connecting policy)"
      by (simp add: r handle_reports_def run_connected_def policy_def)
    show "calls run_connected = take ?n (calls run_connected) @ calls (run_client_connecting policy)"
      unfolding policy_def by code_simp
    show "client_follows sample_answers good_answers False (take ?n (calls run_connected)) connected_client = Some busy_client"
      unfolding policy_def busy_client_def connected_client_eq by code_simp
  qed
qed

text \<open>
  Claim C5: the session manager and the endpoint client, put together, never disagree. In every state of the
  whole system before it is stopped, the manager is in a state of its own model and the client in
  one of its own, so that everything proved about each of them alone holds for the two together, and the manager's
  \<open>client_state\<close> is the state of the client: disconnected, connecting, or in a session. In particular
  the client reports a connection only when the manager is waiting for one.
\<close>

theorem manager_and_client_agree:
  assumes "sys_reachable v c"
  shows "vpn_reachable v \<and> cl_reachable c \<and>
    (client_state v = CLIS_DISCONNECTED \<longleftrightarrow> cl_get_state c = cls S_DISCONNECTED) \<and>
    (client_state v = CLIS_CONNECTING \<longleftrightarrow> cl_get_state c = cls S_CONNECTING) \<and>
    (client_state v = CLIS_CONNECTED \<longleftrightarrow> cl_get_state c = cls S_CONNECTED \<or> cl_get_state c = cls S_DISCONNECTING)"
proof -
  obtain s where s: "cl_ok s c" "fits (client_state v) s" using sys_inv [OF assms] by blast
  show ?thesis
    using sys_inv [OF assms] s(2) unfolding cl_ok_state [OF s(1)] cls_eq_iff
    by (cases "client_state v"; cases s) (simp_all add: session_up_def)
qed

theorem manager_and_client_agree_witness:
  "sys_reachable run_connected busy_client \<and> client_state run_connected = CLIS_CONNECTED \<and>
   cl_get_state busy_client = cls S_CONNECTED"
proof -
  have "cl_get_state busy_client = cls S_CONNECTED"
    by (simp add: busy_client_def submit_health_check_def connected_client_eq cl_get_state_def get_state_def)
  then show ?thesis using manager_and_client_agree [OF sys_connected] sys_connected by simp
qed

definition failed_client :: VpnClient where
  "failed_client = the (vpn_upstream_handler good_answers (SERVER_EVENT_ERROR lost_session) busy_client)"

lemma failed_client_eq:
  "vpn_upstream_handler good_answers (SERVER_EVENT_ERROR lost_session) busy_client = Some failed_client"
  "reports failed_client = reports busy_client" "cl_get_connection_stats failed_client = None"
  unfolding failed_client_def busy_client_def connected_client_eq by code_simp+

text \<open>
  Claim C30: the manager asks the client for the statistics of the connection whenever its session is
  connected, but the client asserts that it is connected itself: after an error of the session, until its deferred
  disconnect runs, it is not, and a request for the statistics in between fails the assertion.
\<close>

theorem stats_request_fails_assertion:
  "\<exists>v c. sys_reachable v c \<and> queue v = [T_connection_stats] \<and> connection_stats_error v = no_error \<and>
     cl_get_connection_stats c = None"
proof (intro exI conjI)
  let ?v = "vpn_request_endpoint_connection_stats run_connected"
  have "cl_upstream busy_client = Some True" by (simp add: busy_client_def submit_health_check_def connected_client_fields)
  then have "client_step busy_client failed_client" using failed_client_eq(1) by (rule client_step.upstream)
  then have "sys_reachable run_connected failed_client"
    by (rule sys_reachable.client [OF sys_connected, where ds = "[]" and a = sample_answers and ca = good_answers])
      (simp_all add: failed_client_eq handle_reports_def)
  then show "sys_reachable ?v failed_client"
  proof (rule sys_reachable.manager [where a = sample_answers and ds = "[]" and ca = good_answers and has_dns = False])
    show "manager_step sample_answers run_connected ?v" by (rule app_stats)
    show "calls ?v = [] @ calls run_connected" by code_simp
  qed simp
  show "queue ?v = [T_connection_stats]" "connection_stats_error ?v = no_error" by code_simp+
  show "cl_get_connection_stats failed_client = None" by (rule failed_client_eq)
qed

end
