(* ===== verification/Spec2Isabelle.thy ===== *)
theory Spec2Isabelle
  imports Vpn_Behaviour Wire_Utils Memfile_Buffer Connection_Log Domain_Filter Upstream_Mux_Properties Udp_Mux_Safety Icmp_Mux Icmp_Manager Event_Loop_Properties Fallback_Connector Vpn_System
begin

text \<open>
  A model of the core of the TrustTunnel client, a VPN client in C++, and what it guarantees.

  \<^bold>\<open>The program and its parts.\<close> An application drives a session through the public interface
  (\<^verbatim>\<open>core/include/vpn/vpn.h\<close>). The session manager (\<^verbatim>\<open>core/src/vpn_manager.cpp\<close>) runs a state
  machine (\<^verbatim>\<open>core/src/vpn_fsm.cpp\<close>) that pings the endpoints of a location, connects, recovers
  lost connections and follows changes of the network. It drives the endpoint client
  (\<^verbatim>\<open>core/src/vpn_client.cpp\<close>), a second state machine, which opens a session with one endpoint
  through a connector (\<^verbatim>\<open>core/src/single_upstream_connector.cpp\<close>,
  \<^verbatim>\<open>core/src/fallbackable_upstream_connector.cpp\<close>, two more machines). Both run on the table driven engine
  of \<^verbatim>\<open>common/src/fsm.cpp\<close>, and everything runs on the event loop of \<^verbatim>\<open>common/src/event_loop.cpp\<close>. Inside
  a session datagrams and echo requests share one HTTP stream each
  (\<^verbatim>\<open>core/src/http_udp_multiplexer.cpp\<close>, \<^verbatim>\<open>core/src/http_icmp_multiplexer.cpp\<close>), in the packet formats
  written by \<^verbatim>\<open>core/include/vpn/internal/wire_utils.h\<close>; \<^verbatim>\<open>core/src/upstream_multiplexer.cpp\<close> spreads the connections over several
  such sessions; \<^verbatim>\<open>core/src/icmp_manager.cpp\<close> matches echo replies
  with requests, \<^verbatim>\<open>core/src/memory_buffer.cpp\<close> and \<^verbatim>\<open>core/src/memfile_buffer.cpp\<close> keep downloaded data, and
  \<^verbatim>\<open>core/src/domain_filter.cpp\<close> decides which connections are excluded. Around the core, the adapters of the platforms keep a log of
  the connections in a file (\<^verbatim>\<open>trusttunnel/src/persistent_ring_buffer.cpp\<close>).

  \<^bold>\<open>The theories.\<close> In all of them a class or struct is a record with the members of the source, an
  enumeration a datatype, an operation a function from the object to the object. A call to
  another part that is not in the same model is recorded in a log (\<open>calls\<close>, \<open>cl_calls\<close>, \<open>cn_calls\<close>), and its answer is an
  argument (\<open>Answers\<close>, \<open>ClAnswers\<close>). A failed assertion, a null dereference or an exception is \<open>None\<close> or a
  special call. Identifiers and sizes that can wrap have their width; times are integers in
  milliseconds or nanoseconds.

    \<^item> \<open>Prelude\<close>, \<open>Common_Utils\<close>, \<open>Std_Map\<close>: shared types, lists, \<open>swap_remove_if\<close>, rounding of scaled
      durations, ordered maps.
    \<^item> \<open>Fsm\<close>: the engine, the validation of a table, and the interface \<open>fsm_host\<close> between a machine and the
      object that contains it. It is interpreted for the session manager (\<open>vf\<close>), the client (\<open>cf\<close>) and the
      connector (\<open>sf\<close>).
    \<^item> \<open>Vpn_State\<close>, \<open>Vpn_Fsm\<close>, \<open>Vpn_Manager\<close>: the session manager: configuration and object,
      conditions, actions and table in the order of the source, tasks, callbacks, public calls and the
      step relation \<open>vpn_step\<close>. \<open>Vpn_Dispatch\<close> computes the effect of each event in each state,
      \<open>Vpn_Control\<close> and \<open>Vpn_Log\<close> are its invariants, on the object and on the log of its calls, and
      \<open>Vpn_Properties\<close> and \<open>Vpn_Behaviour\<close> its properties: a session never gets stuck, the application
      sees the state diagram, the kill switch does not leak, every connection request is answered once, the
      spacing and the bound of the recovery attempts, fatal errors, network changes,
      abandoned endpoints, accepted configurations.
    \<^item> \<open>Single_Connector\<close>, \<open>Fallback_Connector\<close>: the connectors; the interface \<open>endpoint_connector\<close> (a
      running connector stops with exactly one result, and an interrupted one with none), interpreted for both.
    \<^item> \<open>Vpn_Client\<close>: the endpoint client: its machine, operations, steps and invariant: no call through
      a null pointer, an owner whose view is right, no stuck state, a final and silent \<open>disconnect\<close>.
    \<^item> \<open>Vpn_System\<close>: the manager and the client together: the calls of the one run on the other and
      the reports of the other go back. Every run of the two is a run of each model, and the manager's picture of the
      client is right; this discharges the assumption on the client in \<open>vpn_step\<close>.
    \<^item> \<open>Event_Loop\<close>, \<open>Event_Loop_Properties\<close>: the loop with the interleaving of its threads at the granularity
      of its critical sections. It refines an abstract first-in first-out queue; no task is lost or run
      twice, order is kept, a non-empty queue is served in batches of at most 64.
    \<^item> \<open>Wire_Utils\<close>, \<open>Server_Upstream\<close>: readers and writers of packets with their round trips; events
      and addresses of upstreams, and the interface of an incremental reader.
    \<^item> \<open>Upstream_Multiplexer\<close>, \<open>Upstream_Mux_Properties\<close>: the multiplexer of sessions: its tables stay consistent in every run, its
      owner sees sessions begin and end in turn, and what goes wrong while a session is still being opened.
    \<^item> \<open>Udp_Mux\<close>, \<open>Udp_Mux_Reader\<close>, \<open>Udp_Mux_Properties\<close>, \<open>Udp_Mux_Safety\<close>: the UDP multiplexer: datagrams are
      delivered in order whatever the pieces of the stream, packets read back as written, the life
      of connections, and no assertion fails.
    \<^item> \<open>Icmp_Mux\<close>, \<open>Icmp_Manager\<close>: the same for echo requests: delivery, and exactly one answer per request, by a
      reply or by the timer.
    \<^item> \<open>Memory_Buffer\<close>, \<open>Memfile_Buffer\<close>: the interface \<open>data_buffer\<close> of a byte queue, the buffer in memory and the buffer that spills
      into a file, which both implement it; what short transfers do to the latter.
    \<^item> \<open>Files\<close>, \<open>Ring_Buffer\<close>, \<open>Ring_Buffer_Properties\<close>: files, and the persistent ring buffer byte by byte: it refines the list of
      all records, and a failed append leaves the other records readable.
    \<^item> \<open>Connection_Log\<close>: the users of the ring buffer on Apple systems and on Android, over the interface
      \<open>record_log\<close>: delivery of every record once and in order, and when the log is lost.
    \<^item> \<open>Domain_Filter\<close>: the parser of the exclusions and the matching of names and addresses: a name is matched exactly as
      the public header describes.

  \<^bold>\<open>Parameters.\<close> Socket addresses belong to a library outside the repository; \<open>sa_ops\<close> holds the operations used
  and \<open>sa_laws\<close> what their documentation says, with a concrete instance in every example. The clock, random
  numbers, the pinger, the streams of the HTTP layer, the tunnel and the listeners are arguments or recorded
  calls, and no property assumes anything about them, except that a component below reports only while it is running. The
  system calls on files answer as a function of the number of the call says (\<open>Answer\<close>); properties ask that every
  call makes progress (\<open>healthy\<close>) or is complete (\<open>complete_io\<close>), or ask nothing. The parsing of addresses and the caches of the domain
  filter are the record \<open>filter_lib\<close>, of which nothing is assumed.

  \<^bold>\<open>Bounds.\<close> No definition uses fuel: every loop is a terminating function, and every run is a finite
  sequence of steps of a relation, of any length. Task identifiers of the event loop and chunk totals of
  the memory buffer are unbounded, since 64-bit counters do not wrap in practice, and so are positions in files; the
  stored fields of the ring buffer have their width.

  \<^bold>\<open>Deviations.\<close> Several properties show what the code does where its comments or its interface say something
  else: the attempt counter that wraps, errors that are not reported, a client that outlives its
  session, ambiguous addresses, payload bytes read as packets, stale errors, a failing assertion between the
  manager and the client, and files that are corrupted by short transfers.

  \<^bold>\<open>Not modelled.\<close> The upstreams for HTTP/2 and HTTP/3 and the network layer below them (glue over nghttp2,
  quiche, libevent and system sockets), the tunnel, the DNS handling, the listeners, the
  domain extractor, the TCP/IP
  stack adapter, the operating system tunnel, the command line client, the other platform bindings and
  the setup tools. Of the event loop the libevent base itself, and of the client the parsing of its settings, are
  left out, as are all log lines.
\<close>

end
